(* ===== verification/Prelude.thy ===== *)
theory Prelude
  imports Main "HOL-Library.Word"
begin

text \<open>
  Shared vocabulary of the development: the machine integers of the C++ sources, the big-endian
  byte order of every wire format, ordered maps (\<^verbatim>\<open>std::map\<close>) as association lists sorted by
  key, and the collections of rewrite rules that the component proofs use.

  A \<^verbatim>\<open>uintN_t\<close> is an \<open>N word\<close> (arithmetic wraps). An \<^verbatim>\<open>int32_t\<close> or \<^verbatim>\<open>int16_t\<close> is an
  \<open>int\<close>: signed overflow is undefined in C++, so the integers are exact on every execution the
  language gives a meaning to, and \<open>in_i32\<close> names the range a theorem has to stay inside.
\<close>

unbundle bit_operations_syntax

type_synonym byte = "8 word"
type_synonym u16 = "16 word"
type_synonym u32 = "32 word"
type_synonym u64 = "64 word"
type_synonym bytes = "byte list"

text \<open>Rules that unfold and decode wire encodings, and rules about ordered maps.\<close>

named_theorems codec_simps
named_theorems omap_simps

section \<open>Big-endian integers\<close>

definition write_be16 :: "u16 \<Rightarrow> bytes" where
  "write_be16 v = [ucast (drop_bit 8 v), ucast v]"

definition write_be32 :: "u32 \<Rightarrow> bytes" where
  "write_be32 v = [ucast (drop_bit 24 v), ucast (drop_bit 16 v), ucast (drop_bit 8 v), ucast v]"

definition read_be16 :: "bytes \<Rightarrow> u16" where
  "read_be16 b = push_bit 8 (ucast (b ! 0)) OR ucast (b ! 1)"

definition read_be32 :: "bytes \<Rightarrow> u32" where
  "read_be32 b = push_bit 24 (ucast (b ! 0)) OR push_bit 16 (ucast (b ! 1)) OR
                 push_bit 8 (ucast (b ! 2)) OR ucast (b ! 3)"

lemma length_write_be16 [simp, codec_simps]: "length (write_be16 v) = 2"
  by (simp add: write_be16_def)

lemma length_write_be32 [simp, codec_simps]: "length (write_be32 v) = 4"
  by (simp add: write_be32_def)

lemma read_write_be16 [simp, codec_simps]: "read_be16 (write_be16 v @ r) = v"
  by (rule bit_word_eqI)
     (auto simp: read_be16_def write_be16_def bit_simps not_less)

lemma be32_index:
  assumes "n < (32::nat)"
  obtains "n < 8" | "8 \<le> n" "n < 16" | "16 \<le> n" "n < 24" | "24 \<le> n"
  using assms by linarith

lemma read_write_be32 [simp, codec_simps]: "read_be32 (write_be32 v @ r) = v"
proof (rule bit_word_eqI)
  fix n
  assume "n < LENGTH(32)"
  then have n: "n < 32" by simp
  from n show "bit (read_be32 (write_be32 v @ r)) n = bit v n"
    by (cases rule: be32_index) (use n in \<open>auto simp: read_be32_def write_be32_def bit_simps\<close>)
qed

lemma read_write_be16_Nil [simp, codec_simps]: "read_be16 (write_be16 v) = v"
  using read_write_be16 [of v "[]"] by simp

lemma read_write_be32_Nil [simp, codec_simps]: "read_be32 (write_be32 v) = v"
  using read_write_be32 [of v "[]"] by simp

lemma unat_lt2p: "unat (w :: 'a::len word) < 2 ^ LENGTH('a)"
  by (rule unsigned_less)

section \<open>Characters\<close>

text \<open>A string of the sources as the bytes it consists of.\<close>

definition bytes_of :: "string \<Rightarrow> bytes" where
  "bytes_of s = map (\<lambda>c. of_nat (of_char c)) s"

lemma length_bytes_of [simp]: "length (bytes_of s) = length s"
  by (simp add: bytes_of_def)

section \<open>Signed integers at their width\<close>

definition in_i32 :: "int \<Rightarrow> bool" where
  "in_i32 x \<longleftrightarrow> - (2 ^ 31) \<le> x \<and> x < 2 ^ 31"

definition in_i16 :: "int \<Rightarrow> bool" where
  "in_i16 x \<longleftrightarrow> - (2 ^ 15) \<le> x \<and> x < 2 ^ 15"

lemma sint_word_of_int_32 [simp]: "in_i32 x \<Longrightarrow> sint (word_of_int x :: u32) = x"
  by (simp add: in_i32_def sint_sbintrunc' signed_take_bit_int_eq_self)

lemma sint_word_of_int_16 [simp]: "in_i16 x \<Longrightarrow> sint (word_of_int x :: u16) = x"
  by (simp add: in_i16_def sint_sbintrunc' signed_take_bit_int_eq_self)

lemma in_i32_sint [simp]: "in_i32 (sint (w :: u32))"
  using sint_ge [of w] sint_lt [of w] by (simp add: in_i32_def)

lemma in_i16_sint [simp]: "in_i16 (sint (w :: u16))"
  using sint_ge [of w] sint_lt [of w] by (simp add: in_i16_def)

section \<open>Ordered maps\<close>

text \<open>
  \<open>omap_put k v\<close> is \<^verbatim>\<open>m[k] = v\<close> on a \<^verbatim>\<open>std::map\<close>; \<open>omap_del k\<close> is
  \<^verbatim>\<open>erase(find(k))\<close>; \<open>map_of\<close> is \<^verbatim>\<open>find\<close> and the head of the list is \<^verbatim>\<open>begin()\<close>.
\<close>

abbreviation keys_of :: "('k \<times> 'v) list \<Rightarrow> 'k list" where
  "keys_of m \<equiv> map fst m"

abbreviation omap_ok :: "('k::linorder \<times> 'v) list \<Rightarrow> bool" where
  "omap_ok m \<equiv> sorted_wrt (<) (keys_of m)"

fun omap_put :: "'k::linorder \<Rightarrow> 'v \<Rightarrow> ('k \<times> 'v) list \<Rightarrow> ('k \<times> 'v) list" where
  "omap_put k v [] = [(k, v)]"
| "omap_put k v (e # m) =
     (if fst e < k then e # omap_put k v m
      else if k < fst e then (k, v) # e # m
      else (k, v) # m)"

definition omap_del :: "'k::linorder \<Rightarrow> ('k \<times> 'v) list \<Rightarrow> ('k \<times> 'v) list" where
  "omap_del k m = filter (\<lambda>e. fst e \<noteq> k) m"

lemma set_keys_omap_put [simp, omap_simps]:
  "fst ` set (omap_put k v m) = insert k (fst ` set m)"
  by (induction m) auto

lemma omap_ok_put [simp, omap_simps]: "omap_ok m \<Longrightarrow> omap_ok (omap_put k v m)"
proof (induction m)
  case (Cons e m)
  then show ?case
    using set_keys_omap_put [of k v m] by (auto simp del: set_keys_omap_put)
qed simp

lemma map_of_omap_put [simp, omap_simps]:
  "omap_ok m \<Longrightarrow> map_of (omap_put k v m) = (map_of m)(k \<mapsto> v)"
  by (induction m) (auto simp: fun_eq_iff)

lemma length_omap_put [omap_simps]:
  "omap_ok m \<Longrightarrow> length (omap_put k v m) = (if k \<in> fst ` set m then length m else Suc (length m))"
  by (induction m) (auto dest: less_asym)

lemma length_omap_put_le: "length (omap_put k v m) \<le> Suc (length m)"
  by (induction m) auto

lemma omap_put_not_Nil [simp]: "omap_put k v m \<noteq> []"
  by (cases m) auto

lemma omap_ok_distinct [simp]: "omap_ok m \<Longrightarrow> distinct (keys_of m)"
  by (simp add: strict_sorted_iff)

lemma omap_ok_del [simp, omap_simps]: "omap_ok m \<Longrightarrow> omap_ok (omap_del k m)"
  unfolding omap_del_def by (induction m) auto

lemma set_keys_omap_del [simp, omap_simps]:
  "fst ` set (omap_del k m) = fst ` set m - {k}"
  by (auto simp: omap_del_def)

lemma map_of_omap_del [simp, omap_simps]: "map_of (omap_del k m) = (map_of m)(k := None)"
  unfolding omap_del_def by (induction m) (auto simp: fun_eq_iff)

lemma length_omap_del [omap_simps]:
  "omap_ok m \<Longrightarrow> k \<in> fst ` set m \<Longrightarrow> length (omap_del k m) = length m - 1"
  "k \<notin> fst ` set m \<Longrightarrow> omap_del k m = m"
proof -
  show "omap_ok m \<Longrightarrow> k \<in> fst ` set m \<Longrightarrow> length (omap_del k m) = length m - 1"
  proof (induction m)
    case (Cons e m)
    then show ?case
    proof (cases "fst e = k")
      case True
      with Cons.prems have "k \<notin> fst ` set m" by auto
      then have "filter (\<lambda>e. fst e \<noteq> k) m = m" by (induction m) auto
      with True show ?thesis by (simp add: omap_del_def)
    next
      case False
      with Cons.prems have "m \<noteq> []" by auto
      with False Cons show ?thesis by (cases m) (auto simp: omap_del_def)
    qed
  qed simp
  show "k \<notin> fst ` set m \<Longrightarrow> omap_del k m = m"
    unfolding omap_del_def by (induction m) auto
qed

lemma length_omap_del_le: "length (omap_del k m) \<le> length m"
  by (simp add: omap_del_def)

text \<open>\<open>keys_ge n m\<close>: every key of \<open>m\<close> is at least \<open>n\<close>.\<close>

definition keys_ge :: "'k::linorder \<Rightarrow> ('k \<times> 'v) list \<Rightarrow> bool" where
  "keys_ge n m \<longleftrightarrow> (\<forall>k \<in> fst ` set m. n \<le> k)"

lemma keys_ge_Nil [simp]: "keys_ge n []"
  by (simp add: keys_ge_def)

lemma keys_ge_Cons [simp]: "keys_ge n (e # m) \<longleftrightarrow> n \<le> fst e \<and> keys_ge n m"
  by (simp add: keys_ge_def)

lemma keys_ge_put [simp]: "keys_ge n (omap_put k v m) \<longleftrightarrow> n \<le> k \<and> keys_ge n m"
  unfolding keys_ge_def set_keys_omap_put by blast

lemma keys_ge_mono: "keys_ge n m \<Longrightarrow> n' \<le> n \<Longrightarrow> keys_ge n' m"
  by (auto simp: keys_ge_def intro: order_trans)

lemma omap_ok_keys_ge: "omap_ok (e # m) \<Longrightarrow> keys_ge (fst e) m"
  by (auto simp: keys_ge_def)

lemma less_word_Suc_le: "(a :: 'a::len word) < b \<Longrightarrow> a + 1 \<le> b"
  by (metis inc_le)

lemma keys_ge_succ:
  fixes n :: "'a::len word"
  assumes "keys_ge n m" "n \<notin> fst ` set m"
  shows "keys_ge (n + 1) m"
  unfolding keys_ge_def
proof
  fix k assume k: "k \<in> fst ` set m"
  with assms have "n \<le> k" "n \<noteq> k" by (auto simp: keys_ge_def)
  then show "n + 1 \<le> k" by (intro less_word_Suc_le) simp
qed

lemma keys_ge_tail:
  fixes e :: "'a::len word \<times> 'v"
  assumes "omap_ok (e # m)"
  shows "keys_ge (fst e + 1) m"
  using assms by (intro keys_ge_succ omap_ok_keys_ge) auto

lemma keys_ge_del:
  fixes n :: "'a::len word"
  assumes "keys_ge n m"
  shows "keys_ge (n + 1) (omap_del n m)"
proof (rule keys_ge_succ)
  show "keys_ge n (omap_del n m)" using assms by (auto simp: keys_ge_def omap_del_def)
  show "n \<notin> fst ` set (omap_del n m)" by simp
qed

lemma omap_ok_drop [simp]: "omap_ok m \<Longrightarrow> omap_ok (drop n m)"
  by (simp add: drop_map [symmetric] sorted_wrt_drop)

section \<open>Lists of lists\<close>

text \<open>Pixel buffers are rows laid end to end; \<open>sequence_options\<close> collects the results of a loop that may fail.\<close>

fun sequence_options :: "'a option list \<Rightarrow> 'a list option" where
  "sequence_options [] = Some []"
| "sequence_options (None # xs) = None"
| "sequence_options (Some x # xs) = map_option ((#) x) (sequence_options xs)"

lemma sequence_options_some [simp]: "sequence_options (map Some xs) = Some xs"
  by (induction xs) simp_all

lemma concat_concat: "concat (concat xs) = concat (map concat xs)"
  by (induction xs) simp_all

lemma nth_concat_rows:
  assumes "\<And>r. r < h \<Longrightarrow> length (f r) = s" "i < h" "j < s"
  shows "concat (map f [0..<h]) ! (i * s + j) = f i ! j"
  using assms
proof (induction h)
  case (Suc h)
  have len: "length (concat (map f [0..<h])) = h * s"
    using Suc.prems(1) by (induction h) (simp_all add: less_SucI)
  show ?case
  proof (cases "i = h")
    case True
    then show ?thesis using len by (simp add: nth_append)
  next
    case False
    with Suc.prems have i: "i < h" by simp
    then have "i * s + j < h * s"
      using Suc.prems(3) by (metis Suc_leI add_less_cancel_left le_less_trans mult_Suc mult_le_mono1 add.commute less_le_trans)
    then show ?thesis using len i Suc by (simp add: nth_append)
  qed
qed simp

lemma length_concat_rows: "(\<And>r. r < h \<Longrightarrow> length (f r) = s) \<Longrightarrow> length (concat (map f [0..<h])) = h * s"
  by (induction h) (simp_all add: less_SucI)

end
