(* ===== verification/Codec.thy ===== *)
theory Codec
  imports Prelude
begin

text \<open>
  The contracts of the wire encoders and decoders. \<open>exact_codec\<close>: decoding an encoding gives the
  value back, for the values the format can carry. \<open>wire_codec\<close>: the decoder also ignores what
  follows the encoding, as every \<^verbatim>\<open>if (len < n) return false\<close> decoder does. \<open>fixed_codec\<close>: in
  addition every encoding has the same length and the decoder rejects exactly the shorter inputs.
\<close>

locale exact_codec =
  fixes enc :: "'a \<Rightarrow> bytes" and dec :: "bytes \<Rightarrow> 'a option" and valid :: "'a \<Rightarrow> bool"
  assumes dec_enc: "valid x \<Longrightarrow> dec (enc x) = Some x"
begin

lemma enc_inj: "valid x \<Longrightarrow> valid y \<Longrightarrow> enc x = enc y \<longleftrightarrow> x = y"
  by (metis dec_enc option.inject)

end

locale wire_codec =
  fixes enc :: "'a \<Rightarrow> bytes" and dec :: "bytes \<Rightarrow> 'a option" and valid :: "'a \<Rightarrow> bool"
  assumes dec_enc_append: "valid x \<Longrightarrow> dec (enc x @ rest) = Some x"

sublocale wire_codec \<subseteq> exact_codec enc dec valid
proof
  show "valid x \<Longrightarrow> dec (enc x) = Some x" for x
    using dec_enc_append [of x "[]"] by simp
qed

context wire_codec begin

text \<open>No encoding is a proper prefix of another one with a different meaning.\<close>

lemma enc_prefix_free: "valid x \<Longrightarrow> valid y \<Longrightarrow> enc x @ r = enc y @ r' \<Longrightarrow> x = y"
  using dec_enc_append [of x r] dec_enc_append [of y r'] by simp

end

locale fixed_codec = wire_codec enc dec valid
  for enc :: "'a \<Rightarrow> bytes" and dec :: "bytes \<Rightarrow> 'a option" and valid :: "'a \<Rightarrow> bool" +
  fixes width :: nat
  assumes length_enc: "length (enc x) = width"
    and dec_short: "dec b = None \<longleftrightarrow> length b < width"
    and dec_valid: "dec b = Some x \<Longrightarrow> valid x"
begin

lemma dec_iff: "(\<exists>x. dec b = Some x) \<longleftrightarrow> width \<le> length b"
  using dec_short [of b] by (cases "dec b") auto

text \<open>Decoding reads the first \<open>width\<close> bytes only, whenever those are an encoding.\<close>

lemma dec_take: "valid x \<Longrightarrow> take width b = enc x \<Longrightarrow> dec b = Some x"
  using dec_enc_append [of x "drop width b"] append_take_drop_id [of width b] by simp

end

section \<open>Writing into a fixed buffer\<close>

text \<open>\<open>poke off xs buf\<close> overwrites \<open>buf\<close> from offset \<open>off\<close> on, as the encoders of fixed-size
  packets do.\<close>

definition poke :: "nat \<Rightarrow> bytes \<Rightarrow> bytes \<Rightarrow> bytes" where
  "poke off xs buf = take off buf @ xs @ drop (off + length xs) buf"

lemma poke_append [codec_simps]:
  "length a = off \<Longrightarrow> poke off xs (a @ z) = a @ xs @ drop (length xs) z"
  by (simp add: poke_def)

lemma length_poke [simp]: "off + length xs \<le> length buf \<Longrightarrow> length (poke off xs buf) = length buf"
  by (simp add: poke_def)

lemma bool_byte [simp]: "((if b then 1 else 0 :: byte) \<noteq> 0) = b"
  by simp

end
