(* ===== verification/DiscoveryProtocol.thy ===== *)
theory DiscoveryProtocol
  imports Codec
begin

text \<open>
  LAN discovery: \<^verbatim>\<open>include/nockvm/discovery/types.h\<close>, \<^verbatim>\<open>src/discovery/protocol.cpp\<close> (the announce
  datagram and the device-id bytes), \<^verbatim>\<open>src/discovery/peer_table.cpp\<close> and the receive loop of
  \<^verbatim>\<open>src/discovery/listener.cpp\<close>. The datagrams a listener receives are the input of the model.
\<close>

section \<open>Data\<close>

datatype role = Master | Slave

definition kProtocolMagic :: u32 where "kProtocolMagic = 0x4E4B564D"
definition kProtocolVersion :: u16 where "kProtocolVersion = 1"
definition kAnnouncePacketSize :: nat where "kAnnouncePacketSize = 50"
definition kMaxHostnameLen :: nat where "kMaxHostnameLen = 32"
definition kPeerTimeout :: int where "kPeerTimeout = 5000"

definition kOffMagic :: nat where "kOffMagic = 0"
definition kOffVersion :: nat where "kOffVersion = 4"
definition kOffDeviceId :: nat where "kOffDeviceId = 6"
definition kOffRole :: nat where "kOffRole = 14"
definition kOffTcpPort :: nat where "kOffTcpPort = 15"
definition kOffHostnameLen :: nat where "kOffHostnameLen = 17"
definition kOffHostname :: nat where "kOffHostname = 18"

lemmas announce_layout = kOffMagic_def kOffVersion_def kOffDeviceId_def kOffRole_def kOffTcpPort_def
  kOffHostnameLen_def kOffHostname_def kProtocolMagic_def kProtocolVersion_def kAnnouncePacketSize_def
  kMaxHostnameLen_def

record peer_info =
  device_id :: u64
  hostname :: bytes
  peer_role :: role
  tcp_port :: u16
  ip_address :: bytes
  last_seen :: int

definition role_byte :: "role \<Rightarrow> byte" where
  "role_byte r = (case r of Master \<Rightarrow> 0 | Slave \<Rightarrow> 1)"

record decoded_announce =
  an_device_id :: u64
  an_role :: role
  an_tcp_port :: u16
  an_hostname :: bytes

section \<open>Device ids\<close>

definition encode_device_id :: "u64 \<Rightarrow> bytes" where
  "encode_device_id i = write_be32 (ucast (drop_bit 32 i)) @ write_be32 (ucast i)"

definition decode_device_id :: "bytes \<Rightarrow> u64" where
  "decode_device_id b =
     (let high = ucast (read_be32 b) :: u64; low = ucast (read_be32 (drop 4 b)) :: u64
      in push_bit 32 high OR low)"

lemma high_low_word [simp]:
  fixes i :: u64
  shows "push_bit 32 (ucast (ucast (drop_bit 32 i) :: u32)) OR ucast (ucast i :: u32) = i"
  by (rule bit_word_eqI) (auto simp: bit_simps not_less)

lemma length_encode_device_id [simp]: "length (encode_device_id i) = 8"
  by (simp add: encode_device_id_def)

lemma decode_encode_device_id [simp]: "decode_device_id (encode_device_id i @ r) = i"
  by (simp add: encode_device_id_def decode_device_id_def Let_def)

section \<open>The announce datagram\<close>

definition encode_announce :: "u64 \<Rightarrow> role \<Rightarrow> u16 \<Rightarrow> bytes \<Rightarrow> bytes" where
  "encode_announce i r port host =
     (let buf0 = replicate kAnnouncePacketSize 0;
          buf1 = poke kOffMagic (write_be32 kProtocolMagic) buf0;
          buf2 = poke kOffVersion (write_be16 kProtocolVersion) buf1;
          buf3 = poke kOffDeviceId (write_be32 (ucast (drop_bit 32 i))) buf2;
          buf4 = poke (kOffDeviceId + 4) (write_be32 (ucast i)) buf3;
          buf5 = poke kOffRole [role_byte r] buf4;
          buf6 = poke kOffTcpPort (write_be16 port) buf5;
          hostname_len = min (length host) kMaxHostnameLen;
          buf7 = poke kOffHostnameLen [of_nat hostname_len] buf6
      in poke kOffHostname (take hostname_len host) buf7)"

definition decode_announce :: "bytes \<Rightarrow> decoded_announce option" where
  "decode_announce data =
     (if length data \<noteq> kAnnouncePacketSize then None
      else if read_be32 (drop kOffMagic data) \<noteq> kProtocolMagic then None
      else if read_be16 (drop kOffVersion data) \<noteq> kProtocolVersion then None
      else let rb = data ! kOffRole in
        if rb \<noteq> role_byte Master \<and> rb \<noteq> role_byte Slave then None
        else let hostname_len = unat (data ! kOffHostnameLen) in
          if hostname_len > kMaxHostnameLen then None
          else let high = ucast (read_be32 (drop kOffDeviceId data)) :: u64;
                   low = ucast (read_be32 (drop (kOffDeviceId + 4) data)) :: u64
            in Some \<lparr>an_device_id = push_bit 32 high OR low,
                     an_role = (if rb = role_byte Master then Master else Slave),
                     an_tcp_port = read_be16 (drop kOffTcpPort data),
                     an_hostname = take hostname_len (drop kOffHostname data)\<rparr>)"

lemma drop_role: "drop (4 + k) (a # write_be16 p @ b # z) = drop k z"
  by (simp add: write_be16_def eval_nat_numeral)

text \<open>The packet written field after field is the concatenation of its fields, zero padded.\<close>

lemma encode_announce_layout:
  "encode_announce i r port host =
     write_be32 kProtocolMagic @ write_be16 kProtocolVersion @ encode_device_id i @
     [role_byte r] @ write_be16 port @ [of_nat (min (length host) 32)] @
     take 32 host @ replicate (32 - length host) 0"
proof -
  have split: "replicate 50 (0::byte) = replicate 4 0 @ replicate 2 0 @ replicate 4 0 @ replicate 4 0 @
      [0] @ replicate 2 0 @ [0] @ replicate 32 0"
    by (simp add: numeral_eq_Suc)
  have "take (min (length host) 32) host = take 32 host" by (simp add: min_def)
  then show ?thesis
    unfolding encode_announce_def Let_def announce_layout split
    by (simp add: poke_def encode_device_id_def drop_role)
qed

lemma length_encode_announce: "length (encode_announce i r port host) = kAnnouncePacketSize"
  by (simp add: encode_announce_layout announce_layout)

lemma decode_encode_announce:
  "decode_announce (encode_announce i r port host) =
     Some \<lparr>an_device_id = i, an_role = r, an_tcp_port = port, an_hostname = take 32 host\<rparr>"
proof -
  let ?p = "encode_announce i r port host"
  have len: "length ?p = kAnnouncePacketSize" by (rule length_encode_announce)
  have fields: "read_be32 (drop 0 ?p) = kProtocolMagic" "read_be16 (drop 4 ?p) = kProtocolVersion"
    "?p ! 14 = role_byte r" "?p ! 17 = of_nat (min (length host) 32)"
    "read_be32 (drop 6 ?p) = ucast (drop_bit 32 i)" "read_be32 (drop 10 ?p) = ucast i"
    "read_be16 (drop 15 ?p) = port" "drop 18 ?p = take 32 host @ replicate (32 - length host) 0"
    unfolding encode_announce_layout by (simp_all add: encode_device_id_def nth_append)
  have hl: "unat (of_nat (min (length host) 32) :: byte) = min (length host) 32"
    by (simp add: unat_of_nat min_def)
  have name: "take (min (length host) 32) (drop 18 ?p) = take 32 host"
    unfolding fields by (simp add: min_def)
  show ?thesis
    unfolding decode_announce_def len
    using fields hl name by (cases r) (simp_all add: announce_layout Let_def role_byte_def)
qed

text \<open>The announce codec meets the codec contract on the host names the packet can carry.\<close>

interpretation announce: exact_codec
  "\<lambda>a. encode_announce (an_device_id a) (an_role a) (an_tcp_port a) (an_hostname a)"
  decode_announce "\<lambda>a. length (an_hostname a) \<le> kMaxHostnameLen"
  by unfold_locales (simp add: decode_encode_announce announce_layout)

text \<open>
  An announce datagram decodes to the device id, role and port it was made from and to the first 32
  bytes of the host name; two announcements with host names of at most 32 bytes are the same
  datagram only if all four fields agree.
\<close>

theorem announce_faithful:
  "decode_announce (encode_announce i r port host) =
     Some \<lparr>an_device_id = i, an_role = r, an_tcp_port = port, an_hostname = take 32 host\<rparr> \<and>
   (length host \<le> 32 \<and> length host' \<le> 32 \<longrightarrow>
     (encode_announce i r port host = encode_announce i' r' port' host') =
     ((i, r, port, host) = (i', r', port', host')))"
  using decode_encode_announce
    announce.enc_inj [of "\<lparr>an_device_id = i, an_role = r, an_tcp_port = port, an_hostname = host\<rparr>"
      "\<lparr>an_device_id = i', an_role = r', an_tcp_port = port', an_hostname = host'\<rparr>"]
  by (auto simp: kMaxHostnameLen_def)

theorem announce_faithful_witness:
  "encode_announce 7 Master 47822 [104, 105] \<noteq> encode_announce 7 Slave 47822 [104, 105]"
  using announce_faithful [of 7 Master 47822 "[104, 105]" "[104, 105]" 7 Slave 47822] by simp

section \<open>The peer table\<close>

text \<open>
  \<^verbatim>\<open>peers_\<close> is an \<^verbatim>\<open>unordered_map\<close>; the model keeps its entries sorted by device id, and
  the order of \<open>snapshot\<close> is not part of any statement below.
\<close>

type_synonym peer_table = "(u64 \<times> peer_info) list"

definition upsert :: "peer_info \<Rightarrow> peer_table \<Rightarrow> peer_table" where
  "upsert p t = omap_put (device_id p) p t"

definition prune :: "int \<Rightarrow> int \<Rightarrow> peer_table \<Rightarrow> peer_table" where
  "prune now max_age t = filter (\<lambda>(i, p). \<not> now - last_seen p > max_age) t"

definition peer_snapshot :: "peer_table \<Rightarrow> peer_info list" where
  "peer_snapshot t = map snd t"

section \<open>The listener\<close>

text \<open>
  One iteration of the loop of \<^verbatim>\<open>Listener::run\<close>. \<open>recv_datagram\<close> is what \<^verbatim>\<open>recvfrom\<close> left in the
  buffer and the sender's address, \<open>None\<close> when it timed out or failed; \<open>now\<close> and \<open>now'\<close> are the two
  readings of the clock in the iteration.
\<close>

record datagram =
  dg_data :: bytes
  dg_from :: bytes

definition announced_peer :: "decoded_announce \<Rightarrow> bytes \<Rightarrow> int \<Rightarrow> peer_info" where
  "announced_peer d from now =
     \<lparr>device_id = an_device_id d, hostname = an_hostname d, peer_role = an_role d,
      tcp_port = an_tcp_port d, ip_address = from, last_seen = now\<rparr>"

definition received_bytes :: "bytes \<Rightarrow> bytes" where
  "received_bytes datagram = take kAnnouncePacketSize datagram"

definition listener_step :: "u64 \<Rightarrow> datagram option \<Rightarrow> int \<Rightarrow> int \<Rightarrow> peer_table \<Rightarrow> peer_table" where
  "listener_step own recv_datagram now now' t =
     (let t1 = (case recv_datagram of
                  None \<Rightarrow> t
                | Some g \<Rightarrow>
                    (let buf = received_bytes (dg_data g) in
                     if length buf > 0 then
                       (case decode_announce buf of
                          None \<Rightarrow> t
                        | Some d \<Rightarrow>
                            if an_device_id d \<noteq> own then upsert (announced_peer d (dg_from g) now) t else t)
                     else t))
      in prune now' kPeerTimeout t1)"

text \<open>A run of the loop: for each iteration, what was received and the two clock readings.\<close>

fun listener_run :: "u64 \<Rightarrow> (datagram option \<times> int \<times> int) list \<Rightarrow> peer_table \<Rightarrow> peer_table" where
  "listener_run own [] t = t"
| "listener_run own ((g, now, now') # es) t = listener_run own es (listener_step own g now now' t)"

definition table_ok :: "u64 \<Rightarrow> peer_table \<Rightarrow> bool" where
  "table_ok own t \<longleftrightarrow> omap_ok t \<and> (\<forall>(i, p) \<in> set t. i = device_id p \<and> i \<noteq> own)"

lemma set_omap_put_subset: "e \<in> set (omap_put k v m) \<Longrightarrow> e = (k, v) \<or> e \<in> set m"
  by (induction m) (auto split: if_splits)

lemma table_ok_upsert [intro]:
  assumes "table_ok own t" "device_id p \<noteq> own"
  shows "table_ok own (upsert p t)"
proof -
  have "i = device_id q \<and> i \<noteq> own" if "(i, q) \<in> set (upsert p t)" for i q
    using set_omap_put_subset [OF that [unfolded upsert_def]] assms by (auto simp: table_ok_def)
  with assms(1) show ?thesis by (auto simp: table_ok_def upsert_def)
qed

lemma omap_ok_filter: "omap_ok m \<Longrightarrow> omap_ok (filter P m)"
  by (induction m) auto

lemma table_ok_prune [intro]: "table_ok own t \<Longrightarrow> table_ok own (prune now age t)"
  by (auto simp: table_ok_def prune_def omap_ok_filter)

lemma table_ok_step: "table_ok own t \<Longrightarrow> table_ok own (listener_step own g now now' t)"
  by (auto simp: listener_step_def Let_def announced_peer_def split: option.split
      intro!: table_ok_prune table_ok_upsert)

lemma table_ok_run: "table_ok own t \<Longrightarrow> table_ok own (listener_run own es t)"
  by (induction own es t rule: listener_run.induct) (simp_all add: table_ok_step)

lemma map_of_filter_val:
  "omap_ok m \<Longrightarrow> map_of (filter (\<lambda>(k, v). P v) m) k =
    (case map_of m k of Some v \<Rightarrow> if P v then Some v else None | None \<Rightarrow> None)"
proof (induction m)
  case (Cons e m)
  have "map_of m (fst e) = None" if "omap_ok (e # m)"
    using that by (auto simp: map_of_eq_None_iff)
  with Cons show ?case by (cases e) (auto split: option.splits)
qed simp

lemma map_of_prune:
  "omap_ok t \<Longrightarrow> map_of (prune now age t) i =
    (case map_of t i of Some p \<Rightarrow> if \<not> now - last_seen p > age then Some p else None | None \<Rightarrow> None)"
  unfolding prune_def by (rule map_of_filter_val)



end
