(* ===== verification/Announcer.thy ===== *)
theory Announcer
  imports DiscoveryProtocol
begin

unbundle bit_operations_syntax

text \<open>
  The sending side of discovery: the broadcast addresses of \<^verbatim>\<open>src/discovery/network_interfaces.cpp\<close>
  (both systems) and the loop of \<^verbatim>\<open>src/discovery/announcer.cpp\<close>, and how it keeps a device in the tables of
  the listeners on the network. Addresses are in host byte order.
\<close>

section \<open>Broadcast targets\<close>

record adapter =
  ad_up :: bool
  ad_loopback :: bool
  ad_addresses :: "(u32 \<times> nat) list"

definition broadcast_host :: "u32 \<Rightarrow> nat \<Rightarrow> u32" where
  "broadcast_host ip prefix_len =
     (let m = (if prefix_len = 0 then 0 else push_bit (32 - prefix_len) 0xFFFFFFFF)
      in (ip AND m) OR NOT m)"

text \<open>The adapters the system lists, \<open>None\<close> when it fails, with the IPv4 addresses and prefix lengths of each.\<close>

definition get_broadcast_targets :: "adapter list option \<Rightarrow> u32 list" where
  "get_broadcast_targets adapters =
     (case adapters of
        None \<Rightarrow> []
      | Some as \<Rightarrow>
          concat (map (\<lambda>a. if \<not> ad_up a \<or> ad_loopback a then []
                            else map (\<lambda>(ip, prefix_len). broadcast_host ip prefix_len) (ad_addresses a)) as))"

text \<open>On Linux the system knows the broadcast address of each interface.\<close>

record ifaddr_entry =
  ifa_inet :: bool
  ifa_loopback :: bool
  ifa_broadcast :: bool
  ifa_broadaddr :: "u32 option"

definition linux_broadcast_targets :: "ifaddr_entry list option \<Rightarrow> u32 list" where
  "linux_broadcast_targets entries =
     (case entries of
        None \<Rightarrow> []
      | Some es \<Rightarrow>
          concat (map (\<lambda>e. if \<not> ifa_inet e \<or> ifa_loopback e \<or> \<not> ifa_broadcast e then []
                            else case ifa_broadaddr e of None \<Rightarrow> [] | Some a \<Rightarrow> [a]) es))"

lemma bit_broadcast_host:
  assumes "prefix_len \<le> 32" "n < 32"
  shows "bit (broadcast_host ip prefix_len) n \<longleftrightarrow> (if n < 32 - prefix_len then True else bit ip n)"
proof -
  have w: "(0xFFFFFFFF :: u32) = mask 32" by (simp add: mask_eq_exp_minus_1)
  have b: "bit (broadcast_host ip prefix_len) n \<longleftrightarrow>
      bit ip n \<or> \<not> (prefix_len \<noteq> 0 \<and> bit (push_bit (32 - prefix_len) (mask 32 :: u32)) n)"
    using assms(2) unfolding broadcast_host_def Let_def w by (auto simp: bit_or_iff bit_and_iff bit_not_iff)
  have "bit (push_bit (32 - prefix_len) (mask 32 :: u32)) n \<longleftrightarrow> 32 - prefix_len \<le> n"
    using assms(2) by (auto simp: bit_push_bit_iff bit_mask_iff)
  then show ?thesis unfolding b using assms by auto
qed

section \<open>The announcer\<close>

definition INADDR_BROADCAST :: u32 where "INADDR_BROADCAST = 0xFFFFFFFF"

text \<open>One round: the packet goes to every target.\<close>

definition announce_round :: "bytes \<Rightarrow> u32 list \<Rightarrow> (u32 \<times> bytes) list" where
  "announce_round packet targets = map (\<lambda>t. (t, packet)) (if targets = [] then [INADDR_BROADCAST] else targets)"

text \<open>\<^verbatim>\<open>for (int i = 0; i < 10 && running_; ++i) sleep_for(100ms)\<close>\<close>

fun announce_pause :: "nat \<Rightarrow> (int \<Rightarrow> bool) \<Rightarrow> int \<Rightarrow> int" where
  "announce_pause 0 running now = now"
| "announce_pause (Suc n) running now = (if running now then announce_pause n running (now + 100) else now)"

text \<open>The loop, for the targets found in each round: the packets with the time they are sent.\<close>

fun announcer_loop :: "bytes \<Rightarrow> (int \<Rightarrow> bool) \<Rightarrow> u32 list list \<Rightarrow> int \<Rightarrow> (int \<times> u32 \<times> bytes) list" where
  "announcer_loop packet running [] now = []"
| "announcer_loop packet running (targets # rounds) now =
     (if \<not> running now then []
      else map (\<lambda>(t, p). (now, t, p)) (announce_round packet targets) @
           announcer_loop packet running rounds (announce_pause 10 running now))"

definition announcer_run :: "u64 \<Rightarrow> role \<Rightarrow> u16 \<Rightarrow> bytes \<Rightarrow> (int \<Rightarrow> bool) \<Rightarrow> u32 list list \<Rightarrow> int \<Rightarrow> (int \<times> u32 \<times> bytes) list" where
  "announcer_run dev r port host running rounds now =
     announcer_loop (encode_announce dev r port host) running rounds now"

lemma announce_round_nonempty: "announce_round packet targets \<noteq> []"
  by (simp add: announce_round_def)

lemma announce_pause_running: "(\<And>t. running t) \<Longrightarrow> announce_pause n running now = now + 100 * int n"
  by (induction n arbitrary: now) simp_all

lemma announcer_loop_packets: "(t, target, p) \<in> set (announcer_loop packet running rounds now) \<Longrightarrow> p = packet"
  by (induction packet running rounds now rule: announcer_loop.induct)
    (auto simp: announce_round_def split: if_splits)

text \<open>While it runs, there is a packet in every second, at the start of the round.\<close>

lemma announcer_loop_paced:
  assumes "\<And>t. running t" "i < length rounds"
  shows "\<exists>target. (now + 1000 * int i, target, packet) \<in> set (announcer_loop packet running rounds now)"
  using assms(2)
proof (induction rounds arbitrary: i now)
  case (Cons targets rounds)
  have r: "running = (\<lambda>_. True)" using assms(1) by auto
  have pause: "announce_pause 10 (\<lambda>_. True) now = now + 1000"
    using announce_pause_running [of "\<lambda>_. True" 10 now] by simp
  show ?case
  proof (cases i)
    case 0
    obtain e es where "announce_round packet targets = e # es"
      using announce_round_nonempty [of packet targets] by (cases "announce_round packet targets") auto
    then show ?thesis using 0 assms(1) by (auto simp: announce_round_def split: if_splits)
  next
    case (Suc j)
    with Cons.prems obtain to where "(now + 1000 + 1000 * int j, to, packet) \<in> set (announcer_loop packet running rounds (now + 1000))"
      using Cons.IH [of j "now + 1000"] by auto
    then have "(now + 1000 * int i, to, packet) \<in> set (announcer_loop packet running (targets # rounds) now)"
      using Suc by (simp add: r pause algebra_simps)
    then show ?thesis by blast
  qed
qed simp

section \<open>Announced devices stay listed\<close>

definition silent_about :: "u64 \<Rightarrow> datagram option \<Rightarrow> bool" where
  "silent_about i g \<longleftrightarrow>
     (case g of
        None \<Rightarrow> True
      | Some d \<Rightarrow> (case decode_announce (received_bytes (dg_data d)) of None \<Rightarrow> True | Some a \<Rightarrow> an_device_id a \<noteq> i))"

text \<open>
  The iterations of a listener in which the datagram of device \<open>i\<close> keeps coming: it was last received at
  \<open>last_at\<close>, and no clock reading is more than the peer timeout after the last one received.
\<close>

fun keeps_coming :: "u64 \<Rightarrow> datagram \<Rightarrow> int \<Rightarrow> (datagram option \<times> int \<times> int) list \<Rightarrow> bool" where
  "keeps_coming i d last_at [] \<longleftrightarrow> True"
| "keeps_coming i d last_at ((g, now, now') # es) \<longleftrightarrow>
     (if g = Some d then now' - now \<le> kPeerTimeout \<and> keeps_coming i d now es
      else silent_about i g \<and> now' - last_at \<le> kPeerTimeout \<and> keeps_coming i d last_at es)"

definition announced_as :: "u64 \<Rightarrow> role \<Rightarrow> u16 \<Rightarrow> bytes \<Rightarrow> bytes \<Rightarrow> int \<Rightarrow> peer_info" where
  "announced_as i r port host ip at =
     \<lparr>device_id = i, hostname = take 32 host, peer_role = r, tcp_port = port, ip_address = ip, last_seen = at\<rparr>"

lemma step_hears:
  assumes "table_ok own t" "i \<noteq> own" "now' - now \<le> kPeerTimeout"
  shows "map_of (listener_step own (Some \<lparr>dg_data = encode_announce i r port host, dg_from = ip\<rparr>) now now' t) i =
    Some (announced_as i r port host ip now)"
proof -
  let ?p = "announced_as i r port host ip now"
  have buf: "received_bytes (encode_announce i r port host) = encode_announce i r port host"
    "0 < length (encode_announce i r port host)"
    by (simp_all add: received_bytes_def length_encode_announce kAnnouncePacketSize_def)
  have "listener_step own (Some \<lparr>dg_data = encode_announce i r port host, dg_from = ip\<rparr>) now now' t =
      prune now' kPeerTimeout (upsert ?p t)"
    using assms(2) buf
    by (simp add: listener_step_def Let_def decode_encode_announce announced_peer_def announced_as_def)
  moreover have "omap_ok (upsert ?p t)" "map_of (upsert ?p t) i = Some ?p"
    using assms(1) by (simp_all add: upsert_def table_ok_def announced_as_def)
  ultimately show ?thesis using assms(3) by (simp add: map_of_prune announced_as_def)
qed

lemma step_silent:
  assumes "table_ok own t" "silent_about i g" "map_of t i = Some p" "now' - last_seen p \<le> kPeerTimeout"
  shows "map_of (listener_step own g now now' t) i = Some p"
proof -
  have ok: "omap_ok t" using assms(1) by (simp add: table_ok_def)
  have keep: "map_of (prune now' kPeerTimeout u) i = Some p" if "omap_ok u" "map_of u i = Some p" for u
    by (simp only: map_of_prune [OF that(1)] that(2) option.case if_True) (use assms(4) in simp)
  have ups: "omap_ok (upsert (announced_peer a from now) t)"
    "an_device_id a \<noteq> i \<Longrightarrow> map_of (upsert (announced_peer a from now) t) i = Some p" for a "from"
    using ok by (simp_all add: upsert_def announced_peer_def assms(3))
  show ?thesis
  proof (cases "\<exists>d a. g = Some d \<and> decode_announce (received_bytes (dg_data d)) = Some a \<and>
      received_bytes (dg_data d) \<noteq> [] \<and> an_device_id a \<noteq> own")
    case True
    then obtain d a where d: "g = Some d" "decode_announce (received_bytes (dg_data d)) = Some a"
      "received_bytes (dg_data d) \<noteq> []" "an_device_id a \<noteq> own" by blast
    then have "listener_step own g now now' t = prune now' kPeerTimeout (upsert (announced_peer a (dg_from d) now) t)"
      by (simp add: listener_step_def Let_def)
    moreover have "an_device_id a \<noteq> i" using assms(2) d by (simp add: silent_about_def)
    ultimately show ?thesis using keep [OF ups(1) ups(2)] by simp
  next
    case False
    then have "listener_step own g now now' t = prune now' kPeerTimeout t"
      by (auto simp: listener_step_def Let_def split: option.split)
    then show ?thesis using keep [OF ok assms(3)] by simp
  qed
qed

lemma keeps_listed:
  assumes "table_ok own t" "i \<noteq> own" "map_of t i = Some (announced_as i r port host ip at)"
    and "keeps_coming i \<lparr>dg_data = encode_announce i r port host, dg_from = ip\<rparr> at es"
  shows "\<exists>at'. map_of (listener_run own es t) i = Some (announced_as i r port host ip at')"
  using assms
proof (induction es arbitrary: t at)
  case (Cons e es)
  let ?d = "\<lparr>dg_data = encode_announce i r port host, dg_from = ip\<rparr>"
  obtain g now now' where e: "e = (g, now, now')" using prod_cases3 by blast
  let ?t = "listener_step own g now now' t"
  have ok: "table_ok own ?t" by (rule table_ok_step [OF Cons.prems(1)])
  show ?case
  proof (cases "g = Some ?d")
    case True
    with Cons.prems(4) e have k: "now' - now \<le> kPeerTimeout" "keeps_coming i ?d now es" by simp_all
    have "map_of ?t i = Some (announced_as i r port host ip now)"
      unfolding True by (rule step_hears [OF Cons.prems(1,2) k(1)])
    from Cons.IH [OF ok Cons.prems(2) this k(2)] show ?thesis by (simp add: e)
  next
    case False
    with Cons.prems(4) e have k: "silent_about i g" "now' - at \<le> kPeerTimeout" "keeps_coming i ?d at es" by simp_all
    have "map_of ?t i = Some (announced_as i r port host ip at)"
      by (rule step_silent [OF Cons.prems(1) k(1) Cons.prems(3)]) (use k(2) in \<open>simp add: announced_as_def\<close>)
    from Cons.IH [OF ok Cons.prems(2) this k(3)] show ?thesis by (simp add: e)
  qed
qed auto

text \<open>
  C29. An announcing device is discovered and stays discovered: the announcer sends its packet at least
  once per second while it runs, and once a listener has received it, the listener's table holds the
  device with its role, port and host name and the sender's address for as long as further packets
  arrive within the peer timeout, whatever other devices send.
\<close>

theorem announced_device_stays_listed:
  assumes "i \<noteq> own" "(sent, target, data) \<in> set (announcer_run i r port host running rounds start)"
    and "d = \<lparr>dg_data = data, dg_from = ip\<rparr>" "now' - now \<le> kPeerTimeout" "keeps_coming i d now es"
    and "t = listener_run own (before @ (Some d, now, now') # es) []"
  shows "(\<exists>at. announced_as i r port host ip at \<in> set (peer_snapshot t)) \<and>
    ((\<forall>x. running x) \<longrightarrow> (\<forall>n < length rounds. \<exists>to. (start + 1000 * int n, to, data) \<in> set (announcer_run i r port host running rounds start)))"
proof
  have data: "data = encode_announce i r port host"
    using assms(2) announcer_loop_packets unfolding announcer_run_def by blast
  let ?t = "listener_run own before []"
  have app: "listener_run own (xs @ ys) t0 = listener_run own ys (listener_run own xs t0)" for xs ys t0
    by (induction own xs t0 rule: listener_run.induct) simp_all
  have ok: "table_ok own ?t" by (rule table_ok_run) (simp add: table_ok_def)
  have "map_of (listener_step own (Some d) now now' ?t) i = Some (announced_as i r port host ip now)"
    unfolding assms(3) data by (rule step_hears [OF ok assms(1,4)])
  from keeps_listed [OF table_ok_step [OF ok] assms(1) this] assms(5)
  obtain at where "map_of t i = Some (announced_as i r port host ip at)"
    unfolding assms(6) app by (auto simp: assms(3) data)
  then show "\<exists>at. announced_as i r port host ip at \<in> set (peer_snapshot t)"
    by (force simp: peer_snapshot_def dest: map_of_SomeD)
  show "(\<forall>x. running x) \<longrightarrow> (\<forall>n < length rounds. \<exists>to. (start + 1000 * int n, to, data) \<in> set (announcer_run i r port host running rounds start))"
    unfolding announcer_run_def data using announcer_loop_paced by blast
qed

theorem announced_device_stays_listed_witness:
  "\<exists>at. announced_as 7 Master 9000 [104] [49] at \<in>
     set (peer_snapshot (listener_run 42
       [(Some \<lparr>dg_data = encode_announce 7 Master 9000 [104], dg_from = [49]\<rparr>, 0, 0), (None, 4000, 4200)] []))"
proof -
  let ?d = "\<lparr>dg_data = encode_announce 7 Master 9000 [104], dg_from = [49]\<rparr>"
  have "(0, INADDR_BROADCAST, encode_announce 7 Master 9000 [104]) \<in> set (announcer_run 7 Master 9000 [104] (\<lambda>_. True) [[]] 0)"
    by (simp add: announcer_run_def announce_round_def)
  from announced_device_stays_listed [OF _ this refl _ _ refl, of 42 0 0 "[49]" "[(None, 4000, 4200)]" "[]"]
  show ?thesis by (simp add: kPeerTimeout_def silent_about_def)
qed

end
