(* ===== verification/IcoDecode.thy ===== *)
theory IcoDecode
  imports Prelude "HOL-Library.Monad_Syntax"
begin

unbundle bit_operations_syntax

text \<open>
  The reader of icon files, \<^verbatim>\<open>src/app/ico_decode.cpp\<close>, which runs on whatever bytes the file holds. Each
  access to the buffer is checked here and \<open>None\<close> stands for an access beyond its end, which C++ leaves
  undefined. Sizes are natural numbers: see \<open>sizes_fit\<close> for why 64 bits are enough; the one sum the
  code forms in 32 bits wraps here too.
\<close>

section \<open>Reading integers\<close>

definition byte_at :: "bytes \<Rightarrow> nat \<Rightarrow> byte option" where
  "byte_at b off = (if off < length b then Some (b ! off) else None)"

definition read_u16le :: "bytes \<Rightarrow> nat \<Rightarrow> u16 option" where
  "read_u16le b off = do { x \<leftarrow> byte_at b off; y \<leftarrow> byte_at b (off + 1); Some (ucast x OR push_bit 8 (ucast y)) }"

definition read_u32le :: "bytes \<Rightarrow> nat \<Rightarrow> u32 option" where
  "read_u32le b off = do {
     w \<leftarrow> byte_at b off; x \<leftarrow> byte_at b (off + 1); y \<leftarrow> byte_at b (off + 2); z \<leftarrow> byte_at b (off + 3);
     Some (ucast w OR push_bit 8 (ucast x) OR push_bit 16 (ucast y) OR push_bit 24 (ucast z)) }"

definition read_i32le :: "bytes \<Rightarrow> nat \<Rightarrow> int option" where
  "read_i32le b off = map_option sint (read_u32le b off)"

lemma byte_at_some [simp]: "off < length b \<Longrightarrow> byte_at b off = Some (b ! off)"
  by (simp add: byte_at_def)

lemma read_some:
  "off + 2 \<le> length b \<Longrightarrow> \<exists>v. read_u16le b off = Some v"
  "off + 4 \<le> length b \<Longrightarrow> \<exists>v. read_u32le b off = Some v"
  "off + 4 \<le> length b \<Longrightarrow> \<exists>v. read_i32le b off = Some v"
  by (simp_all add: read_u16le_def read_u32le_def read_i32le_def)

section \<open>Frames\<close>

record dir_entry =
  de_width :: int
  de_height :: int
  de_bit_count :: int
  de_bytes_in_res :: u32
  de_image_offset :: u32

record decoded_icon =
  ic_width :: nat
  ic_height :: nat
  ic_argb :: bytes

definition kPngMagic :: bytes where
  "kPngMagic = [0x89, 0x50, 0x4E, 0x47, 0x0D, 0x0A, 0x1A, 0x0A]"

definition is_png :: "bytes \<Rightarrow> nat \<Rightarrow> bool option" where
  "is_png b off =
     (if off + length kPngMagic > length b then Some False
      else map_option (\<lambda>bs. bs = kPngMagic) (sequence_options (map (\<lambda>i. byte_at b (off + i)) [0..<length kPngMagic])))"

definition argb_pixel :: "bytes \<Rightarrow> nat \<Rightarrow> bytes option" where
  "argb_pixel b off = do {
     blue \<leftarrow> byte_at b off; green \<leftarrow> byte_at b (off + 1); red \<leftarrow> byte_at b (off + 2); alpha \<leftarrow> byte_at b (off + 3);
     Some [alpha, red, green, blue] }"

text \<open>The loops of \<^verbatim>\<open>decode_bmp_frame\<close> over rows and columns.\<close>

definition argb_rows :: "bytes \<Rightarrow> nat \<Rightarrow> nat \<Rightarrow> nat \<Rightarrow> bytes option" where
  "argb_rows b pixels_off width height =
     (let row_stride = width * 4 in
      map_option concat (sequence_options (map (\<lambda>y. map_option concat
        (sequence_options (map (\<lambda>x. argb_pixel b (pixels_off + row_stride * (height - 1 - y) + x * 4)) [0..<width])))
        [0..<height])))"

definition decode_bmp_frame :: "bytes \<Rightarrow> dir_entry \<Rightarrow> decoded_icon option option" where
  "decode_bmp_frame b e =
     (let off = unat (de_image_offset e) in
      if off + 40 > length b then Some None
      else do {
        header_size \<leftarrow> read_u32le b off;
        if header_size < 40 then Some None
        else do {
          bmp_width \<leftarrow> read_i32le b (off + 4);
          bmp_height_x2 \<leftarrow> read_i32le b (off + 8);
          bit_count \<leftarrow> read_u16le b (off + 14);
          compression \<leftarrow> read_u32le b (off + 16);
          if bit_count \<noteq> 32 \<or> compression \<noteq> 0 then Some None
          else if bmp_width \<le> 0 \<or> bmp_height_x2 \<le> 0 \<or> bmp_height_x2 mod 2 \<noteq> 0 then Some None
          else
            (let width = nat bmp_width; height = nat (bmp_height_x2 div 2);
                 pixels_off = off + unat header_size; row_stride = width * 4; xor_bytes = row_stride * height
             in if pixels_off + xor_bytes > length b then Some None
                else do {
                  argb \<leftarrow> argb_rows b pixels_off width height;
                  Some (Some \<lparr>ic_width = width, ic_height = height, ic_argb = argb\<rparr>) }) } })"

section \<open>The file\<close>

definition read_entry :: "bytes \<Rightarrow> nat \<Rightarrow> dir_entry option" where
  "read_entry b i =
     (let eoff = 6 + i * 16 in do {
        w \<leftarrow> byte_at b eoff; h \<leftarrow> byte_at b (eoff + 1);
        bits \<leftarrow> read_u16le b (eoff + 6); size \<leftarrow> read_u32le b (eoff + 8); offset \<leftarrow> read_u32le b (eoff + 12);
        Some \<lparr>de_width = (if w = 0 then 256 else uint w), de_height = (if h = 0 then 256 else uint h),
              de_bit_count = uint bits, de_bytes_in_res = size, de_image_offset = offset\<rparr> })"

fun first_frame :: "bytes \<Rightarrow> dir_entry list \<Rightarrow> decoded_icon option option" where
  "first_frame b [] = Some None"
| "first_frame b (e # es) =
     (if unat (de_image_offset e + de_bytes_in_res e) > length b then first_frame b es
      else do {
        png \<leftarrow> is_png b (unat (de_image_offset e));
        if png then first_frame b es
        else do {
          decoded \<leftarrow> decode_bmp_frame b e;
          (case decoded of Some icon \<Rightarrow> Some (Some icon) | None \<Rightarrow> first_frame b es) } })"

text \<open>
  \<open>order\<close> is \<^verbatim>\<open>std::sort\<close> with the comparison of the source, which leaves the order of entries equally
  close to 32 pixels open. No contents: the file cannot be opened.
\<close>

definition load_ico :: "(dir_entry list \<Rightarrow> dir_entry list) \<Rightarrow> bytes option \<Rightarrow> decoded_icon option option" where
  "load_ico order contents =
     (case contents of
        None \<Rightarrow> Some None
      | Some buf \<Rightarrow>
          if length buf < 6 then Some None
          else do {
            reserved \<leftarrow> read_u16le buf 0; type \<leftarrow> read_u16le buf 2;
            if reserved \<noteq> 0 \<or> type \<noteq> 1 then Some None
            else do {
              count \<leftarrow> read_u16le buf 4;
              if count = 0 \<or> 6 + unat count * 16 > length buf then Some None
              else do {
                entries \<leftarrow> sequence_options (map (read_entry buf) [0..<unat count]);
                first_frame buf (order entries) } } })"

definition by_size :: "dir_entry list \<Rightarrow> dir_entry list" where
  "by_size = sort_key (\<lambda>e. \<bar>de_width e - 32\<bar>)"

section \<open>Every access is inside the buffer\<close>

lemma sequence_options_total:
  "(\<And>x. x \<in> set xs \<Longrightarrow> f x = Some (g x)) \<Longrightarrow> sequence_options (map f xs) = Some (map g xs)"
  by (induction xs) simp_all

lemma argb_pixel_some:
  "off + 4 \<le> length b \<Longrightarrow> argb_pixel b off = Some [b ! (off + 3), b ! (off + 2), b ! (off + 1), b ! off]"
  by (simp add: argb_pixel_def)

text \<open>The pixels of the output, row by row.\<close>

definition argb_of :: "bytes \<Rightarrow> nat \<Rightarrow> nat \<Rightarrow> nat \<Rightarrow> bytes" where
  "argb_of b base width height =
     concat (map (\<lambda>y. concat (map (\<lambda>x. let off = base + width * 4 * (height - 1 - y) + x * 4
        in [b ! (off + 3), b ! (off + 2), b ! (off + 1), b ! off]) [0..<width])) [0..<height])"

lemma argb_rows_some:
  assumes "base + width * 4 * height \<le> length b"
  shows "argb_rows b base width height = Some (argb_of b base width height)"
proof -
  have px: "argb_pixel b (base + width * 4 * (height - 1 - y) + x * 4) =
      Some (let off = base + width * 4 * (height - 1 - y) + x * 4 in [b ! (off + 3), b ! (off + 2), b ! (off + 1), b ! off])"
    if "y < height" "x < width" for x y
  proof -
    have "x * 4 + 4 \<le> width * 4" using that by linarith
    moreover have "width * 4 * (height - 1 - y) + width * 4 \<le> width * 4 * height"
    proof -
      have "height - y = Suc (height - 1 - y)" using that by simp
      then have "width * 4 * (height - 1 - y) + width * 4 = width * 4 * (height - y)" by (simp only: mult_Suc_right add.commute)
      also have "\<dots> \<le> width * 4 * height" by (rule mult_le_mono2) simp
      finally show ?thesis .
    qed
    ultimately show ?thesis using assms by (simp add: argb_pixel_some Let_def)
  qed
  let ?row = "\<lambda>y. map (\<lambda>x. let off = base + width * 4 * (height - 1 - y) + x * 4
    in [b ! (off + 3), b ! (off + 2), b ! (off + 1), b ! off]) [0..<width]"
  have "sequence_options (map (\<lambda>x. argb_pixel b (base + width * 4 * (height - 1 - y) + x * 4)) [0..<width]) = Some (?row y)"
    if "y < height" for y
    by (rule sequence_options_total) (use px that in simp)
  then have "sequence_options (map (\<lambda>y. map_option concat (sequence_options
      (map (\<lambda>x. argb_pixel b (base + width * 4 * (height - 1 - y) + x * 4)) [0..<width]))) [0..<height]) =
      Some (map (\<lambda>y. concat (?row y)) [0..<height])"
    by (intro sequence_options_total) simp
  then show ?thesis by (simp add: argb_rows_def argb_of_def Let_def)
qed

text \<open>The icon is a copy of pixels of the buffer.\<close>

definition icon_from :: "bytes \<Rightarrow> decoded_icon \<Rightarrow> bool" where
  "icon_from b icon \<longleftrightarrow> 0 < ic_width icon \<and> 0 < ic_height icon \<and>
     (\<exists>base. base + ic_width icon * 4 * ic_height icon \<le> length b \<and>
        ic_argb icon = argb_of b base (ic_width icon) (ic_height icon))"

lemma decode_safe:
  "\<exists>r. decode_bmp_frame b e = Some r \<and> (\<forall>icon. r = Some icon \<longrightarrow> icon_from b icon)"
proof (cases "unat (de_image_offset e) + 40 > length b")
  case True
  then show ?thesis by (simp add: decode_bmp_frame_def Let_def)
next
  case False
  let ?off = "unat (de_image_offset e)"
  have le: "?off + 40 \<le> length b" using False by simp
  obtain hs where hs: "read_u32le b ?off = Some hs" using read_some(2) [of ?off b] le by auto
  obtain w where w: "read_i32le b (?off + 4) = Some w" using read_some(3) [of "?off + 4" b] le by auto
  obtain h2 where h2: "read_i32le b (?off + 8) = Some h2" using read_some(3) [of "?off + 8" b] le by auto
  obtain bc where bc: "read_u16le b (?off + 14) = Some bc" using read_some(1) [of "?off + 14" b] le by auto
  obtain cp where cp: "read_u32le b (?off + 16) = Some cp" using read_some(2) [of "?off + 16" b] le by auto
  let ?base = "?off + unat hs"
  show ?thesis
  proof (cases "hs < 40 \<or> bc \<noteq> 32 \<or> cp \<noteq> 0 \<or> w \<le> 0 \<or> h2 \<le> 0 \<or> h2 mod 2 \<noteq> 0 \<or> ?base + nat w * 4 * nat (h2 div 2) > length b")
    case True
    then show ?thesis using False hs w h2 bc cp by (auto simp: decode_bmp_frame_def Let_def)
  next
    case ok: False
    then have "argb_rows b ?base (nat w) (nat (h2 div 2)) = Some (argb_of b ?base (nat w) (nat (h2 div 2)))"
      by (intro argb_rows_some) simp
    moreover have "0 < h2" "h2 mod 2 = 0" using ok by simp_all
    then have "0 < h2 div 2" by presburger
    ultimately show ?thesis
      using False ok hs w h2 bc cp by (auto simp: decode_bmp_frame_def icon_from_def Let_def intro!: exI [of _ ?base])
  qed
qed

lemma png_safe: "\<exists>p. is_png b off = Some p"
proof (cases "off + length kPngMagic > length b")
  case False
  then have "sequence_options (map (\<lambda>i. byte_at b (off + i)) [0..<length kPngMagic]) =
      Some (map (\<lambda>i. b ! (off + i)) [0..<length kPngMagic])"
    by (intro sequence_options_total) simp
  with False show ?thesis by (simp add: is_png_def)
next
  case True
  then have "is_png b off = Some False" by (simp add: is_png_def)
  then show ?thesis by blast
qed

lemma first_frame_safe:
  "\<exists>r. first_frame b es = Some r \<and> (\<forall>icon. r = Some icon \<longrightarrow> icon_from b icon)"
proof (induction es)
  case (Cons e es)
  obtain p where p: "is_png b (unat (de_image_offset e)) = Some p" using png_safe by blast
  obtain r where r: "decode_bmp_frame b e = Some r" "\<forall>icon. r = Some icon \<longrightarrow> icon_from b icon" using decode_safe by blast
  show ?case using Cons p r by (cases r) auto
qed simp

lemma entry_safe:
  assumes "6 + n * 16 \<le> length b" "i < n"
  shows "\<exists>e. read_entry b i = Some e"
proof -
  have "6 + i * 16 + 16 \<le> length b" using assms by linarith
  then show ?thesis
    using read_some(1) [of "6 + i * 16 + 6" b] read_some(2) [of "6 + i * 16 + 8" b] read_some(2) [of "6 + i * 16 + 12" b]
    by (auto simp: read_entry_def Let_def)
qed

lemma load_safe:
  "\<exists>r. load_ico order contents = Some r \<and> (\<forall>icon. r = Some icon \<longrightarrow> (\<exists>b. contents = Some b \<and> icon_from b icon))"
proof (cases "\<exists>buf. contents = Some buf \<and> 6 \<le> length buf")
  case False
  then show ?thesis by (cases contents) (auto simp: load_ico_def)
next
  case True
  then obtain buf where buf: "contents = Some buf" "6 \<le> length buf" by blast
  obtain x y n where r: "read_u16le buf 0 = Some x" "read_u16le buf 2 = Some y" "read_u16le buf 4 = Some n"
    using read_some(1) [of 0 buf] read_some(1) [of 2 buf] read_some(1) [of 4 buf] buf(2) by auto
  show ?thesis
  proof (cases "6 + unat n * 16 \<le> length buf")
    case False
    then show ?thesis using buf r by (simp add: load_ico_def)
  next
    case True
    then have "sequence_options (map (read_entry buf) [0..<unat n]) = Some (map (\<lambda>i. the (read_entry buf i)) [0..<unat n])"
      by (intro sequence_options_total) (use entry_safe in force)
    with first_frame_safe [of buf] True buf r show ?thesis by (auto simp: load_ico_def)
  qed
qed

lemma argb_of_nth:
  assumes "y < height" "x < width" "k < 4"
  shows "argb_of b base width height ! ((y * width + x) * 4 + k) = b ! (base + ((height - 1 - y) * width + x) * 4 + (3 - k))"
proof -
  let ?px = "\<lambda>y x. let off = base + width * 4 * (height - 1 - y) + x * 4 in [b ! (off + 3), b ! (off + 2), b ! (off + 1), b ! off]"
  let ?row = "\<lambda>y. concat (map (?px y) [0..<width])"
  have "length (?row y) = width * 4" for y by (rule length_concat_rows) (simp add: Let_def)
  moreover have "x * 4 + k < width * 4" using assms by linarith
  ultimately have "concat (map ?row [0..<height]) ! (y * (width * 4) + (x * 4 + k)) = ?row y ! (x * 4 + k)"
    by (intro nth_concat_rows) (use assms in auto)
  also have "\<dots> = ?px y x ! k" by (rule nth_concat_rows) (use assms in \<open>auto simp: Let_def\<close>)
  also have "\<dots> = b ! (base + ((height - 1 - y) * width + x) * 4 + (3 - k))"
  proof -
    have "k = 0 \<or> k = 1 \<or> k = 2 \<or> k = 3" using assms(3) by linarith
    then show ?thesis by (elim disjE) (simp_all add: Let_def algebra_simps)
  qed
  finally show ?thesis by (simp add: argb_of_def algebra_simps)
qed

lemma length_argb_of: "length (argb_of b base width height) = width * height * 4"
proof -
  have "length (argb_of b base width height) = height * (width * 4)"
    unfolding argb_of_def by (intro length_concat_rows) (simp add: Let_def)
  then show ?thesis by simp
qed

text \<open>
  The sizes that the code computes before it knows whether they are in bounds never leave 64 bits, the
  header fields being arbitrary.
\<close>

lemma sizes_fit:
  fixes off hs :: u32 and w h2 :: int
  assumes "0 < w" "in_i32 w" "0 < h2" "in_i32 h2"
  shows "unat off + unat hs + nat w * 4 * nat (h2 div 2) < 2 ^ 64"
proof -
  have "nat w < 2 ^ 31" "nat (h2 div 2) < 2 ^ 30" using assms by (auto simp: in_i32_def nat_less_iff)
  then have "nat w * nat (h2 div 2) \<le> 2 ^ 31 * 2 ^ 30" by (intro mult_le_mono) simp_all
  moreover have "unat off < 2 ^ 32" "unat hs < 2 ^ 32" using unat_lt2p [of off] unat_lt2p [of hs] by simp_all
  ultimately show ?thesis by simp
qed

section \<open>Properties\<close>

text \<open>
  C33. Whatever bytes an icon file holds, and whatever order equally good entries come in, the reader
  ends without an access outside the buffer, and an icon it returns has as many bytes as its width and
  height say, at least one pixel in each direction.
\<close>

theorem ico_memory_safe:
  "case load_ico order contents of
     None \<Rightarrow> False
   | Some None \<Rightarrow> True
   | Some (Some icon) \<Rightarrow> 0 < ic_width icon \<and> 0 < ic_height icon \<and> length (ic_argb icon) = ic_width icon * ic_height icon * 4"
  using load_safe [of order contents] by (auto simp: icon_from_def length_argb_of split: option.splits)

text \<open>
  A returned icon shows the picture in the file: the bytes of each pixel are those of a block of the
  buffer, with the rows turned upside down and the four bytes of a pixel reversed, from blue, green, red,
  alpha to alpha, red, green, blue.
\<close>

theorem ico_pixels:
  assumes "load_ico order contents = Some (Some icon)"
  shows "\<exists>buf base. contents = Some buf \<and> base + ic_width icon * 4 * ic_height icon \<le> length buf \<and>
    (\<forall>y x k. y < ic_height icon \<and> x < ic_width icon \<and> k < 4 \<longrightarrow>
      ic_argb icon ! ((y * ic_width icon + x) * 4 + k) =
      buf ! (base + ((ic_height icon - 1 - y) * ic_width icon + x) * 4 + (3 - k)))"
proof -
  from load_safe [of order contents] assms obtain buf where buf: "contents = Some buf" "icon_from buf icon" by auto
  then obtain base where "base + ic_width icon * 4 * ic_height icon \<le> length buf"
    "ic_argb icon = argb_of buf base (ic_width icon) (ic_height icon)" by (auto simp: icon_from_def)
  with buf(1) argb_of_nth [of _ "ic_height icon" _ "ic_width icon" _ buf base] show ?thesis
    by (intro exI [of _ buf] exI [of _ base] conjI allI impI) simp_all
qed

section \<open>A concrete file\<close>

text \<open>Two entries: the one nearer to 32 pixels is a PNG and skipped, the other is one pixel wide and two high.\<close>

definition demo_ico :: bytes where
  "demo_ico =
     [0, 0, 1, 0, 2, 0,
      1, 2, 0, 0, 1, 0, 32, 0, 48, 0, 0, 0, 38, 0, 0, 0,
      32, 32, 0, 0, 1, 0, 32, 0, 8, 0, 0, 0, 86, 0, 0, 0,
      40, 0, 0, 0, 1, 0, 0, 0, 4, 0, 0, 0, 1, 0, 32, 0, 0, 0, 0, 0, 0, 0, 0, 0, 0, 0, 0, 0, 0, 0, 0, 0, 0, 0, 0, 0, 0, 0, 0, 0,
      1, 2, 3, 4, 5, 6, 7, 8,
      0x89, 0x50, 0x4E, 0x47, 0x0D, 0x0A, 0x1A, 0x0A]"

lemma demo_ico_loads:
  "load_ico by_size (Some demo_ico) = Some (Some \<lparr>ic_width = 1, ic_height = 2, ic_argb = [8, 7, 6, 5, 4, 3, 2, 1]\<rparr>)"
  by code_simp

theorem ico_pixels_witness:
  "\<exists>base. \<forall>y x k. y < 2 \<and> x < 1 \<and> k < 4 \<longrightarrow>
    [8, 7, 6, 5, 4, 3, 2, 1 :: byte] ! ((y * 1 + x) * 4 + k) = demo_ico ! (base + ((2 - 1 - y) * 1 + x) * 4 + (3 - k))"
  using ico_pixels [OF demo_ico_loads] by auto

end
