(* ===== verification/ConfigDir.thy ===== *)
theory ConfigDir
  imports Main
begin

text \<open>
  Where the program keeps its files: \<^verbatim>\<open>src/discovery/config_dir.h\<close> and its copy
  \<^verbatim>\<open>src/topology/config_dir.h\<close>. The environment is a map from names to values, a path is its text, and
  \<open>windows\<close> stands for \<^verbatim>\<open>_WIN32\<close>.
\<close>

text \<open>\<^verbatim>\<open>operator/\<close> of \<^verbatim>\<open>std::filesystem::path\<close> for a relative name on its right.\<close>

definition path_append :: "string \<Rightarrow> string \<Rightarrow> string" where
  "path_append p name = (if p = [] \<or> last p = CHR ''/'' then p @ name else p @ ''/'' @ name)"

definition discovery_config_dir :: "bool \<Rightarrow> (string \<Rightarrow> string option) \<Rightarrow> string" where
  "discovery_config_dir windows env =
     (case env ''NOCKVM_HOME'' of
        Some override_dir \<Rightarrow> override_dir
      | None \<Rightarrow>
          if windows
          then (case env ''APPDATA'' of
                  Some appdata \<Rightarrow> path_append appdata ''NoCapKVM''
                | None \<Rightarrow> path_append ''.'' ''NoCapKVM'')
          else (case env ''XDG_CONFIG_HOME'' of
                  Some xdg \<Rightarrow> path_append xdg ''nockvm''
                | None \<Rightarrow>
                    (case env ''HOME'' of
                       Some home \<Rightarrow> path_append (path_append home ''.config'') ''nockvm''
                     | None \<Rightarrow> path_append ''.'' ''.nockvm'')))"

definition topology_config_dir :: "bool \<Rightarrow> (string \<Rightarrow> string option) \<Rightarrow> string" where
  "topology_config_dir windows env =
     (case env ''NOCKVM_HOME'' of
        Some override_dir \<Rightarrow> override_dir
      | None \<Rightarrow>
          if windows
          then (case env ''APPDATA'' of
                  Some appdata \<Rightarrow> path_append appdata ''NoCapKVM''
                | None \<Rightarrow> path_append ''.'' ''NoCapKVM'')
          else (case env ''XDG_CONFIG_HOME'' of
                  Some xdg \<Rightarrow> path_append xdg ''nockvm''
                | None \<Rightarrow>
                    (case env ''HOME'' of
                       Some home \<Rightarrow> path_append (path_append home ''.config'') ''nockvm''
                     | None \<Rightarrow> path_append ''.'' ''.nockvm'')))"

text \<open>
  The two copies agree, so the arrangement lies beside the other files; the override wins over everything else,
  and an override that is set but empty is the working directory.
\<close>

theorem config_dirs_agree:
  "topology_config_dir windows env = discovery_config_dir windows env \<and>
   discovery_config_dir windows (env(''NOCKVM_HOME'' \<mapsto> d)) = d"
  by (simp add: topology_config_dir_def discovery_config_dir_def)

end
