(* ===== verification/AppIcon.thy ===== *)
theory AppIcon
  imports IcoDecode ConfigDir
begin

text \<open>
  The icon of the window and the tray on Linux: where its file is looked for, \<^verbatim>\<open>src/app/icon_path.cpp\<close>, and
  how \<open>set_window_icon\<close> of \<^verbatim>\<open>src/app/main.cpp\<close> turns the decoded icon into what GLFW takes. The files that
  exist are a map from paths to contents.
\<close>

section \<open>Looking for the file\<close>

definition kIconFileName :: string where "kIconFileName = ''NoCapKVM.ico''"
definition kInstalledIconPath :: string where "kInstalledIconPath = ''/usr/share/nockvm/NoCapKVM.ico''"

text \<open>\<^verbatim>\<open>parent_path\<close> of \<^verbatim>\<open>std::filesystem::path\<close> on the absolute paths the system gives.\<close>

definition parent_path :: "string \<Rightarrow> string" where
  "parent_path p =
     (let d = rev (dropWhile (\<lambda>c. c \<noteq> CHR ''/'') (rev p)) in
      if \<forall>c \<in> set d. c = CHR ''/'' then take 1 d else rev (dropWhile (\<lambda>c. c = CHR ''/'') (rev d)))"

text \<open>The link is cut at 4095 bytes, and the path ends at the first NUL.\<close>

definition executable_icon_path :: "string option \<Rightarrow> string" where
  "executable_icon_path link =
     (case link of
        None \<Rightarrow> []
      | Some target \<Rightarrow>
          if target = [] then []
          else path_append (parent_path (takeWhile (\<lambda>c. c \<noteq> CHR 0x00) (take 4095 target))) kIconFileName)"

fun first_file :: "(string \<Rightarrow> bytes option) \<Rightarrow> string list \<Rightarrow> string" where
  "first_file files [] = []"
| "first_file files (p # ps) = (if p \<noteq> [] \<and> files p \<noteq> None then p else first_file files ps)"

definition app_icon_path :: "(string \<Rightarrow> bytes option) \<Rightarrow> string option \<Rightarrow> string" where
  "app_icon_path files link =
     first_file files [executable_icon_path link, kInstalledIconPath, path_append ''res/icons'' kIconFileName]"

section \<open>The window's icon\<close>

text \<open>The loop goes over the bytes in steps of four; \<open>None\<close> is an access outside the vector.\<close>

fun rgba_of :: "bytes \<Rightarrow> bytes option" where
  "rgba_of [] = Some []"
| "rgba_of (a # r # g # b # rest) = map_option (\<lambda>px. r # g # b # a # px) (rgba_of rest)"
| "rgba_of _ = None"

definition set_window_icon ::
    "(dir_entry list \<Rightarrow> dir_entry list) \<Rightarrow> (string \<Rightarrow> bytes option) \<Rightarrow> string option \<Rightarrow> (nat \<times> nat \<times> bytes) option option" where
  "set_window_icon order files link =
     (let path = app_icon_path files link in do {
        icon \<leftarrow> load_ico order (if path = [] then None else files path);
        case icon of
          None \<Rightarrow> Some None
        | Some ic \<Rightarrow> map_option (\<lambda>rgba. Some (ic_width ic, ic_height ic, rgba)) (rgba_of (ic_argb ic)) })"

lemma first_file_found:
  "first_file files ps = (case filter (\<lambda>p. p \<noteq> [] \<and> files p \<noteq> None) ps of [] \<Rightarrow> [] | p # _ \<Rightarrow> p)"
  by (induction ps) auto

lemma rgba_of_whole:
  "length bs = 4 * n \<Longrightarrow> \<exists>px. rgba_of bs = Some px \<and> length px = 4 * n \<and>
    (\<forall>i < n. take 4 (drop (4 * i) px) = [bs ! (4 * i + 1), bs ! (4 * i + 2), bs ! (4 * i + 3), bs ! (4 * i)])"
proof (induction n arbitrary: bs)
  case (Suc n)
  obtain a r g b rest where bs: "bs = a # r # g # b # rest"
    using Suc.prems by (auto simp: length_Suc_conv eval_nat_numeral)
  with Suc.prems have "length rest = 4 * n" by simp
  from Suc.IH [OF this] obtain px where px: "rgba_of rest = Some px" "length px = 4 * n"
    "\<forall>i < n. take 4 (drop (4 * i) px) = [rest ! (4 * i + 1), rest ! (4 * i + 2), rest ! (4 * i + 3), rest ! (4 * i)]" by blast
  have "take 4 (drop (4 * i) (r # g # b # a # px)) = [bs ! (4 * i + 1), bs ! (4 * i + 2), bs ! (4 * i + 3), bs ! (4 * i)]"
    if "i < Suc n" for i
  proof (cases i)
    case 0
    then show ?thesis by (simp add: bs eval_nat_numeral)
  next
    case (Suc j)
    with px(3) that have "take 4 (drop (4 * j) px) = [rest ! (4 * j + 1), rest ! (4 * j + 2), rest ! (4 * j + 3), rest ! (4 * j)]" by simp
    then show ?thesis by (simp add: bs Suc eval_nat_numeral)
  qed
  with px show ?case by (simp add: bs)
qed simp

text \<open>
  The window shows the picture of the file, whatever files there are and whatever they hold: setting the
  icon never reads outside the decoded bytes; when an icon is set, its bytes are as many as its
  dimensions say and each pixel is the decoded one with alpha moved from the front to the end.
\<close>

theorem window_icon_safe:
  "case set_window_icon order files link of
     None \<Rightarrow> False
   | Some None \<Rightarrow> True
   | Some (Some (w, h, rgba)) \<Rightarrow> (\<exists>contents icon. load_ico order (Some contents) = Some (Some icon) \<and>
       files (app_icon_path files link) = Some contents \<and> w = ic_width icon \<and> h = ic_height icon \<and> length rgba = w * h * 4 \<and>
       (\<forall>i < w * h. take 4 (drop (4 * i) rgba) =
          [ic_argb icon ! (4 * i + 1), ic_argb icon ! (4 * i + 2), ic_argb icon ! (4 * i + 3), ic_argb icon ! (4 * i)]))"
proof -
  let ?path = "app_icon_path files link"
  let ?contents = "if ?path = [] then None else files ?path"
  obtain r where r: "load_ico order ?contents = Some r" "\<forall>icon. r = Some icon \<longrightarrow> (\<exists>b. ?contents = Some b \<and> icon_from b icon)"
    using load_safe by blast
  show ?thesis
  proof (cases r)
    case None
    with r(1) show ?thesis by (simp add: set_window_icon_def)
  next
    case (Some icon)
    with r(2) obtain b where b: "?contents = Some b" "icon_from b icon" by blast
    then have "length (ic_argb icon) = 4 * (ic_width icon * ic_height icon)"
      by (auto simp: icon_from_def length_argb_of)
    from rgba_of_whole [OF this] obtain px where px: "rgba_of (ic_argb icon) = Some px"
      "length px = 4 * (ic_width icon * ic_height icon)"
      "\<forall>i < ic_width icon * ic_height icon. take 4 (drop (4 * i) px) =
        [ic_argb icon ! (4 * i + 1), ic_argb icon ! (4 * i + 2), ic_argb icon ! (4 * i + 3), ic_argb icon ! (4 * i)]" by blast
    have "files ?path = Some b" using b(1) by (simp split: if_splits)
    moreover have "load_ico order (Some b) = Some (Some icon)" using r(1) b(1) Some by simp
    moreover have "set_window_icon order files link = Some (Some (ic_width icon, ic_height icon, px))"
      using r(1) Some px(1) by (simp add: set_window_icon_def Let_def)
    ultimately show ?thesis using px by auto
  qed
qed

text \<open>The copy beside the program is preferred to the installed one.\<close>

lemma icon_beside_program:
  "app_icon_path [''/opt/kvm/NoCapKVM.ico'' \<mapsto> [], kInstalledIconPath \<mapsto> []] (Some ''/opt/kvm/nockvm'') = ''/opt/kvm/NoCapKVM.ico''"
  "app_icon_path [kInstalledIconPath \<mapsto> []] (Some ''/opt/kvm/nockvm'') = kInstalledIconPath"
  "app_icon_path (\<lambda>_. None) (Some ''/opt/kvm/nockvm'') = []"
  by code_simp+

end
