(* ===== verification/FrameSource.thy ===== *)
theory FrameSource
  imports Prelude
begin

text \<open>
  The interface between the jitter buffer and the playback callback: \<open>pop\<close> hands out the next
  frame, \<^verbatim>\<open>nullopt\<close> for "nothing to play now", or \<open>None\<close> where the C++ would run into undefined
  behaviour. The laws are what the callback's loop relies on: an invariant kept by every call, no
  undefined behaviour under it, and a measure that every delivered frame decreases.
\<close>

locale frame_source =
  fixes pop :: "'b \<Rightarrow> (bytes option \<times> 'b) option"
    and pending :: "'b \<Rightarrow> nat"
    and ok :: "'b \<Rightarrow> bool"
  assumes pop_defined: "ok b \<Longrightarrow> pop b \<noteq> None"
    and pop_ok: "ok b \<Longrightarrow> pop b = Some (r, b') \<Longrightarrow> ok b'"
    and pop_frame: "ok b \<Longrightarrow> pop b = Some (Some f, b') \<Longrightarrow> pending b' < pending b"
begin

lemma pop_cases:
  assumes "ok b"
  obtains (silence) b' where "pop b = Some (None, b')" "ok b'"
    | (frame) f b' where "pop b = Some (Some f, b')" "ok b'" "pending b' < pending b"
proof -
  obtain r b' where p: "pop b = Some (r, b')" using pop_defined [OF assms] by auto
  show thesis
  proof (cases r)
    case None
    with p show thesis using silence pop_ok [OF assms p] by simp
  next
    case (Some f)
    with p show thesis
      using frame [of f b'] pop_ok [OF assms p] pop_frame [OF assms, of f b'] by simp
  qed
qed

end

end
