(* ===== verification/JitterBuffer.thy ===== *)
theory JitterBuffer
  imports FrameSource
begin

text \<open>
  \<^verbatim>\<open>nockvm::audio::JitterBuffer\<close> (\<^verbatim>\<open>include/nockvm/audio/jitter_buffer.h\<close>,
  \<^verbatim>\<open>src/audio/jitter_buffer.cpp\<close>): the state of the class as a record, its operations as functions
  on it, and what they keep true. \<^verbatim>\<open>buffer_\<close> is a \<^verbatim>\<open>std::map\<close>, here an association list sorted by
  sequence number. \<^verbatim>\<open>push\<close> also returns the number it adds to the process-wide counter
  \<^verbatim>\<open>audio_packets_dropped_cap\<close>. The lock makes each operation atomic, so a run is a sequence of
  operations.
\<close>

section \<open>State and operations\<close>

record jitter =
  jb_buffer :: "(u32 \<times> bytes) list"
  jb_target :: nat
  jb_max :: nat
  jb_recovery :: nat
  jb_started :: bool
  jb_next :: u32
  jb_at_cap :: bool
  jb_cap_episodes :: u64
  jb_playout_misses :: u64
  jb_frames_played :: u64
  jb_streak :: nat

definition kMaxConsecutiveMisses :: nat where
  "kMaxConsecutiveMisses = 40"

definition compute_recovery_threshold :: "nat \<Rightarrow> nat" where
  "compute_recovery_threshold max_depth =
     (let margin = max 1 (max_depth div 10) in if margin < max_depth then max_depth - margin else 0)"

definition jb_new :: "nat \<Rightarrow> nat \<Rightarrow> jitter" where
  "jb_new target max_depth =
     (let m = (if max_depth < target then target else max_depth) in
      \<lparr>jb_buffer = [], jb_target = target, jb_max = m, jb_recovery = compute_recovery_threshold m,
       jb_started = False, jb_next = 0, jb_at_cap = False, jb_cap_episodes = 0,
       jb_playout_misses = 0, jb_frames_played = 0, jb_streak = 0\<rparr>)"

definition jb_depth :: "jitter \<Rightarrow> nat" where
  "jb_depth b = length (jb_buffer b)"

definition clear_at_cap_if_recovered :: "jitter \<Rightarrow> jitter" where
  "clear_at_cap_if_recovered b =
     (if jb_at_cap b \<and> length (jb_buffer b) \<le> jb_recovery b then b\<lparr>jb_at_cap := False\<rparr> else b)"

text \<open>
  The eviction loop of \<open>push\<close>: while the map is over \<open>m\<close>, erase its first entry and move
  \<open>next_seq_\<close> past it. The result is the map, \<open>next_seq_\<close> and \<open>dropped_count\<close>.
\<close>

fun evict :: "nat \<Rightarrow> bool \<Rightarrow> u32 \<Rightarrow> (u32 \<times> bytes) list \<Rightarrow> (u32 \<times> bytes) list \<times> u32 \<times> nat" where
  "evict m started nx [] = ([], nx, 0)"
| "evict m started nx (oldest # rest) =
     (if length (oldest # rest) > m
      then let nx' = (if started \<and> fst oldest \<ge> nx then fst oldest + 1 else nx);
               (buf, nx'', dropped) = evict m started nx' rest
           in (buf, nx'', Suc dropped)
      else (oldest # rest, nx, 0))"

definition jb_push :: "u32 \<Rightarrow> bytes \<Rightarrow> jitter \<Rightarrow> jitter \<times> nat" where
  "jb_push seq frame b =
     (if jb_started b \<and> seq < jb_next b then (b, 0)
      else
        let (buf, nx, dropped) =
              evict (jb_max b) (jb_started b) (jb_next b) (omap_put seq frame (jb_buffer b));
            b1 = b\<lparr>jb_buffer := buf, jb_next := nx\<rparr>;
            b2 = (if dropped > 0
                  then (if \<not> jb_at_cap b1
                        then b1\<lparr>jb_at_cap := True, jb_cap_episodes := jb_cap_episodes b1 + 1\<rparr>
                        else b1)
                  else clear_at_cap_if_recovered b1)
        in (b2, dropped))"

text \<open>
  The first lines of \<open>pop\<close>, once \<open>target_depth_\<close> frames wait: playback starts at the smallest
  sequence number. \<^verbatim>\<open>buffer_.begin()->first\<close> on an empty map is undefined behaviour, \<open>None\<close>.
\<close>

definition jb_begin_playback :: "jitter \<Rightarrow> jitter option" where
  "jb_begin_playback b =
     (case jb_buffer b of
        [] \<Rightarrow> None
      | e # _ \<Rightarrow> Some (b\<lparr>jb_started := True, jb_next := fst e, jb_streak := 0\<rparr>))"

definition jb_miss :: "jitter \<Rightarrow> jitter" where
  "jb_miss b =
     (let b1 = b\<lparr>jb_streak := Suc (jb_streak b)\<rparr>;
          b2 = (if jb_streak b1 \<ge> kMaxConsecutiveMisses
                then clear_at_cap_if_recovered (b1\<lparr>jb_started := False, jb_streak := 0, jb_buffer := []\<rparr>)
                else b1)
      in b2\<lparr>jb_playout_misses := jb_playout_misses b2 + 1\<rparr>)"

definition jb_take :: "jitter \<Rightarrow> bytes option \<times> jitter" where
  "jb_take b =
     (let seq = jb_next b; b1 = b\<lparr>jb_next := seq + 1\<rparr> in
      case map_of (jb_buffer b) seq of
        None \<Rightarrow> (None, jb_miss b1)
      | Some frame \<Rightarrow>
          (Some frame,
           clear_at_cap_if_recovered
             (b1\<lparr>jb_streak := 0, jb_frames_played := jb_frames_played b1 + 1,
                 jb_buffer := omap_del seq (jb_buffer b1)\<rparr>)))"

definition jb_pop :: "jitter \<Rightarrow> (bytes option \<times> jitter) option" where
  "jb_pop b =
     (if \<not> jb_started b
      then (if length (jb_buffer b) < jb_target b then Some (None, b)
            else map_option jb_take (jb_begin_playback b))
      else Some (jb_take b))"

lemmas jb_defs = jb_push_def jb_pop_def jb_take_def jb_miss_def jb_begin_playback_def
  clear_at_cap_if_recovered_def

section \<open>The invariant\<close>

definition jb_core :: "jitter \<Rightarrow> bool" where
  "jb_core b \<longleftrightarrow>
     omap_ok (jb_buffer b) \<and> length (jb_buffer b) \<le> jb_max b \<and>
     0 < jb_target b \<and> jb_target b \<le> jb_max b \<and>
     jb_recovery b = compute_recovery_threshold (jb_max b) \<and>
     jb_streak b < kMaxConsecutiveMisses \<and>
     (jb_started b \<longrightarrow> keys_ge (jb_next b) (jb_buffer b))"

text \<open>\<open>at_cap_\<close> is raised only while the map is above the recovery threshold.\<close>

definition jb_inv :: "jitter \<Rightarrow> bool" where
  "jb_inv b \<longleftrightarrow> jb_core b \<and> (jb_at_cap b \<longrightarrow> jb_recovery b < length (jb_buffer b))"

lemma jb_inv_core [dest]: "jb_inv b \<Longrightarrow> jb_core b"
  by (simp add: jb_inv_def)

lemma jb_core_clear [intro]: "jb_core b \<Longrightarrow> jb_inv (clear_at_cap_if_recovered b)"
  by (auto simp: jb_inv_def jb_core_def clear_at_cap_if_recovered_def)

lemma clear_at_cap_frame [simp]:
  "jb_buffer (clear_at_cap_if_recovered b) = jb_buffer b"
  "jb_started (clear_at_cap_if_recovered b) = jb_started b"
  "jb_next (clear_at_cap_if_recovered b) = jb_next b"
  "jb_streak (clear_at_cap_if_recovered b) = jb_streak b"
  "jb_target (clear_at_cap_if_recovered b) = jb_target b"
  "jb_max (clear_at_cap_if_recovered b) = jb_max b"
  by (simp_all add: clear_at_cap_if_recovered_def)

lemma recovery_below_max: "0 < m \<Longrightarrow> compute_recovery_threshold m < m"
  by (auto simp: compute_recovery_threshold_def Let_def)

lemma jb_new_inv [intro]: "0 < target \<Longrightarrow> jb_inv (jb_new target m)"
  by (auto simp: jb_inv_def jb_core_def jb_new_def Let_def kMaxConsecutiveMisses_def)

lemma jb_inv_omap_ok [dest]: "jb_inv b \<Longrightarrow> omap_ok (jb_buffer b)"
  by (simp add: jb_inv_def jb_core_def)

text \<open>The eviction loop drops exactly the excess, oldest entries first.\<close>

lemma evict_drop:
  "evict m st nx buf = (buf', nx', d) \<Longrightarrow> buf' = drop d buf \<and> d = length buf - m"
proof (induction buf arbitrary: nx buf' nx' d)
  case (Cons e buf)
  show ?case
  proof (cases "length (e # buf) > m")
    case False
    with Cons.prems show ?thesis by auto
  next
    case True
    then obtain d0 where d0: "evict m st (if st \<and> fst e \<ge> nx then fst e + 1 else nx) buf = (buf', nx', d0)"
      "d = Suc d0"
      using Cons.prems by (auto simp: Let_def split: prod.splits)
    from Cons.IH [OF d0(1)] True d0(2) show ?thesis by auto
  qed
qed simp

lemma evict_next:
  assumes "evict m True nx buf = (buf', nx', d)" "omap_ok buf" "keys_ge nx buf"
  shows "keys_ge nx' buf'"
  using assms
proof (induction buf arbitrary: nx buf' nx' d)
  case (Cons e buf)
  show ?case
  proof (cases "length (e # buf) > m")
    case False
    with Cons.prems show ?thesis by auto
  next
    case True
    with Cons.prems obtain d0 where d0: "evict m True (fst e + 1) buf = (buf', nx', d0)"
      by (auto simp: Let_def split: prod.splits)
    with Cons.IH [OF d0] keys_ge_tail [OF Cons.prems(2)] Cons.prems(2) show ?thesis by simp
  qed
qed simp

lemma jb_push_inv:
  assumes inv: "jb_inv b" and push: "jb_push seq frame b = (b', d)"
  shows "jb_inv b'"
proof (cases "jb_started b \<and> seq < jb_next b")
  case True
  with assms show ?thesis by (auto simp: jb_push_def)
next
  case late: False
  let ?buf = "omap_put seq frame (jb_buffer b)"
  obtain buf nx d' where ev: "evict (jb_max b) (jb_started b) (jb_next b) ?buf = (buf, nx, d')"
    by (cases "evict (jb_max b) (jb_started b) (jb_next b) ?buf") auto
  let ?b1 = "b\<lparr>jb_buffer := buf, jb_next := nx\<rparr>"
  have ok: "omap_ok ?buf" using inv by (auto simp: jb_inv_def jb_core_def)
  from evict_drop [OF ev] have buf: "buf = drop d' ?buf" and d': "d' = length ?buf - jb_max b" by auto
  have nxt: "jb_started b \<Longrightarrow> keys_ge nx buf"
    using evict_next [of "jb_max b" "jb_next b" ?buf buf nx d'] ev ok inv late
    by (auto simp: jb_inv_def jb_core_def not_less)
  have core: "jb_core ?b1"
    using inv nxt ok buf d' by (auto simp: jb_core_def jb_inv_def)
  show ?thesis
  proof (cases "d' > 0")
    case False
    with push late ev core show ?thesis by (auto simp: jb_push_def Let_def)
  next
    case True
    with buf d' have "length buf = jb_max b" by simp
    moreover have "jb_recovery b < jb_max b"
      using core recovery_below_max [of "jb_max b"] by (auto simp: jb_core_def)
    ultimately have "jb_inv (?b1\<lparr>jb_at_cap := a, jb_cap_episodes := n\<rparr>)" for a n
      using core by (simp add: jb_inv_def jb_core_def)
    from this [where a = "jb_at_cap b" and n = "jb_cap_episodes b"]
      this [where a = True and n = "jb_cap_episodes b + 1"]
    show ?thesis using push late ev True by (auto simp: jb_push_def Let_def)
  qed
qed

lemma jb_miss_inv:
  assumes "jb_core b" "jb_at_cap b \<longrightarrow> jb_recovery b < length (jb_buffer b)"
  shows "jb_inv (jb_miss b)"
proof (cases "Suc (jb_streak b) \<ge> kMaxConsecutiveMisses")
  case True
  let ?b = "b\<lparr>jb_started := False, jb_streak := 0, jb_buffer := []\<rparr>"
  have "jb_core ?b" using assms by (auto simp: jb_core_def kMaxConsecutiveMisses_def)
  then have "jb_inv (clear_at_cap_if_recovered ?b)" by auto
  then show ?thesis using True
    by (simp add: jb_miss_def Let_def jb_inv_def jb_core_def)
next
  case False
  with assms show ?thesis by (auto simp: jb_miss_def Let_def jb_inv_def jb_core_def)
qed

lemma jb_take_inv:
  assumes "jb_inv b" "jb_started b"
  shows "jb_inv (snd (jb_take b))"
proof (cases "map_of (jb_buffer b) (jb_next b)")
  case None
  have "keys_ge (jb_next b + 1) (jb_buffer b)"
    using assms None by (intro keys_ge_succ) (auto simp: jb_inv_def jb_core_def map_of_eq_None_iff)
  then have "jb_core (b\<lparr>jb_next := jb_next b + 1\<rparr>)"
    using assms by (auto simp: jb_inv_def jb_core_def)
  then show ?thesis using None assms(1) by (auto simp: jb_take_def Let_def jb_inv_def [of b] intro!: jb_miss_inv)
next
  case (Some f)
  have "keys_ge (jb_next b + 1) (omap_del (jb_next b) (jb_buffer b))"
    using assms by (intro keys_ge_del) (simp add: jb_inv_def jb_core_def)
  moreover have "length (omap_del (jb_next b) (jb_buffer b)) \<le> length (jb_buffer b)"
    by (rule length_omap_del_le)
  ultimately have "jb_core (b\<lparr>jb_next := jb_next b + 1, jb_streak := 0, jb_frames_played := n,
      jb_buffer := omap_del (jb_next b) (jb_buffer b)\<rparr>)" for n
    using assms by (auto simp: jb_inv_def jb_core_def kMaxConsecutiveMisses_def)
  then show ?thesis using Some by (auto simp: jb_take_def Let_def)
qed

lemma jb_begin_inv:
  assumes "jb_inv b" "jb_target b \<le> length (jb_buffer b)"
  obtains b1 where "jb_begin_playback b = Some b1" "jb_inv b1" "jb_started b1"
    "jb_buffer b1 = jb_buffer b" "jb_next b1 = fst (hd (jb_buffer b))"
proof -
  from assms obtain e rest where buf: "jb_buffer b = e # rest"
    by (cases "jb_buffer b") (auto simp: jb_inv_def jb_core_def)
  let ?b1 = "b\<lparr>jb_started := True, jb_next := fst e, jb_streak := 0\<rparr>"
  have "omap_ok (e # rest)" using jb_inv_omap_ok [OF assms(1)] by (simp only: buf)
  then have "keys_ge (fst e) (e # rest)" using omap_ok_keys_ge [of e rest] by simp
  then have "jb_inv ?b1" using assms buf by (auto simp: jb_inv_def jb_core_def kMaxConsecutiveMisses_def)
  then show thesis using that [of ?b1] buf by (simp add: jb_begin_playback_def)
qed

lemma jb_pop_cases:
  assumes "jb_inv b"
  obtains (filling) "\<not> jb_started b" "length (jb_buffer b) < jb_target b" "jb_pop b = Some (None, b)"
    | (playing) b1 where "jb_pop b = Some (jb_take b1)" "jb_inv b1" "jb_started b1"
        "jb_buffer b1 = jb_buffer b" "jb_started b \<Longrightarrow> b1 = b"
        "\<not> jb_started b \<Longrightarrow> jb_next b1 = fst (hd (jb_buffer b)) \<and> jb_target b \<le> length (jb_buffer b)"
proof (cases "jb_started b")
  case True
  then show thesis using playing [of b] assms by (simp add: jb_pop_def)
next
  case False
  show thesis
  proof (cases "length (jb_buffer b) < jb_target b")
    case True
    with False show thesis using filling by (simp add: jb_pop_def)
  next
    case len: False
    then have "jb_target b \<le> length (jb_buffer b)" by simp
    then obtain b1 where "jb_begin_playback b = Some b1" "jb_inv b1" "jb_started b1"
      "jb_buffer b1 = jb_buffer b" "jb_next b1 = fst (hd (jb_buffer b))"
      by (rule jb_begin_inv [OF assms])
    with False len show thesis by (intro playing [of b1]) (simp_all add: jb_pop_def)
  qed
qed

lemma jb_pop_inv:
  assumes "jb_inv b" "jb_pop b = Some (r, b')"
  shows "jb_inv b'"
  using assms(1)
proof (cases rule: jb_pop_cases)
  case filling
  with assms show ?thesis by simp
next
  case (playing b1)
  with assms jb_take_inv [of b1] show ?thesis by (simp add: prod_eq_iff)
qed

text \<open>The jitter buffer is a frame source: the playback callback may rely on the interface.\<close>

lemma jb_take_frame_shrinks:
  assumes "jb_inv b" "jb_take b = (Some f, b')"
  shows "length (jb_buffer b') < length (jb_buffer b)"
proof -
  from assms(2) have k: "jb_next b \<in> fst ` set (jb_buffer b)"
    by (auto simp: jb_take_def Let_def map_of_eq_None_iff split: option.splits)
      (metis map_of_eq_None_iff option.distinct(1))
  then have "length (omap_del (jb_next b) (jb_buffer b)) = length (jb_buffer b) - 1"
    using assms(1) by (intro length_omap_del) auto
  moreover have "jb_buffer b \<noteq> []" using k by auto
  ultimately show ?thesis using assms(2)
    by (auto simp: jb_take_def Let_def split: option.splits)
qed

interpretation jbq: frame_source jb_pop jb_depth jb_inv
proof
  fix b r b'
  assume inv: "jb_inv b"
  show "jb_pop b \<noteq> None" using inv by (cases rule: jb_pop_cases) auto
  show "jb_pop b = Some (r, b') \<Longrightarrow> jb_inv b'" using inv by (rule jb_pop_inv)
next
  fix b f b'
  assume inv: "jb_inv b" and pop: "jb_pop b = Some (Some f, b')"
  from inv show "jb_depth b' < jb_depth b"
  proof (cases rule: jb_pop_cases)
    case (playing b1)
    with pop jb_take_frame_shrinks [of b1 f b'] show ?thesis by (simp add: jb_depth_def)
  qed (use pop in simp)
qed

section \<open>Runs of operations\<close>

datatype jb_op = JPush u32 bytes | JPop

fun jb_run :: "jitter \<Rightarrow> jb_op list \<Rightarrow> jitter option" where
  "jb_run b [] = Some b"
| "jb_run b (JPush seq frame # ops) = jb_run (fst (jb_push seq frame b)) ops"
| "jb_run b (JPop # ops) = (case jb_pop b of None \<Rightarrow> None | Some (r, b') \<Rightarrow> jb_run b' ops)"

lemma evict_frame_fields [simp]:
  "jb_max (fst (jb_push seq frame b)) = jb_max b"
  "jb_target (fst (jb_push seq frame b)) = jb_target b"
  by (auto simp: jb_push_def Let_def clear_at_cap_if_recovered_def split: prod.splits)

lemma jb_take_fields [simp]:
  "jb_max (snd (jb_take b)) = jb_max b" "jb_target (snd (jb_take b)) = jb_target b"
  by (auto simp: jb_take_def jb_miss_def Let_def clear_at_cap_if_recovered_def split: option.splits)

lemma jb_pop_fields:
  "jb_pop b = Some (r, b') \<Longrightarrow> jb_max b' = jb_max b \<and> jb_target b' = jb_target b"
  using jb_take_fields
  by (auto simp: jb_pop_def jb_begin_playback_def prod_eq_iff split: if_splits list.splits option.splits)

lemma jb_run_inv:
  "jb_inv b \<Longrightarrow> \<exists>b'. jb_run b ops = Some b' \<and> jb_inv b' \<and> jb_max b' = jb_max b"
proof (induction ops arbitrary: b)
  case (Cons x ops)
  show ?case
  proof (cases x)
    case (JPush seq frame)
    have "jb_inv (fst (jb_push seq frame b))"
      using Cons.prems jb_push_inv by (metis prod.collapse)
    from Cons.IH [OF this] show ?thesis using JPush by simp
  next
    case JPop
    from jbq.pop_defined [OF Cons.prems] obtain r b1 where pop: "jb_pop b = Some (r, b1)" by auto
    with Cons.prems have "jb_inv b1" "jb_max b1 = jb_max b" using jb_pop_inv jb_pop_fields by blast+
    with Cons.IH [of b1] show ?thesis using JPop pop by simp
  qed
qed simp

section \<open>Overflow episodes\<close>

lemma jb_push_episode:
  assumes inv: "jb_inv b" and push: "jb_push seq frame b = (b', d)"
  shows "(jb_at_cap b \<longrightarrow> jb_at_cap b' \<and> jb_cap_episodes b' = jb_cap_episodes b) \<and>
    (\<not> jb_at_cap b \<longrightarrow> jb_cap_episodes b' = jb_cap_episodes b + (if jb_at_cap b' then 1 else 0))"
proof (cases "jb_started b \<and> seq < jb_next b")
  case True
  with push show ?thesis by (auto simp: jb_push_def)
next
  case late: False
  let ?buf = "omap_put seq frame (jb_buffer b)"
  obtain buf nx d' where ev: "evict (jb_max b) (jb_started b) (jb_next b) ?buf = (buf, nx, d')"
    by (cases "evict (jb_max b) (jb_started b) (jb_next b) ?buf") auto
  from evict_drop [OF ev] have "length buf = min (jb_max b) (length ?buf)" by auto
  moreover have "length (jb_buffer b) \<le> length ?buf"
    using inv by (auto simp: length_omap_put dest!: jb_inv_omap_ok)
  moreover have "length (jb_buffer b) \<le> jb_max b" using inv by (auto simp: jb_inv_def jb_core_def)
  ultimately have "length (jb_buffer b) \<le> length buf" by simp
  then have "jb_at_cap b \<Longrightarrow> jb_recovery b < length buf" using inv by (auto simp: jb_inv_def)
  with push late ev show ?thesis
    by (auto simp: jb_push_def Let_def clear_at_cap_if_recovered_def split: if_splits)
qed

fun jb_push_all :: "jitter \<Rightarrow> (u32 \<times> bytes) list \<Rightarrow> jitter" where
  "jb_push_all b [] = b"
| "jb_push_all b (p # ps) = jb_push_all (fst (jb_push (fst p) (snd p) b)) ps"

lemma jb_push_all_at_cap:
  "jb_inv b \<Longrightarrow> jb_at_cap b \<Longrightarrow> jb_cap_episodes (jb_push_all b ps) = jb_cap_episodes b"
proof (induction ps arbitrary: b)
  case (Cons p ps)
  obtain b1 d where p: "jb_push (fst p) (snd p) b = (b1, d)" by fastforce
  with Cons.prems jb_push_inv jb_push_episode have "jb_inv b1" "jb_at_cap b1"
    "jb_cap_episodes b1 = jb_cap_episodes b" by blast+
  with Cons.IH [of b1] p show ?case by simp
qed simp

text \<open>
  A burst of pushes with no playback in between is at most one "at cap" episode, however many
  packets of it are discarded: \<^verbatim>\<open>cap_episodes()\<close> counts episodes and not dropped packets.
\<close>

theorem jb_one_episode_per_burst:
  assumes "jb_inv b"
  shows "jb_cap_episodes (jb_push_all b ps) \<in> {jb_cap_episodes b, jb_cap_episodes b + 1}"
  using assms
proof (induction ps arbitrary: b)
  case (Cons p ps)
  obtain b1 d where p: "jb_push (fst p) (snd p) b = (b1, d)" by fastforce
  from Cons.prems p have inv: "jb_inv b1" by (rule jb_push_inv)
  have ep: "jb_cap_episodes b1 = jb_cap_episodes b + (if \<not> jb_at_cap b \<and> jb_at_cap b1 then 1 else 0)"
    using jb_push_episode [OF Cons.prems p] by auto
  show ?case
  proof (cases "jb_at_cap b1")
    case True
    with jb_push_all_at_cap [OF inv, of ps] ep p show ?thesis by simp
  next
    case False
    with Cons.IH [OF inv] ep p show ?thesis by simp
  qed
qed simp

theorem jb_one_episode_per_burst_witness:
  "jb_cap_episodes (jb_push_all (jb_new 1 2) [(1, [10]), (2, [20]), (3, [30]), (4, [40])]) \<in> {0, 1} \<and>
   jb_at_cap (jb_push_all (jb_new 1 2) [(1, [10]), (2, [20]), (3, [30]), (4, [40])])"
proof -
  have "jb_inv (jb_new 1 2)" by auto
  from jb_one_episode_per_burst [OF this, of "[(1, [10]), (2, [20]), (3, [30]), (4, [40])]"]
  have "jb_cap_episodes (jb_push_all (jb_new 1 2) [(1, [10]), (2, [20]), (3, [30]), (4, [40])])
      \<in> {jb_cap_episodes (jb_new 1 2), jb_cap_episodes (jb_new 1 2) + 1}" .
  then show ?thesis
    by (simp add: jb_new_def jb_push_def compute_recovery_threshold_def clear_at_cap_if_recovered_def)
qed

section \<open>Safety, drain rate and recovery\<close>

text \<open>
  C20. Any interleaving of \<^verbatim>\<open>push\<close> and \<^verbatim>\<open>pop\<close> on a buffer with a positive target depth runs without
  undefined behaviour, never holds more than \<^verbatim>\<open>max_depth\<close> frames and keeps the class invariant
  (ordered keys, none behind the playback position once playback started).
\<close>

theorem jb_always_bounded:
  assumes "0 < target"
  shows "\<exists>b. jb_run (jb_new target max_depth) ops = Some b \<and> jb_inv b \<and>
             jb_depth b \<le> max target max_depth"
proof -
  from jb_run_inv [OF jb_new_inv [OF assms], of max_depth ops] obtain b
    where b: "jb_run (jb_new target max_depth) ops = Some b" "jb_inv b"
      "jb_max b = jb_max (jb_new target max_depth)" by blast
  then have "jb_depth b \<le> max target max_depth"
    by (auto simp: jb_inv_def jb_core_def jb_depth_def jb_new_def Let_def split: if_splits)
  with b show ?thesis by blast
qed

theorem jb_always_bounded_witness:
  "\<exists>b. jb_run (jb_new 8 200) [JPush 3 [1], JPop, JPush 4 [2]] = Some b \<and> jb_inv b \<and> jb_depth b \<le> max 8 200"
  using jb_always_bounded [of 8 200 "[JPush 3 [1], JPop, JPush 4 [2]]"] by simp

text \<open>
  One \<^verbatim>\<open>pop\<close> removes at most one frame, however far the depth is above the target, unless it is
  the miss that resets the buffer: there is no fast-forward past a backlog.
\<close>

theorem jb_pop_drains_at_most_one:
  assumes "jb_inv b" "jb_pop b = Some (r, b')"
  shows "jb_depth b' = (if r \<noteq> None then jb_depth b - 1
                        else if jb_started b \<and> \<not> jb_started b' then 0 else jb_depth b)"
  using assms(1)
proof (cases rule: jb_pop_cases)
  case filling
  with assms show ?thesis by simp
next
  case (playing b1)
  with assms(2) have take: "jb_take b1 = (r, b')" by simp
  show ?thesis
  proof (cases "map_of (jb_buffer b1) (jb_next b1)")
    case (Some f)
    then have "jb_next b1 \<in> fst ` set (jb_buffer b1)" by (metis map_of_eq_None_iff option.distinct(1))
    then have "length (omap_del (jb_next b1) (jb_buffer b1)) = length (jb_buffer b1) - 1"
      using playing(2) by (intro length_omap_del) auto
    with Some take playing show ?thesis by (auto simp: jb_take_def Let_def jb_depth_def)
  next
    case None
    have "jb_started b"
    proof (rule ccontr)
      assume "\<not> jb_started b"
      then have "jb_next b1 = fst (hd (jb_buffer b))" "jb_target b \<le> length (jb_buffer b)"
        using playing(6) by blast+
      moreover have "0 < jb_target b" using assms(1) by (simp add: jb_inv_def jb_core_def)
      ultimately have "jb_next b1 = fst (hd (jb_buffer b1))" "jb_buffer b1 \<noteq> []"
        using playing(4) by auto
      with None show False by (cases "jb_buffer b1") auto
    qed
    with playing None take show ?thesis
      by (auto simp: jb_take_def jb_miss_def Let_def jb_depth_def split: if_splits)
  qed
qed

theorem jb_pop_drains_at_most_one_witness:
  "jb_depth (snd (the (jb_pop ((jb_new 1 9)\<lparr>jb_buffer := [(1, [1]), (2, [2]), (3, [3]), (4, [4])]\<rparr>)))) = 3"
proof -
  let ?b = "(jb_new 1 9)\<lparr>jb_buffer := [(1, [1]), (2, [2]), (3, [3]), (4, [4])]\<rparr>"
  have inv: "jb_inv ?b"
    by (simp add: jb_inv_def jb_core_def jb_new_def compute_recovery_threshold_def kMaxConsecutiveMisses_def)
  have pop: "jb_pop ?b = Some (jb_take (?b\<lparr>jb_started := True, jb_next := 1, jb_streak := 0\<rparr>))"
    by (simp add: jb_pop_def jb_begin_playback_def jb_new_def)
  have some: "fst (jb_take (?b\<lparr>jb_started := True, jb_next := 1, jb_streak := 0\<rparr>)) = Some [1]"
    by (simp add: jb_take_def jb_new_def)
  have "jb_pop ?b = Some (fst (the (jb_pop ?b)), snd (the (jb_pop ?b)))" unfolding pop by simp
  from jb_pop_drains_at_most_one [OF inv this] some pop
  show ?thesis by (simp add: jb_depth_def)
qed

fun jb_pop_n :: "nat \<Rightarrow> jitter \<Rightarrow> (bytes option list \<times> jitter) option" where
  "jb_pop_n 0 b = Some ([], b)"
| "jb_pop_n (Suc n) b =
     (case jb_pop b of
        None \<Rightarrow> None
      | Some (r, b1) \<Rightarrow> map_option (\<lambda>(rs, b2). (r # rs, b2)) (jb_pop_n n b1))"

lemma jb_pop_miss:
  assumes "jb_started b" "jb_next b \<notin> fst ` set (jb_buffer b)"
  shows "jb_pop b = Some (None, jb_miss (b\<lparr>jb_next := jb_next b + 1\<rparr>))"
proof -
  have "map_of (jb_buffer b) (jb_next b) = None" using assms by (simp add: map_of_eq_None_iff)
  with assms show ?thesis by (simp add: jb_pop_def jb_take_def Let_def)
qed

lemma jb_stall_reset:
  assumes "jb_started b" "jb_streak b + Suc n = kMaxConsecutiveMisses"
    and "\<forall>i \<le> n. jb_next b + of_nat i \<notin> fst ` set (jb_buffer b)"
  shows "\<exists>b'. jb_pop_n (Suc n) b = Some (replicate (Suc n) None, b') \<and>
              \<not> jb_started b' \<and> jb_buffer b' = [] \<and> jb_max b' = jb_max b"
  using assms
proof (induction n arbitrary: b)
  case 0
  from "0.prems"(3) have "jb_next b + of_nat 0 \<notin> fst ` set (jb_buffer b)" by blast
  then have "jb_next b \<notin> fst ` set (jb_buffer b)" by simp
  from jb_pop_miss [OF "0.prems"(1) this] "0.prems"(1,2) show ?case
    by (simp add: jb_miss_def Let_def clear_at_cap_if_recovered_def)
next
  case (Suc n)
  let ?b1 = "jb_miss (b\<lparr>jb_next := jb_next b + 1\<rparr>)"
  from Suc.prems(3) have "jb_next b + of_nat 0 \<notin> fst ` set (jb_buffer b)" by blast
  then have "jb_next b \<notin> fst ` set (jb_buffer b)" by simp
  with Suc.prems(1) have pop: "jb_pop b = Some (None, ?b1)" by (rule jb_pop_miss)
  have b1: "jb_started ?b1" "jb_streak ?b1 + Suc n = kMaxConsecutiveMisses"
    "jb_next ?b1 = jb_next b + 1" "jb_buffer ?b1 = jb_buffer b" "jb_max ?b1 = jb_max b"
    using Suc.prems by (auto simp: jb_miss_def Let_def)
  have "\<forall>i \<le> n. jb_next ?b1 + of_nat i \<notin> fst ` set (jb_buffer ?b1)"
  proof (intro allI impI)
    fix i assume "i \<le> n"
    with Suc.prems(3) have "jb_next b + of_nat (Suc i) \<notin> fst ` set (jb_buffer b)" by blast
    then show "jb_next ?b1 + of_nat i \<notin> fst ` set (jb_buffer ?b1)"
      unfolding b1(3,4) by (simp add: add.commute add.left_commute)
  qed
  with b1 have "\<exists>b'. jb_pop_n (Suc n) ?b1 = Some (replicate (Suc n) None, b') \<and>
      \<not> jb_started b' \<and> jb_buffer b' = [] \<and> jb_max b' = jb_max ?b1"
    by (intro Suc.IH)
  with pop b1(5) show ?case by (auto simp del: jb_pop_n.simps(2) simp add: jb_pop_n.simps(2) [of "Suc n" b])
qed

text \<open>
  A stall cannot silence playback for good: once 40 expected frames in a row are missing the
  buffer is back in its initial fill state, and whatever sequence number arrives next is accepted.
\<close>

theorem jb_stall_recovers:
  assumes "jb_inv b" "jb_started b" "n = kMaxConsecutiveMisses - jb_streak b"
    and "\<forall>i < n. jb_next b + of_nat i \<notin> fst ` set (jb_buffer b)"
  shows "\<exists>b'. jb_pop_n n b = Some (replicate n None, b') \<and> \<not> jb_started b' \<and> jb_buffer b' = [] \<and>
              (\<forall>seq f. jb_buffer (fst (jb_push seq f b')) = [(seq, f)])"
proof -
  have "jb_streak b < kMaxConsecutiveMisses" using assms(1) by (simp add: jb_inv_def jb_core_def)
  then have "0 < n" "jb_streak b + n = kMaxConsecutiveMisses" using assms(3) by simp_all
  then obtain m where m: "n = Suc m" "jb_streak b + Suc m = kMaxConsecutiveMisses"
    by (cases n) auto
  from assms(4) m(1) have "\<forall>i \<le> m. jb_next b + of_nat i \<notin> fst ` set (jb_buffer b)" by auto
  from jb_stall_reset [OF assms(2) m(2) this] obtain b' where
    b': "jb_pop_n n b = Some (replicate n None, b')" "\<not> jb_started b'" "jb_buffer b' = []"
    "jb_max b' = jb_max b" using m(1) by auto
  from assms(1) have "0 < jb_max b" by (auto simp: jb_inv_def jb_core_def)
  with b' show ?thesis by (auto simp: jb_push_def Let_def)
qed

theorem jb_stall_recovers_witness:
  "\<exists>b'. jb_pop_n 40 ((jb_new 1 9)\<lparr>jb_started := True, jb_next := 5\<rparr>) = Some (replicate 40 None, b') \<and>
        \<not> jb_started b' \<and> jb_buffer b' = [] \<and> (\<forall>seq f. jb_buffer (fst (jb_push seq f b')) = [(seq, f)])"
proof (rule jb_stall_recovers)
  show "jb_inv ((jb_new 1 9)\<lparr>jb_started := True, jb_next := 5\<rparr>)"
    by (simp add: jb_inv_def jb_core_def jb_new_def kMaxConsecutiveMisses_def)
qed (simp_all add: jb_new_def kMaxConsecutiveMisses_def)

section \<open>Reordering\<close>

fun number_from :: "u32 \<Rightarrow> bytes list \<Rightarrow> (u32 \<times> bytes) list" where
  "number_from s [] = []"
| "number_from s (f # fs) = (s, f) # number_from (s + 1) fs"

lemma unat_Suc_no_wrap:
  fixes s :: u32
  shows "unat s + Suc n \<le> 2 ^ 32 \<Longrightarrow> 0 < n \<Longrightarrow> unat (s + 1) = unat s + 1"
  by (simp add: unat_word_ariths)

lemma number_from_keys: "unat s + length fs \<le> 2 ^ 32 \<Longrightarrow> p \<in> set (number_from s fs) \<Longrightarrow> s \<le> fst p"
proof (induction fs arbitrary: s)
  case (Cons f fs)
  show ?case
  proof (cases "fs = []")
    case False
    with Cons.prems have s1: "unat (s + 1) = unat s + 1" by (intro unat_Suc_no_wrap) auto
    then have "s \<le> s + 1" by (simp add: word_le_nat_alt)
    moreover have "unat (s + 1) + length fs \<le> 2 ^ 32" using s1 Cons.prems by simp
    ultimately show ?thesis using Cons.IH [of "s + 1"] Cons.prems by (auto intro: order_trans)
  qed (use Cons.prems in auto)
qed simp

lemma omap_ok_number_from: "unat s + length fs \<le> 2 ^ 32 \<Longrightarrow> omap_ok (number_from s fs)"
proof (induction fs arbitrary: s)
  case (Cons f fs)
  show ?case
  proof (cases "fs = []")
    case False
    with Cons.prems have s1: "unat (s + 1) = unat s + 1" by (intro unat_Suc_no_wrap) auto
    then have lt: "s < s + 1" by (simp add: word_less_nat_alt)
    have "unat (s + 1) + length fs \<le> 2 ^ 32" using s1 Cons.prems by simp
    with Cons.IH number_from_keys lt show ?thesis by (fastforce intro: less_le_trans)
  qed simp
qed simp

lemma length_number_from [simp]: "length (number_from s fs) = length fs"
  by (induction fs arbitrary: s) auto

lemma jb_pop_number_from:
  assumes "jb_started b" "jb_buffer b = number_from (jb_next b) fs" "omap_ok (jb_buffer b)"
  shows "\<exists>b'. jb_pop_n (length fs) b = Some (map Some fs, b')"
  using assms
proof (induction fs arbitrary: b)
  case (Cons f fs)
  let ?s = "jb_next b"
  from Cons.prems have "?s \<notin> fst ` set (number_from (?s + 1) fs)" by auto
  then have del: "omap_del ?s (jb_buffer b) = number_from (?s + 1) fs"
    using length_omap_del(2) [of ?s "number_from (?s + 1) fs"] Cons.prems(2) by (simp add: omap_del_def)
  obtain b1 where b1: "jb_pop b = Some (Some f, b1)" "jb_started b1" "jb_next b1 = ?s + 1"
    "jb_buffer b1 = number_from (?s + 1) fs"
    using Cons.prems del by (simp add: jb_pop_def jb_take_def Let_def)
  with Cons.prems Cons.IH [of b1] show ?case by auto
qed simp

lemma omap_unique:
  assumes "omap_ok m" "omap_ok m'" "map_of m = map_of m'"
  shows "m = m'"
proof (rule map_sorted_distinct_set_unique [where f = fst])
  have "(k, v) \<in> set m \<longleftrightarrow> (k, v) \<in> set m'" for k v
    using assms omap_ok_distinct by (metis map_of_eq_Some_iff)
  then show eq: "set m = set m'" by auto
  show "inj_on fst (set m \<union> set m')" using omap_ok_distinct [OF assms(1)]
    by (simp add: distinct_map eq [symmetric])
qed (use assms in \<open>auto simp: strict_sorted_iff\<close>)

lemma jb_push_fresh:
  assumes "\<not> jb_started b" "length (omap_put k f (jb_buffer b)) \<le> jb_max b"
  shows "jb_buffer (fst (jb_push k f b)) = omap_put k f (jb_buffer b)"
    "\<not> jb_started (fst (jb_push k f b))"
proof -
  have "evict (jb_max b) False (jb_next b) (omap_put k f (jb_buffer b)) =
      (omap_put k f (jb_buffer b), jb_next b, 0)"
    using assms(2) by (cases "omap_put k f (jb_buffer b)") auto
  with assms show "jb_buffer (fst (jb_push k f b)) = omap_put k f (jb_buffer b)"
    "\<not> jb_started (fst (jb_push k f b))" by (simp_all add: jb_push_def Let_def)
qed

lemma jb_push_all_fill:
  assumes "\<not> jb_started b" "omap_ok (jb_buffer b)" "finite K" "card K \<le> jb_max b"
    and "fst ` set (jb_buffer b) \<subseteq> K" "fst ` set ps \<subseteq> K"
    and "\<forall>p \<in> set ps. F (fst p) = Some (snd p)"
  shows "\<not> jb_started (jb_push_all b ps) \<and> omap_ok (jb_buffer (jb_push_all b ps)) \<and>
    jb_target (jb_push_all b ps) = jb_target b \<and>
    map_of (jb_buffer (jb_push_all b ps)) =
      (\<lambda>k. if k \<in> fst ` set ps then F k else map_of (jb_buffer b) k)"
  using assms
proof (induction ps arbitrary: b)
  case (Cons p ps)
  let ?put = "omap_put (fst p) (snd p) (jb_buffer b)" and ?b1 = "fst (jb_push (fst p) (snd p) b)"
  have ok: "omap_ok ?put" using Cons.prems(2) by simp
  have keys: "fst ` set ?put \<subseteq> K" using Cons.prems by auto
  have "length ?put = card (fst ` set ?put)"
    using omap_ok_distinct [OF ok] by (metis distinct_card length_map list.set_map)
  also have "\<dots> \<le> jb_max b" using card_mono [OF Cons.prems(3) keys] Cons.prems(4) by simp
  finally have b1: "jb_buffer ?b1 = ?put" "\<not> jb_started ?b1"
    using jb_push_fresh [OF Cons.prems(1)] by blast+
  have "\<not> jb_started (jb_push_all ?b1 ps) \<and> omap_ok (jb_buffer (jb_push_all ?b1 ps)) \<and>
      jb_target (jb_push_all ?b1 ps) = jb_target ?b1 \<and>
      map_of (jb_buffer (jb_push_all ?b1 ps)) =
        (\<lambda>k. if k \<in> fst ` set ps then F k else map_of (jb_buffer ?b1) k)"
    using Cons.prems b1 ok keys by (intro Cons.IH) auto
  moreover have "map_of ?put = (map_of (jb_buffer b))(fst p \<mapsto> snd p)"
    using Cons.prems(2) by (rule map_of_omap_put)
  ultimately show ?case using Cons.prems(7) b1(1) by (auto simp: fun_eq_iff)
qed simp

text \<open>
  Packets that arrive reordered and duplicated are played in sequence order, each once: if the
  arrivals are the frames \<open>fs\<close> numbered from \<open>s\<close> in any order and multiplicity, enough to reach
  the target and within the capacity, the next pops return exactly \<open>fs\<close>.
\<close>

theorem jb_reorders:
  assumes "0 < target" "target \<le> length fs" "length fs \<le> max_depth"
    and "unat s + length fs \<le> 2 ^ 32" "set ps = set (number_from s fs)"
  shows "\<exists>b. jb_pop_n (length fs) (jb_push_all (jb_new target max_depth) ps) = Some (map Some fs, b)"
proof -
  let ?ns = "number_from s fs" and ?init = "jb_new target max_depth"
  let ?pushed = "jb_push_all ?init ps"
  have ok: "omap_ok ?ns" by (rule omap_ok_number_from [OF assms(4)])
  have "card (set ?ns) \<le> max_depth" using card_length [of ?ns] assms(3) by simp
  then have card: "card (fst ` set ?ns) \<le> jb_max ?init"
    using card_image_le [of "set ?ns" fst] assms(2,3) by (simp add: jb_new_def Let_def)
  have F: "\<forall>p \<in> set ps. map_of ?ns (fst p) = Some (snd p)"
    using assms(5) omap_ok_distinct [OF ok] by (auto intro: map_of_is_SomeI)
  have b: "\<not> jb_started ?pushed" "omap_ok (jb_buffer ?pushed)" "jb_target ?pushed = target"
    "map_of (jb_buffer ?pushed) = (\<lambda>k. if k \<in> fst ` set ps then map_of ?ns k else None)"
    using jb_push_all_fill [of ?init "fst ` set ?ns" ps "map_of ?ns", OF _ _ _ card] F assms(5)
    by (auto simp: jb_new_def Let_def)
  have "map_of (jb_buffer ?pushed) = map_of ?ns"
    using b(4) assms(5) by (auto simp: fun_eq_iff map_of_eq_None_iff [symmetric])
  then have buf: "jb_buffer ?pushed = ?ns" by (rule omap_unique [OF b(2) ok])
  from assms(1,2) obtain f fs' where fs: "fs = f # fs'" by (cases fs) auto
  let ?play = "?pushed\<lparr>jb_started := True, jb_next := s, jb_streak := 0\<rparr>"
  have "jb_pop ?pushed = jb_pop ?play"
    using b(1,3) buf fs assms(2) by (simp add: jb_pop_def jb_begin_playback_def)
  then have "jb_pop_n (length fs) ?pushed = jb_pop_n (length fs) ?play" using fs by simp
  with jb_pop_number_from [of ?play fs] buf ok show ?thesis by auto
qed

theorem jb_reorders_witness:
  "\<exists>b. jb_pop_n 3 (jb_push_all (jb_new 2 9) [(7, [30]), (5, [10]), (6, [20]), (5, [10])]) =
         Some ([Some [10], Some [20], Some [30]], b)"
proof -
  have "set [(7, [30]), (5, [10]), (6, [20]), (5, [10])] = set (number_from 5 [[10], [20], [30]])" by auto
  from jb_reorders [OF _ _ _ _ this, of 2 9] show ?thesis
    by (simp del: jb_pop_n.simps jb_push_all.simps add: numeral_3_eq_3)
qed

end
