(* ===== verification/Playback.thy ===== *)
theory Playback
  imports JitterBuffer
begin

text \<open>
  The playback side of the audio module: \<^verbatim>\<open>AudioFormat\<close> (\<^verbatim>\<open>include/nockvm/audio/format.h\<close>) and
  the device callback of \<^verbatim>\<open>src/audio/playback.cpp\<close>, which cuts the packets popped from the jitter
  buffer into the blocks the device asks for. The callback's loop is written over the interface
  \<open>frame_source\<close>; the jitter buffer is its instance.
\<close>

section \<open>Audio format\<close>

record audio_format =
  sample_rate :: u32
  bit_depth :: byte

definition kChannels :: u32 where
  "kChannels = 2"

definition default_format :: audio_format where
  "default_format = \<lparr>sample_rate = 48000, bit_depth = 16\<rparr>"

definition bytes_per_sample :: "audio_format \<Rightarrow> u32" where
  "bytes_per_sample f = ucast (bit_depth f) div 8"

definition bytes_per_frame :: "audio_format \<Rightarrow> u32" where
  "bytes_per_frame f = bytes_per_sample f * kChannels"

definition frame_count :: "audio_format \<Rightarrow> u32" where
  "frame_count f = sample_rate f div 200"

definition bytes_per_packet :: "audio_format \<Rightarrow> nat" where
  "bytes_per_packet f = unat (frame_count f) * unat (bytes_per_frame f)"

section \<open>The device callback\<close>

text \<open>
  \<open>carry\<close> is what is left of the last packet popped, \<open>carry_pos\<close> how much of it was played.
\<close>

record playback_impl =
  carry :: bytes
  carry_pos :: nat
  silence_byte :: byte

definition playback_init :: "audio_format \<Rightarrow> playback_impl" where
  "playback_init f =
     \<lparr>carry = [], carry_pos = 0, silence_byte = (if bit_depth f = 8 then 0x80 else 0)\<rparr>"

text \<open>
  \<open>fill_output\<close> is the \<^verbatim>\<open>while (remaining > 0)\<close> loop of \<^verbatim>\<open>data_callback\<close>. The outer \<open>None\<close> is
  undefined behaviour in \<open>pop\<close> or too little fuel; the result is the bytes written, the callback
  state, the source and the number of bytes left to fill.
\<close>

fun fill_output :: "('b \<Rightarrow> (bytes option \<times> 'b) option) \<Rightarrow> nat \<Rightarrow> nat \<Rightarrow> playback_impl \<Rightarrow> 'b \<Rightarrow>
    (bytes \<times> playback_impl \<times> 'b \<times> nat) option" where
  "fill_output pop 0 remaining impl src = None"
| "fill_output pop (Suc fuel) remaining impl src =
     (if remaining = 0 then Some ([], impl, src, 0)
      else if carry_pos impl \<ge> length (carry impl)
      then (case pop src of
              None \<Rightarrow> None
            | Some (None, src') \<Rightarrow> Some ([], impl, src', remaining)
            | Some (Some frame, src') \<Rightarrow>
                fill_output pop fuel remaining (impl\<lparr>carry := frame, carry_pos := 0\<rparr>) src')
      else let n = min remaining (length (carry impl) - carry_pos impl) in
           map_option (\<lambda>(out, r). (take n (drop (carry_pos impl) (carry impl)) @ out, r))
             (fill_output pop fuel (remaining - n) (impl\<lparr>carry_pos := carry_pos impl + n\<rparr>) src))"

text \<open>
  The whole callback: the loop, then silence for what could not be filled. The last component is
  the increment of the \<^verbatim>\<open>audio_underruns\<close> counter.
\<close>

definition data_callback :: "nat \<Rightarrow> nat \<Rightarrow> playback_impl \<Rightarrow> jitter \<Rightarrow>
    (bytes \<times> playback_impl \<times> jitter \<times> nat) option" where
  "data_callback fuel remaining impl b =
     map_option (\<lambda>(out, impl', b', rest).
        (out @ replicate rest (silence_byte impl), impl', b', if rest > 0 then 1 else 0))
       (fill_output jb_pop fuel remaining impl b)"

abbreviation unplayed :: "playback_impl \<Rightarrow> bytes" where
  "unplayed impl \<equiv> drop (carry_pos impl) (carry impl)"

text \<open>The frames a source hands out between two of its states.\<close>

inductive popped :: "('b \<Rightarrow> (bytes option \<times> 'b) option) \<Rightarrow> 'b \<Rightarrow> bytes list \<Rightarrow> 'b \<Rightarrow> bool" for pop where
  popped_Nil: "popped pop s [] s"
| popped_silence: "pop s = Some (None, s') \<Longrightarrow> popped pop s [] s'"
| popped_frame: "pop s = Some (Some f, s') \<Longrightarrow> popped pop s' fs s'' \<Longrightarrow> popped pop s (f # fs) s''"

definition callback_fuel :: "nat \<Rightarrow> playback_impl \<Rightarrow> nat" where
  "callback_fuel depth impl = 2 * depth + (if unplayed impl = [] then 2 else 3)"

context frame_source begin

lemma fill_output_defined:
  assumes "ok src" "callback_fuel (pending src) impl \<le> fuel"
  shows "\<exists>r. fill_output pop fuel remaining impl src = Some r"
  using assms
proof (induction fuel arbitrary: remaining impl src)
  case 0
  then show ?case by (simp add: callback_fuel_def split: if_splits)
next
  case (Suc fuel)
  consider (finished) "remaining = 0"
    | (next_packet) "remaining \<noteq> 0" "carry_pos impl \<ge> length (carry impl)"
    | (copy) "remaining \<noteq> 0" "carry_pos impl < length (carry impl)" by linarith
  then show ?case
  proof cases
    case next_packet
    from Suc.prems(1) show ?thesis
    proof (cases rule: pop_cases)
      case silence
      with next_packet show ?thesis by simp
    next
      case (frame f src')
      have "callback_fuel (pending src') (impl\<lparr>carry := f, carry_pos := 0\<rparr>) \<le> fuel"
        using Suc.prems(2) frame next_packet by (auto simp: callback_fuel_def split: if_splits)
      with frame next_packet show ?thesis using Suc.IH [of src'] by simp
    qed
  next
    case copy
    let ?n = "min remaining (length (carry impl) - carry_pos impl)"
    let ?impl = "impl\<lparr>carry_pos := carry_pos impl + ?n\<rparr>"
    show ?thesis
    proof (cases "remaining - ?n = 0")
      case True
      have "0 < fuel" using Suc.prems(2) copy by (auto simp: callback_fuel_def split: if_splits)
      then have "fill_output pop fuel (remaining - ?n) ?impl src = Some ([], ?impl, src, 0)"
        using True by (cases fuel) auto
      with copy show ?thesis by (simp add: Let_def)
    next
      case False
      then have "?n = length (carry impl) - carry_pos impl" by (simp add: min_def split: if_splits)
      then have "unplayed ?impl = []" using copy by simp
      then have "callback_fuel (pending src) ?impl \<le> fuel"
        using Suc.prems(2) copy by (auto simp: callback_fuel_def split: if_splits)
      then obtain r where "fill_output pop fuel (remaining - ?n) ?impl src = Some r"
        using Suc.IH [OF Suc.prems(1), where remaining = "remaining - ?n"] by blast
      with copy show ?thesis by (cases r) (simp add: Let_def)
    qed
  qed simp
qed

lemma fill_output_stream:
  assumes "ok src" "fill_output pop fuel remaining impl src = Some (out, impl', src', rest)"
  shows "ok src' \<and> length out + rest = remaining \<and> silence_byte impl' = silence_byte impl \<and>
    (rest > 0 \<longrightarrow> unplayed impl' = []) \<and>
    (\<exists>fs. popped pop src fs src' \<and> out @ unplayed impl' = unplayed impl @ concat fs)"
  using assms
proof (induction fuel arbitrary: remaining impl src out)
  case (Suc fuel)
  consider (finished) "remaining = 0"
    | (next_packet) "remaining \<noteq> 0" "carry_pos impl \<ge> length (carry impl)"
    | (copy) "remaining \<noteq> 0" "carry_pos impl < length (carry impl)" by linarith
  then show ?case
  proof cases
    case finished
    with Suc.prems show ?thesis by (auto intro: exI [where x = "[]"] popped_Nil)
  next
    case next_packet
    from Suc.prems(1) show ?thesis
    proof (cases rule: pop_cases)
      case (silence src1)
      with Suc.prems next_packet show ?thesis by (auto intro!: exI [where x = "[]"] popped_silence)
    next
      case (frame f src1)
      from Suc.prems(2) frame(1) next_packet
      have "fill_output pop fuel remaining (impl\<lparr>carry := f, carry_pos := 0\<rparr>) src1 =
          Some (out, impl', src', rest)" by simp
      from Suc.IH [OF frame(2) this] obtain fs where
        ih: "ok src'" "length out + rest = remaining" "silence_byte impl' = silence_byte impl"
          "rest > 0 \<longrightarrow> unplayed impl' = []"
          "popped pop src1 fs src'" "out @ unplayed impl' = f @ concat fs" by auto
      have "popped pop src (f # fs) src'" using frame(1) ih(5) by (rule popped_frame)
      moreover have "out @ unplayed impl' = unplayed impl @ concat (f # fs)"
        using ih(6) next_packet(2) by simp
      ultimately show ?thesis using ih(1-4) by blast
    qed
  next
    case copy
    let ?n = "min remaining (length (carry impl) - carry_pos impl)"
    from Suc.prems(2) copy obtain out1 where out1:
      "fill_output pop fuel (remaining - ?n) (impl\<lparr>carry_pos := carry_pos impl + ?n\<rparr>) src =
         Some (out1, impl', src', rest)"
      "out = take ?n (unplayed impl) @ out1"
      by (auto simp: Let_def)
    from Suc.IH [OF Suc.prems(1) out1(1)] obtain fs where
      ih: "ok src'" "length out1 + rest = remaining - ?n" "silence_byte impl' = silence_byte impl"
        "rest > 0 \<longrightarrow> unplayed impl' = []"
        "popped pop src fs src'" "out1 @ unplayed impl' = drop ?n (unplayed impl) @ concat fs"
      by (auto simp: add.commute)
    have "out @ unplayed impl' = take ?n (unplayed impl) @ drop ?n (unplayed impl) @ concat fs"
      using out1(2) ih(6) by simp
    then have "out @ unplayed impl' = unplayed impl @ concat fs"
      by (simp only: append_assoc [symmetric] append_take_drop_id)
    moreover have "length out + rest = remaining" using out1(2) ih(2) copy by simp
    ultimately show ?thesis using ih(1,3,4,5) by blast
  qed
qed simp

end

section \<open>The callback over the jitter buffer\<close>

text \<open>
  C19. The playback callback always returns (with fuel proportional to the frames waiting) and
  writes exactly the bytes the device asked for. What it writes is the stream of the packets it
  popped, in order, nothing lost or repeated between callbacks: the written bytes and the
  remainder it keeps are the old remainder and the new packets; silence fills only the end, only
  when nothing is left to play, and is the single case counted as an underrun.
\<close>

theorem data_callback_plays_stream:
  assumes inv: "jb_inv b" and fuel: "callback_fuel (jb_depth b) impl \<le> fuel"
  shows "\<exists>out impl' b' rest fs. data_callback fuel remaining impl b =
           Some (out @ replicate rest (silence_byte impl), impl', b', if rest > 0 then 1 else 0) \<and>
         jb_inv b' \<and> length out + rest = remaining \<and> (rest > 0 \<longrightarrow> unplayed impl' = []) \<and>
         popped jb_pop b fs b' \<and> out @ unplayed impl' = unplayed impl @ concat fs"
proof -
  from jbq.fill_output_defined [OF inv fuel] obtain out impl' b' rest
    where r: "fill_output jb_pop fuel remaining impl b = Some (out, impl', b', rest)" by fastforce
  from jbq.fill_output_stream [OF inv r] obtain fs where
    "jb_inv b'" "length out + rest = remaining" "rest > 0 \<longrightarrow> unplayed impl' = []"
    "popped jb_pop b fs b'" "out @ unplayed impl' = unplayed impl @ concat fs" by blast
  moreover have "data_callback fuel remaining impl b =
      Some (out @ replicate rest (silence_byte impl), impl', b', if rest > 0 then 1 else 0)"
    by (simp add: data_callback_def r)
  ultimately show ?thesis by (intro exI conjI)
qed

theorem data_callback_plays_stream_witness:
  "\<exists>out impl' b' rest fs. data_callback 9 4 (playback_init default_format)
       ((jb_new 1 9)\<lparr>jb_buffer := [(1, [1, 2, 3]), (2, [4, 5])]\<rparr>) =
      Some (out @ replicate rest 0, impl', b', if rest > 0 then 1 else 0) \<and>
    jb_inv b' \<and> length out + rest = 4 \<and> (rest > 0 \<longrightarrow> unplayed impl' = []) \<and>
    popped jb_pop ((jb_new 1 9)\<lparr>jb_buffer := [(1, [1, 2, 3]), (2, [4, 5])]\<rparr>) fs b' \<and>
    out @ unplayed impl' = concat fs"
proof -
  let ?b = "(jb_new 1 9)\<lparr>jb_buffer := [(1, [1, 2, 3]), (2, [4, 5 :: byte])]\<rparr>"
  have inv: "jb_inv ?b"
    by (simp add: jb_inv_def jb_core_def jb_new_def compute_recovery_threshold_def kMaxConsecutiveMisses_def)
  have fuel: "callback_fuel (jb_depth ?b) (playback_init default_format) \<le> 9"
    by (simp add: callback_fuel_def jb_depth_def playback_init_def)
  from data_callback_plays_stream [OF inv fuel, of 4] show ?thesis
    by (simp add: playback_init_def default_format_def)
qed

text \<open>
  Every format the settings offer produces packets that fit the receiver's 2048-byte buffer
  with the 4-byte sequence number and the 16-byte tag, and the largest one is 980 bytes.
\<close>

definition offered_formats :: "audio_format list" where
  "offered_formats = [\<lparr>sample_rate = r, bit_depth = d\<rparr>. r \<leftarrow> [24000, 48000], d \<leftarrow> [8, 16]]"

theorem offered_packets_fit:
  "list_all (\<lambda>f. 4 + bytes_per_packet f + 16 \<le> 980 \<and> 0 < bytes_per_packet f) offered_formats \<and>
   4 + bytes_per_packet default_format + 16 = 980"
  by (simp add: offered_formats_def default_format_def bytes_per_packet_def bytes_per_frame_def
      bytes_per_sample_def frame_count_def kChannels_def)

end
