(* ===== verification/AudioDevices.thy ===== *)
theory AudioDevices
  imports Playback
begin

text \<open>
  Opening and closing the audio devices: \<open>AudioCapture\<close> of \<^verbatim>\<open>src/audio/capture.cpp\<close>, \<open>AudioPlayback\<close>'s half of
  \<^verbatim>\<open>src/audio/playback.cpp\<close>, and the way \<^verbatim>\<open>src/app/audio_pump.cpp\<close> owns them. What miniaudio answers is an
  argument; what it holds for the program is counted, so that a resource released twice would show as a
  negative number and one never released as a positive one.
\<close>

section \<open>Choosing a device\<close>

text \<open>\<^verbatim>\<open>std::tolower\<close> of the C locale, on bytes.\<close>

definition to_lower :: "byte \<Rightarrow> byte" where
  "to_lower b = (if 65 \<le> b \<and> b \<le> 90 then b + 32 else b)"

definition contains :: "bytes \<Rightarrow> bytes \<Rightarrow> bool" where
  "contains pat s \<longleftrightarrow> list_ex (\<lambda>i. take (length pat) (drop i s) = pat) [0..<Suc (length s)]"

text \<open>The bytes of \<open>monitor\<close>.\<close>

definition kMonitor :: bytes where
  "kMonitor = [109, 111, 110, 105, 116, 111, 114]"

text \<open>The capture devices the context lists, by name and id; \<open>None\<close> when it cannot list them.\<close>

definition select_device_id :: "(bytes \<times> 'id) list option \<Rightarrow> 'id option" where
  "select_device_id infos =
     (case infos of
        None \<Rightarrow> None
      | Some ds \<Rightarrow> map_option snd (find (\<lambda>(name, i). contains kMonitor (map to_lower name)) ds))"

section \<open>Starting and stopping\<close>

datatype device_kind = Loopback | Capture | Playback

datatype sample_format = SampleU8 | SampleS16

definition to_ma_format :: "byte \<Rightarrow> sample_format" where
  "to_ma_format depth = (if depth = 8 then SampleU8 else SampleS16)"

record 'id device_config =
  dc_kind :: device_kind
  dc_format :: sample_format
  dc_channels :: u32
  dc_rate :: u32
  dc_period :: u32
  dc_id :: "'id option"

definition device_config_of :: "device_kind \<Rightarrow> audio_format \<Rightarrow> 'id option \<Rightarrow> 'id device_config" where
  "device_config_of kind f i =
     \<lparr>dc_kind = kind, dc_format = to_ma_format (bit_depth f), dc_channels = kChannels, dc_rate = sample_rate f,
      dc_period = frame_count f, dc_id = i\<rparr>"

text \<open>Allocated \<open>impl\<close> objects, initialised contexts and initialised devices.\<close>

record held =
  hd_impls :: int
  hd_contexts :: int
  hd_devices :: int

text \<open>Whether the three calls of a start succeed, and the devices listed in between.\<close>

record 'id answers =
  an_context :: bool
  an_infos :: "(bytes \<times> 'id) list option"
  an_device :: bool
  an_start :: bool

definition uninit_all :: "held \<Rightarrow> held" where
  "uninit_all h = h\<lparr>hd_devices := hd_devices h - 1, hd_contexts := hd_contexts h - 1, hd_impls := hd_impls h - 1\<rparr>"

text \<open>\<open>start\<close>: the object's device and what is held. Only a capture device is chosen by its name.\<close>

definition start_device :: "device_kind \<Rightarrow> 'id answers \<Rightarrow> audio_format \<Rightarrow> 'id device_config option \<times> held \<Rightarrow>
    bool \<times> 'id device_config option \<times> held" where
  "start_device kind an f = (\<lambda>(dev, h).
     let h1 = h\<lparr>hd_impls := hd_impls h + 1\<rparr>
     in if \<not> an_context an then (False, dev, h1\<lparr>hd_impls := hd_impls h1 - 1\<rparr>)
        else
          let h2 = h1\<lparr>hd_contexts := hd_contexts h1 + 1\<rparr>;
              config = device_config_of kind f (if kind = Capture then select_device_id (an_infos an) else None)
          in if \<not> an_device an
             then (False, dev, h2\<lparr>hd_contexts := hd_contexts h2 - 1, hd_impls := hd_impls h2 - 1\<rparr>)
             else
               let h3 = h2\<lparr>hd_devices := hd_devices h2 + 1\<rparr>
               in if \<not> an_start an then (False, dev, uninit_all h3) else (True, Some config, h3))"

definition stop_device :: "'id device_config option \<times> held \<Rightarrow> 'id device_config option \<times> held" where
  "stop_device = (\<lambda>(dev, h). case dev of None \<Rightarrow> (None, h) | Some c \<Rightarrow> (None, uninit_all h))"

text \<open>\<open>AudioPlayback\<close> repeats both, without the choice of a device.\<close>

definition playback_start :: "'id answers \<Rightarrow> audio_format \<Rightarrow> 'id device_config option \<times> held \<Rightarrow>
    bool \<times> 'id device_config option \<times> held" where
  "playback_start = start_device Playback"

definition playback_stop :: "'id device_config option \<times> held \<Rightarrow> 'id device_config option \<times> held" where
  "playback_stop = stop_device"

section \<open>The owner\<close>

text \<open>
  The pumps hold a \<^verbatim>\<open>unique_ptr\<close>, here an option: restarting stops and destroys the old object, makes a new one
  and starts it; if that fails the new object is destroyed as well. Destroying stops.
\<close>

definition destroy :: "'id device_config option option \<times> held \<Rightarrow> 'id device_config option option \<times> held" where
  "destroy = (\<lambda>(obj, h). case obj of None \<Rightarrow> (None, h) | Some dev \<Rightarrow> (None, snd (stop_device (stop_device (dev, h)))))"

definition restart_device :: "device_kind \<Rightarrow> 'id answers \<Rightarrow> audio_format \<Rightarrow> 'id device_config option option \<times> held \<Rightarrow>
    bool \<times> 'id device_config option option \<times> held" where
  "restart_device kind an f s =
     (let (_, h) = destroy s; (ok, dev, h1) = start_device kind an f (None, h)
      in if ok then (True, Some dev, h1) else (False, destroy (Some dev, h1)))"

datatype 'id device_use = Restart "'id answers" audio_format | Stop

fun use_device :: "device_kind \<Rightarrow> 'id device_use \<Rightarrow> 'id device_config option option \<times> held \<Rightarrow> 'id device_config option option \<times> held" where
  "use_device kind (Restart an f) s = snd (restart_device kind an f s)"
| "use_device kind Stop s = destroy s"

definition opens :: "'id answers \<Rightarrow> bool" where
  "opens an \<longleftrightarrow> an_context an \<and> an_device an \<and> an_start an"

text \<open>The configuration that the last use left running.\<close>

fun running_after :: "device_kind \<Rightarrow> 'id device_use \<Rightarrow> 'id device_config option" where
  "running_after kind (Restart an f) =
     (if opens an then Some (device_config_of kind f (if kind = Capture then select_device_id (an_infos an) else None)) else None)"
| "running_after kind Stop = None"

text \<open>One of everything while a device runs, nothing otherwise.\<close>

definition balanced :: "'id device_config option option \<times> held \<Rightarrow> bool" where
  "balanced = (\<lambda>(obj, h). obj \<noteq> Some None \<and>
     h = (let n = (if obj = None then 0 else 1) in \<lparr>hd_impls = n, hd_contexts = n, hd_devices = n\<rparr>))"

lemma destroy_balanced: "balanced s \<Longrightarrow> destroy s = (None, \<lparr>hd_impls = 0, hd_contexts = 0, hd_devices = 0\<rparr>)"
  by (cases s) (auto simp: balanced_def destroy_def stop_device_def uninit_all_def Let_def split: option.splits)

lemma use_balanced:
  assumes "balanced s"
  shows "balanced (use_device kind u s) \<and> fst (use_device kind u s) = map_option Some (running_after kind u)"
proof (cases u)
  case (Restart an f)
  then show ?thesis
    unfolding Restart use_device.simps restart_device_def destroy_balanced [OF assms]
    by (auto simp: start_device_def destroy_def stop_device_def balanced_def uninit_all_def opens_def Let_def)
next
  case Stop
  then show ?thesis by (simp add: destroy_balanced [OF assms], simp add: balanced_def)
qed

lemma run_balanced: "balanced s \<Longrightarrow> balanced (fold (use_device kind) us s)"
proof (induction us arbitrary: s)
  case (Cons u us)
  then show ?case using use_balanced [OF Cons.prems, of kind u] by simp
qed simp

text \<open>
  C22. Audio devices are never leaked and never released twice: after any sequence of starts, restarts and
  stops, whichever call of miniaudio fails, exactly the device of the last successful start is still open,
  with the format that was asked for, and with it one context and one device; otherwise nothing is.
\<close>

theorem audio_devices_balanced:
  "let s = fold (use_device kind) (us @ [u]) (None, \<lparr>hd_impls = 0, hd_contexts = 0, hd_devices = 0\<rparr>);
       n = (if running_after kind u = None then 0 else 1)
   in s = (map_option Some (running_after kind u), \<lparr>hd_impls = n, hd_contexts = n, hd_devices = n\<rparr>)"
proof -
  have "balanced (fold (use_device kind) us (None, \<lparr>hd_impls = 0, hd_contexts = 0, hd_devices = 0\<rparr>))"
    by (rule run_balanced) (simp add: balanced_def)
  from use_balanced [OF this, of kind u] show ?thesis
    by (cases "use_device kind u (fold (use_device kind) us (None, \<lparr>hd_impls = 0, hd_contexts = 0, hd_devices = 0\<rparr>))")
      (auto simp: balanced_def Let_def split: option.splits)
qed

lemma monitor_source_preferred:
  "select_device_id (Some [([77, 105, 99], (1::int)), ([65, 32, 77, 79, 78, 73, 84, 79, 82], 2)]) = Some 2"
  by (simp add: select_device_id_def contains_def kMonitor_def to_lower_def upt_conv_Cons)

end
