(* ===== verification/InputProtocol.thy ===== *)
theory InputProtocol
  imports Codec
begin

text \<open>
  The input messages of \<^verbatim>\<open>include/nockvm/input/protocol.h\<close> and \<^verbatim>\<open>src/input/protocol.cpp\<close>: message
  types and, for each message, its encoder and decoder. Every decoder is an \<open>option\<close>: \<open>None\<close> is
  \<^verbatim>\<open>return false\<close>.
\<close>

definition kMsgMouseAbsolute :: byte where "kMsgMouseAbsolute = 2"
definition kMsgMouseButton :: byte where "kMsgMouseButton = 3"
definition kMsgMouseWheel :: byte where "kMsgMouseWheel = 4"
definition kMsgKey :: byte where "kMsgKey = 5"
definition kMsgModifierSync :: byte where "kMsgModifierSync = 6"

lemmas input_msg_types = kMsgMouseAbsolute_def kMsgMouseButton_def kMsgMouseWheel_def
  kMsgKey_def kMsgModifierSync_def

text \<open>The signed reads and writes of the file: an \<^verbatim>\<open>int32_t\<close> travels as its two's complement.\<close>

definition write_i32 :: "int \<Rightarrow> bytes" where
  "write_i32 v = write_be32 (word_of_int v)"

definition read_i32 :: "bytes \<Rightarrow> int" where
  "read_i32 b = sint (read_be32 b)"

definition write_i16 :: "int \<Rightarrow> bytes" where
  "write_i16 v = write_be16 (word_of_int v)"

definition read_i16 :: "bytes \<Rightarrow> int" where
  "read_i16 b = sint (read_be16 b)"

lemma read_write_i32 [simp, codec_simps]: "in_i32 v \<Longrightarrow> read_i32 (write_i32 v @ r) = v"
  by (simp add: read_i32_def write_i32_def)

lemma read_write_i16 [simp, codec_simps]: "in_i16 v \<Longrightarrow> read_i16 (write_i16 v @ r) = v"
  by (simp add: read_i16_def write_i16_def)

lemma length_write_i [simp, codec_simps]: "length (write_i32 v) = 4" "length (write_i16 v) = 2"
  by (simp_all add: write_i32_def write_i16_def)

lemma in_i32_read_i32 [simp]: "in_i32 (read_i32 b)"
  by (simp add: read_i32_def)

lemma in_i16_read_i16 [simp]: "in_i16 (read_i16 b)"
  by (simp add: read_i16_def)

definition bool_byte_of :: "bool \<Rightarrow> byte" where
  "bool_byte_of b = (if b then 1 else 0)"

lemma bool_byte_of_neq0 [simp, codec_simps]: "bool_byte_of b \<noteq> 0 \<longleftrightarrow> b"
  by (simp add: bool_byte_of_def)

section \<open>Encoders and decoders\<close>

definition encode_mouse_absolute :: "int \<times> int \<Rightarrow> bytes" where
  "encode_mouse_absolute = (\<lambda>(x, y). write_i32 x @ write_i32 y)"

definition decode_mouse_absolute :: "bytes \<Rightarrow> (int \<times> int) option" where
  "decode_mouse_absolute data =
     (if length data < 8 then None else Some (read_i32 data, read_i32 (drop 4 data)))"

definition encode_mouse_button :: "byte \<times> bool \<Rightarrow> bytes" where
  "encode_mouse_button = (\<lambda>(button, down). [button, bool_byte_of down])"

definition decode_mouse_button :: "bytes \<Rightarrow> (byte \<times> bool) option" where
  "decode_mouse_button data = (if length data < 2 then None else Some (data ! 0, data ! 1 \<noteq> 0))"

definition encode_mouse_wheel :: "int \<Rightarrow> bytes" where
  "encode_mouse_wheel delta = write_i16 delta"

definition decode_mouse_wheel :: "bytes \<Rightarrow> int option" where
  "decode_mouse_wheel data = (if length data < 2 then None else Some (read_i16 data))"

text \<open>A key event: virtual key, scancode, down, extended. The struct is \<^verbatim>\<open>KeyEvent\<close> of
  \<^verbatim>\<open>include/nockvm/input/hook.h\<close>.\<close>

record key_event =
  vk :: u32
  scancode :: u32
  down :: bool
  extended :: bool

definition encode_key :: "key_event \<Rightarrow> bytes" where
  "encode_key k = write_be32 (vk k) @ write_be32 (scancode k) @
     [bool_byte_of (down k), bool_byte_of (extended k)]"

definition decode_key :: "bytes \<Rightarrow> key_event option" where
  "decode_key data =
     (if length data < 10 then None
      else Some \<lparr>vk = read_be32 data, scancode = read_be32 (drop 4 data),
                 down = data ! 8 \<noteq> 0, extended = data ! 9 \<noteq> 0\<rparr>)"

definition encode_modifier_sync :: "byte \<Rightarrow> bytes" where
  "encode_modifier_sync modifiers = [modifiers]"

definition decode_modifier_sync :: "bytes \<Rightarrow> byte option" where
  "decode_modifier_sync data = (if length data < 1 then None else Some (data ! 0))"

section \<open>Every codec meets the contract\<close>

interpretation mouse_absolute: fixed_codec encode_mouse_absolute decode_mouse_absolute
  "\<lambda>(x, y). in_i32 x \<and> in_i32 y" 8
  by unfold_locales
    (auto simp: encode_mouse_absolute_def decode_mouse_absolute_def split: if_splits)

interpretation mouse_button: fixed_codec encode_mouse_button decode_mouse_button "\<lambda>_. True" 2
  by unfold_locales
    (auto simp: encode_mouse_button_def decode_mouse_button_def bool_byte_of_def split: if_splits)

interpretation mouse_wheel: fixed_codec encode_mouse_wheel decode_mouse_wheel in_i16 2
  by unfold_locales
    (auto simp: encode_mouse_wheel_def decode_mouse_wheel_def split: if_splits)

lemma nth_be32s [simp]:
  "(write_be32 a @ write_be32 b @ x # y # r) ! 8 = x"
  "(write_be32 a @ write_be32 b @ x # y # r) ! 9 = y"
  by (simp_all add: nth_append)

interpretation key: fixed_codec encode_key decode_key "\<lambda>_. True" 10
  by unfold_locales (auto simp: encode_key_def decode_key_def bool_byte_of_def split: if_splits)

interpretation modifier_sync: fixed_codec encode_modifier_sync decode_modifier_sync "\<lambda>_. True" 1
  by unfold_locales
    (auto simp: encode_modifier_sync_def decode_modifier_sync_def split: if_splits)

end
