(* ===== verification/ControlProtocol.thy ===== *)
theory ControlProtocol
  imports InputProtocol
begin

text \<open>
  The remaining control messages of an established session: message types (the shared numbering of
  \<^verbatim>\<open>monitor_protocol.h\<close>, \<^verbatim>\<open>audio_port_protocol.h\<close>, \<^verbatim>\<open>clipboard_protocol.h\<close> and
  \<^verbatim>\<open>ping_protocol.h\<close>) and the codecs of \<^verbatim>\<open>src/discovery/audio_port_protocol.cpp\<close> and
  \<^verbatim>\<open>src/discovery/ping_protocol.cpp\<close>.
\<close>

definition kMsgMonitorList :: byte where "kMsgMonitorList = 1"
definition kMsgAudioPort :: byte where "kMsgAudioPort = 7"
definition kMsgAudioStatus :: byte where "kMsgAudioStatus = 8"
definition kMsgAudioControl :: byte where "kMsgAudioControl = 9"
definition kMsgHeartbeat :: byte where "kMsgHeartbeat = 10"
definition kMsgGoAway :: byte where "kMsgGoAway = 11"
definition kMsgClipboardText :: byte where "kMsgClipboardText = 12"
definition kMsgClipboardImage :: byte where "kMsgClipboardImage = 13"
definition kMsgPing :: byte where "kMsgPing = 14"
definition kMsgPong :: byte where "kMsgPong = 15"

lemmas control_msg_types = kMsgMonitorList_def kMsgAudioPort_def kMsgAudioStatus_def
  kMsgAudioControl_def kMsgHeartbeat_def kMsgGoAway_def kMsgClipboardText_def
  kMsgClipboardImage_def kMsgPing_def kMsgPong_def

lemmas msg_types = input_msg_types control_msg_types

datatype clipboard_msg_type = ClipText | ClipJpeg

record clipboard_message =
  clip_type :: clipboard_msg_type
  clip_data :: bytes

section \<open>Encoders and decoders\<close>

definition encode_audio_port :: "u16 \<Rightarrow> bytes" where
  "encode_audio_port port = [ucast (drop_bit 8 port), ucast port]"

definition decode_audio_port :: "bytes \<Rightarrow> u16 option" where
  "decode_audio_port data =
     (if length data < 2 then None else Some (push_bit 8 (ucast (data ! 0)) OR ucast (data ! 1)))"

definition encode_audio_settings :: "bool \<times> u32 \<times> byte \<Rightarrow> bytes" where
  "encode_audio_settings = (\<lambda>(send_enabled, rate, depth).
     [if send_enabled then 1 else 0, ucast (drop_bit 24 rate), ucast (drop_bit 16 rate),
      ucast (drop_bit 8 rate), ucast rate, depth])"

definition decode_audio_settings :: "bytes \<Rightarrow> (bool \<times> u32 \<times> byte) option" where
  "decode_audio_settings data =
     (if length data < 6 then None
      else Some (data ! 0 \<noteq> 0,
                 push_bit 24 (ucast (data ! 1)) OR push_bit 16 (ucast (data ! 2)) OR
                 push_bit 8 (ucast (data ! 3)) OR ucast (data ! 4),
                 data ! 5))"

definition encode_ping_seq :: "u32 \<Rightarrow> bytes" where
  "encode_ping_seq seq = [ucast (drop_bit 24 seq), ucast (drop_bit 16 seq), ucast (drop_bit 8 seq), ucast seq]"

definition decode_ping_seq :: "bytes \<Rightarrow> u32 option" where
  "decode_ping_seq data =
     (if length data < 4 then None
      else Some (push_bit 24 (ucast (data ! 0)) OR push_bit 16 (ucast (data ! 1)) OR
                 push_bit 8 (ucast (data ! 2)) OR ucast (data ! 3)))"

section \<open>Every codec meets the contract\<close>

text \<open>The bytes are those of the big-endian helpers.\<close>

lemma be16_bytes: "push_bit 8 (ucast (ucast (drop_bit 8 v) :: byte)) OR ucast (ucast v :: byte) = (v :: u16)"
  using read_write_be16_Nil [of v] by (simp add: read_be16_def write_be16_def)

lemma be32_bytes:
  "push_bit 24 (ucast (ucast (drop_bit 24 v) :: byte)) OR push_bit 16 (ucast (ucast (drop_bit 16 v) :: byte)) OR
   push_bit 8 (ucast (ucast (drop_bit 8 v) :: byte)) OR ucast (ucast v :: byte) = (v :: u32)"
  using read_write_be32_Nil [of v] by (simp add: read_be32_def write_be32_def)

interpretation audio_port: fixed_codec encode_audio_port decode_audio_port "\<lambda>_. True" 2
  by unfold_locales
    (auto simp: encode_audio_port_def decode_audio_port_def be16_bytes split: if_splits)

interpretation audio_settings: fixed_codec encode_audio_settings decode_audio_settings "\<lambda>_. True" 6
  by unfold_locales
    (auto simp: encode_audio_settings_def decode_audio_settings_def be32_bytes nth_Cons' split: if_splits)

interpretation ping_seq: fixed_codec encode_ping_seq decode_ping_seq "\<lambda>_. True" 4
  by unfold_locales
    (auto simp: encode_ping_seq_def decode_ping_seq_def be32_bytes nth_Cons' split: if_splits)

text \<open>
  Every fixed-size control and input message survives the wire: what the receiver decodes, from the
  message followed by any other bytes, is what the sender encoded, and every payload shorter than the
  message is rejected.
\<close>

theorem control_messages_roundtrip:
  assumes "in_i32 x" "in_i32 y" "in_i16 delta"
  shows "decode_mouse_absolute (encode_mouse_absolute (x, y) @ rest) = Some (x, y) \<and>
    decode_mouse_button (encode_mouse_button (button, pressed) @ rest) = Some (button, pressed) \<and>
    decode_mouse_wheel (encode_mouse_wheel delta @ rest) = Some delta \<and>
    decode_key (encode_key k @ rest) = Some k \<and>
    decode_modifier_sync (encode_modifier_sync m @ rest) = Some m \<and>
    decode_audio_port (encode_audio_port port @ rest) = Some port \<and>
    decode_audio_settings (encode_audio_settings (enabled, rate, depth) @ rest) = Some (enabled, rate, depth) \<and>
    decode_ping_seq (encode_ping_seq seq @ rest) = Some seq \<and>
    (decode_mouse_absolute b = None \<longleftrightarrow> length b < 8) \<and> (decode_mouse_button b = None \<longleftrightarrow> length b < 2) \<and>
    (decode_mouse_wheel b = None \<longleftrightarrow> length b < 2) \<and> (decode_key b = None \<longleftrightarrow> length b < 10) \<and>
    (decode_modifier_sync b = None \<longleftrightarrow> length b < 1) \<and> (decode_audio_port b = None \<longleftrightarrow> length b < 2) \<and>
    (decode_audio_settings b = None \<longleftrightarrow> length b < 6) \<and> (decode_ping_seq b = None \<longleftrightarrow> length b < 4)"
  using assms mouse_absolute.dec_enc_append [of "(x, y)" rest]
  by (simp only: mouse_button.dec_enc_append mouse_wheel.dec_enc_append key.dec_enc_append
      modifier_sync.dec_enc_append audio_port.dec_enc_append audio_settings.dec_enc_append
      ping_seq.dec_enc_append mouse_absolute.dec_short mouse_button.dec_short mouse_wheel.dec_short
      key.dec_short modifier_sync.dec_short audio_port.dec_short audio_settings.dec_short
      ping_seq.dec_short) simp

theorem control_messages_roundtrip_witness:
  "decode_mouse_absolute (encode_mouse_absolute (- 5, 2147483647) @ [1, 2]) = Some (- 5, 2147483647)"
  using control_messages_roundtrip [of "- 5" 2147483647 120 "[1, 2]"] by (simp add: in_i32_def in_i16_def)

end
