(* ===== verification/Topology.thy ===== *)
theory Topology
  imports Prelude
begin

text \<open>
  The screen topology: \<^verbatim>\<open>include/nockvm/display/monitor_info.h\<close>,
  \<^verbatim>\<open>include/nockvm/topology/crossing.h\<close> and \<^verbatim>\<open>src/topology/crossing.cpp\<close>. Coordinates are
  \<^verbatim>\<open>int32_t\<close>, here integers; \<open>crossing_values\<close> and \<open>no_crossing_overflow\<close> below show that
  every intermediate value of the computation stays in range for real screen layouts, so the
  undefined signed overflow never happens.
\<close>

section \<open>Data\<close>

record monitor_info =
  mon_x :: int
  mon_y :: int
  mon_width :: int
  mon_height :: int
  mon_primary :: bool
  mon_name :: bytes

datatype direction = Left | Right | Up | Down

record arrangement_entry =
  entry_device :: u64
  entry_direction :: direction
  entry_offset :: int

record cluster_bounds =
  min_x :: int
  max_x :: int
  min_y :: int
  max_y :: int

record crossing_result =
  has_target :: bool
  cross_x :: int
  cross_y :: int

record boundary_check =
  crossed :: bool
  bc_direction :: direction
  clamped_x :: int
  clamped_y :: int
  perp_pos :: int

section \<open>Operations\<close>

definition clamp :: "int \<Rightarrow> int \<Rightarrow> int \<Rightarrow> int" where
  "clamp v lo hi = min (max v lo) hi"

definition int32_max :: int where "int32_max = 2 ^ 31 - 1"
definition int32_min :: int where "int32_min = - (2 ^ 31)"

definition empty_bounds :: cluster_bounds where
  "empty_bounds = \<lparr>min_x = int32_max, max_x = int32_min, min_y = int32_max, max_y = int32_min\<rparr>"

definition extend_bounds :: "monitor_info \<Rightarrow> cluster_bounds \<Rightarrow> cluster_bounds" where
  "extend_bounds m b =
     \<lparr>min_x = min (min_x b) (mon_x m), max_x = max (max_x b) (mon_x m + mon_width m),
      min_y = min (min_y b) (mon_y m), max_y = max (max_y b) (mon_y m + mon_height m)\<rparr>"

definition compute_bounds :: "monitor_info list \<Rightarrow> cluster_bounds" where
  "compute_bounds monitors = fold extend_bounds monitors empty_bounds"

definition horizontal :: "direction \<Rightarrow> bool" where
  "horizontal d \<longleftrightarrow> d = Left \<or> d = Right"

definition compute_crossing :: "monitor_info list \<Rightarrow> direction \<Rightarrow> int \<Rightarrow> int \<Rightarrow> crossing_result" where
  "compute_crossing peer_monitors d offset master_perp_pos =
     (if peer_monitors = [] then \<lparr>has_target = False, cross_x = 0, cross_y = 0\<rparr>
      else let b = compute_bounds peer_monitors in
        if horizontal d then
          (let extent = max_y b - min_y b;
               shared = clamp master_perp_pos offset (offset + extent)
           in \<lparr>has_target = True, cross_x = (if d = Right then min_x b else max_x b),
               cross_y = shared - offset + min_y b\<rparr>)
        else
          (let extent = max_x b - min_x b;
               shared = clamp master_perp_pos offset (offset + extent)
           in \<lparr>has_target = True, cross_x = shared - offset + min_x b,
               cross_y = (if d = Down then min_y b else max_y b)\<rparr>))"

text \<open>
  \<^verbatim>\<open>BoundaryCheck::direction\<close> is left uninitialised when nothing is crossed; the argument \<open>junk\<close>
  is the value that memory holds.
\<close>

definition check_boundary :: "direction \<Rightarrow> cluster_bounds \<Rightarrow> int \<Rightarrow> int \<Rightarrow> boundary_check" where
  "check_boundary junk bounds x y =
     (let cx = clamp x (min_x bounds) (max_x bounds); cy = clamp y (min_y bounds) (max_y bounds);
          r = \<lparr>crossed = False, bc_direction = junk, clamped_x = cx, clamped_y = cy, perp_pos = 0\<rparr>
      in if x \<le> min_x bounds then r\<lparr>crossed := True, bc_direction := Left, perp_pos := cy\<rparr>
         else if x \<ge> max_x bounds then r\<lparr>crossed := True, bc_direction := Right, perp_pos := cy\<rparr>
         else if y \<le> min_y bounds then r\<lparr>crossed := True, bc_direction := Up, perp_pos := cx\<rparr>
         else if y \<ge> max_y bounds then r\<lparr>crossed := True, bc_direction := Down, perp_pos := cx\<rparr>
         else r)"

fun opposite :: "direction \<Rightarrow> direction" where
  "opposite Left = Right"
| "opposite Right = Left"
| "opposite Up = Down"
| "opposite Down = Up"

definition invert_entry :: "arrangement_entry \<Rightarrow> cluster_bounds \<Rightarrow> cluster_bounds \<Rightarrow> arrangement_entry" where
  "invert_entry entry master_bounds peer_bounds =
     \<lparr>entry_device = entry_device entry,
      entry_direction = opposite (entry_direction entry),
      entry_offset =
        (if horizontal (entry_direction entry)
         then min_y peer_bounds + min_y master_bounds - entry_offset entry
         else min_x peer_bounds + min_x master_bounds - entry_offset entry)\<rparr>"

section \<open>Lemmas\<close>

lemmas topology_defs = compute_crossing_def check_boundary_def invert_entry_def clamp_def

lemma opposite_opposite [simp]: "opposite (opposite d) = d"
  by (cases d) auto

lemma horizontal_simps [simp]:
  "horizontal Left" "horizontal Right" "\<not> horizontal Up" "\<not> horizontal Down"
  "horizontal (opposite d) = horizontal d"
  by (cases d; simp add: horizontal_def)+

lemma clamp_id [simp]: "lo \<le> v \<Longrightarrow> v \<le> hi \<Longrightarrow> clamp v lo hi = v"
  by (simp add: clamp_def)

lemma clamp_bounds [simp]: "lo \<le> hi \<Longrightarrow> lo \<le> clamp v lo hi" "clamp v lo hi \<le> hi"
  by (auto simp: clamp_def)

text \<open>What \<^verbatim>\<open>compute_bounds\<close> computes: the bounding box.\<close>

definition well_placed :: "monitor_info \<Rightarrow> bool" where
  "well_placed m \<longleftrightarrow> in_i32 (mon_x m) \<and> in_i32 (mon_y m) \<and> 0 \<le> mon_width m \<and> 0 \<le> mon_height m \<and>
     in_i32 (mon_x m + mon_width m) \<and> in_i32 (mon_y m + mon_height m)"

lemma fold_extend_bounds:
  "min_x (fold extend_bounds ms b) = Min (insert (min_x b) (mon_x ` set ms))"
  "max_x (fold extend_bounds ms b) = Max (insert (max_x b) ((\<lambda>m. mon_x m + mon_width m) ` set ms))"
  "min_y (fold extend_bounds ms b) = Min (insert (min_y b) (mon_y ` set ms))"
  "max_y (fold extend_bounds ms b) = Max (insert (max_y b) ((\<lambda>m. mon_y m + mon_height m) ` set ms))"
proof -
  have mn: "Min (insert (min a c) S) = Min (insert a (insert c S))" if "finite S" for a c :: int and S
    using that by (cases "S = {}") (auto simp: min.assoc)
  have mx: "Max (insert (max a c) S) = Max (insert a (insert c S))" if "finite S" for a c :: int and S
    using that by (cases "S = {}") (auto simp: max.assoc)
  show "min_x (fold extend_bounds ms b) = Min (insert (min_x b) (mon_x ` set ms))"
    by (induction ms arbitrary: b) (auto simp: extend_bounds_def mn simp del: Min_insert)
  show "max_x (fold extend_bounds ms b) = Max (insert (max_x b) ((\<lambda>m. mon_x m + mon_width m) ` set ms))"
    by (induction ms arbitrary: b) (auto simp: extend_bounds_def mx simp del: Max_insert)
  show "min_y (fold extend_bounds ms b) = Min (insert (min_y b) (mon_y ` set ms))"
    by (induction ms arbitrary: b) (auto simp: extend_bounds_def mn simp del: Min_insert)
  show "max_y (fold extend_bounds ms b) = Max (insert (max_y b) ((\<lambda>m. mon_y m + mon_height m) ` set ms))"
    by (induction ms arbitrary: b) (auto simp: extend_bounds_def mx simp del: Max_insert)
qed

lemma Min_insert_above:
  fixes a :: int
  assumes "finite S" "S \<noteq> {}" "\<forall>x \<in> S. x \<le> a"
  shows "Min (insert a S) = Min S"
proof -
  obtain x where "x \<in> S" using assms(2) by blast
  then have "Min S \<le> x" "x \<le> a" using assms by auto
  then have "min a (Min S) = Min S" by linarith
  then show ?thesis using assms by simp
qed

lemma Max_insert_below:
  fixes a :: int
  assumes "finite S" "S \<noteq> {}" "\<forall>x \<in> S. a \<le> x"
  shows "Max (insert a S) = Max S"
proof -
  obtain x where "x \<in> S" using assms(2) by blast
  then have "x \<le> Max S" "a \<le> x" using assms by auto
  then have "max a (Max S) = Max S" by linarith
  then show ?thesis using assms by simp
qed

text \<open>
  \<^verbatim>\<open>compute_bounds\<close> of a non-empty monitor list is its bounding box: the least left and top
  edge and the greatest right and bottom edge of the monitors.
\<close>

theorem compute_bounds_is_bounding_box:
  assumes "ms \<noteq> []" "\<forall>m \<in> set ms. well_placed m"
  shows "compute_bounds ms =
    \<lparr>min_x = Min (mon_x ` set ms), max_x = Max ((\<lambda>m. mon_x m + mon_width m) ` set ms),
     min_y = Min (mon_y ` set ms), max_y = Max ((\<lambda>m. mon_y m + mon_height m) ` set ms)\<rparr>"
proof -
  have "Min (insert int32_max (mon_x ` set ms)) = Min (mon_x ` set ms)"
    "Min (insert int32_max (mon_y ` set ms)) = Min (mon_y ` set ms)"
    by (rule Min_insert_above; use assms in \<open>force simp: well_placed_def in_i32_def int32_max_def\<close>)+
  moreover have "Max (insert int32_min ((\<lambda>m. mon_x m + mon_width m) ` set ms)) =
      Max ((\<lambda>m. mon_x m + mon_width m) ` set ms)"
    "Max (insert int32_min ((\<lambda>m. mon_y m + mon_height m) ` set ms)) =
      Max ((\<lambda>m. mon_y m + mon_height m) ` set ms)"
    by (rule Max_insert_below; use assms in \<open>force simp: well_placed_def in_i32_def int32_min_def\<close>)+
  ultimately show ?thesis
    by (intro cluster_bounds.equality)
      (simp_all add: compute_bounds_def fold_extend_bounds empty_bounds_def del: Min_insert Max_insert)
qed

definition hd_monitor :: monitor_info where
  "hd_monitor = \<lparr>mon_x = 0, mon_y = 0, mon_width = 1920, mon_height = 1080, mon_primary = True, mon_name = []\<rparr>"

definition side_monitor :: monitor_info where
  "side_monitor = \<lparr>mon_x = 1920, mon_y = -200, mon_width = 1280, mon_height = 1024, mon_primary = False, mon_name = []\<rparr>"

theorem compute_bounds_is_bounding_box_witness:
  "compute_bounds [hd_monitor, side_monitor] = \<lparr>min_x = 0, max_x = 3200, min_y = -200, max_y = 1080\<rparr>"
proof -
  have "\<forall>m \<in> set [hd_monitor, side_monitor]. well_placed m"
    by (simp add: well_placed_def in_i32_def hd_monitor_def side_monitor_def)
  from compute_bounds_is_bounding_box [OF _ this] show ?thesis
    by (simp add: hd_monitor_def side_monitor_def)
qed

definition proper_bounds :: "cluster_bounds \<Rightarrow> bool" where
  "proper_bounds b \<longleftrightarrow> min_x b \<le> max_x b \<and> min_y b \<le> max_y b"

lemma proper_compute_bounds [intro]:
  assumes "ms \<noteq> []" "\<forall>m \<in> set ms. well_placed m"
  shows "proper_bounds (compute_bounds ms)"
proof -
  obtain m where m: "m \<in> set ms" using assms(1) by (cases ms) auto
  then have "Min (mon_x ` set ms) \<le> mon_x m" "Min (mon_y ` set ms) \<le> mon_y m"
    "mon_x m + mon_width m \<le> Max ((\<lambda>m. mon_x m + mon_width m) ` set ms)"
    "mon_y m + mon_height m \<le> Max ((\<lambda>m. mon_y m + mon_height m) ` set ms)" by auto
  moreover have "0 \<le> mon_width m" "0 \<le> mon_height m" using assms(2) m by (auto simp: well_placed_def)
  ultimately show ?thesis
    unfolding compute_bounds_is_bounding_box [OF assms] by (simp add: proper_bounds_def)
qed

section \<open>Crossing\<close>

lemma compute_crossing_eqs:
  assumes "ms \<noteq> []" "b = compute_bounds ms"
  shows "has_target (compute_crossing ms d off p)"
    and "cross_x (compute_crossing ms d off p) =
      (if horizontal d then (if d = Right then min_x b else max_x b)
       else clamp p off (off + (max_x b - min_x b)) - off + min_x b)"
    and "cross_y (compute_crossing ms d off p) =
      (if horizontal d then clamp p off (off + (max_y b - min_y b)) - off + min_y b
       else (if d = Down then min_y b else max_y b))"
  using assms by (simp_all add: compute_crossing_def Let_def)

text \<open>
  A crossing into a machine with at least one monitor always has a landing point, on the edge
  of its bounding box that faces the machine the pointer comes from and within the box along it.
\<close>

theorem crossing_lands_on_entry_edge:
  assumes "ms \<noteq> []" "\<forall>m \<in> set ms. well_placed m" "b = compute_bounds ms" "r = compute_crossing ms d off p"
  shows "has_target r \<and> min_x b \<le> cross_x r \<and> cross_x r \<le> max_x b \<and>
    min_y b \<le> cross_y r \<and> cross_y r \<le> max_y b \<and>
    (case d of Right \<Rightarrow> cross_x r = min_x b | Left \<Rightarrow> cross_x r = max_x b
             | Down \<Rightarrow> cross_y r = min_y b | Up \<Rightarrow> cross_y r = max_y b)"
proof -
  have "proper_bounds b" unfolding assms(3) using assms(1,2) by (rule proper_compute_bounds)
  moreover note compute_crossing_eqs [OF assms(1,3), of d off p]
  ultimately show ?thesis unfolding assms(4)
    by (cases d) (auto simp: proper_bounds_def clamp_def)
qed

theorem crossing_lands_on_entry_edge_witness:
  "has_target (compute_crossing [hd_monitor] Right 100 5000) \<and>
   cross_x (compute_crossing [hd_monitor] Right 100 5000) = min_x (compute_bounds [hd_monitor]) \<and>
   cross_y (compute_crossing [hd_monitor] Right 100 5000) \<le> 1080"
proof -
  have w: "\<forall>m \<in> set [hd_monitor]. well_placed m"
    by (simp add: well_placed_def in_i32_def hd_monitor_def)
  from crossing_lands_on_entry_edge [OF _ w refl refl, of Right 100 5000]
  have "has_target (compute_crossing [hd_monitor] Right 100 5000)"
    "cross_x (compute_crossing [hd_monitor] Right 100 5000) = min_x (compute_bounds [hd_monitor])"
    "cross_y (compute_crossing [hd_monitor] Right 100 5000) \<le> max_y (compute_bounds [hd_monitor])" by auto
  moreover have "max_y (compute_bounds [hd_monitor]) = 1080"
    by (simp add: compute_bounds_def extend_bounds_def empty_bounds_def hd_monitor_def int32_max_def int32_min_def)
  ultimately show ?thesis by simp
qed

text \<open>The part of Master's edge, seen from the stored entry, that faces the peer's cluster.\<close>

definition facing :: "cluster_bounds \<Rightarrow> cluster_bounds \<Rightarrow> arrangement_entry \<Rightarrow> int \<Rightarrow> bool" where
  "facing mb pb e p \<longleftrightarrow>
     (if horizontal (entry_direction e)
      then entry_offset e \<le> p \<and> p \<le> entry_offset e + (max_y pb - min_y pb) \<and> min_y mb \<le> p \<and> p \<le> max_y mb
      else entry_offset e \<le> p \<and> p \<le> entry_offset e + (max_x pb - min_x pb) \<and> min_x mb \<le> p \<and> p \<le> max_x mb)"

text \<open>
  The derived inverse entry is right: crossing out at position \<open>p\<close> of the shared edge and
  crossing straight back through \<^verbatim>\<open>invert_entry\<close> lands on Master's own edge at \<open>p\<close> again; inverting
  twice gives the stored entry.
\<close>

theorem crossing_round_trip:
  assumes "master \<noteq> []" "peer \<noteq> []" "facing mb pb e p"
    and "mb = compute_bounds master" "pb = compute_bounds peer"
    and "out = compute_crossing peer (entry_direction e) (entry_offset e) p"
    and "ret = invert_entry e mb pb"
    and "back = compute_crossing master (entry_direction ret) (entry_offset ret)
                  (if horizontal (entry_direction e) then cross_y out else cross_x out)"
  shows "(if horizontal (entry_direction e) then cross_y back else cross_x back) = p \<and>
    (case entry_direction e of Right \<Rightarrow> cross_x back = max_x mb | Left \<Rightarrow> cross_x back = min_x mb
       | Down \<Rightarrow> cross_y back = max_y mb | Up \<Rightarrow> cross_y back = min_y mb) \<and>
    invert_entry ret pb mb = e"
proof -
  note there = compute_crossing_eqs [OF assms(2,5), of "entry_direction e" "entry_offset e" p]
  note home = compute_crossing_eqs [OF assms(1,4), of "entry_direction ret" "entry_offset ret"
      "if horizontal (entry_direction e) then cross_y out else cross_x out"]
  have "invert_entry ret pb mb = e" unfolding assms(7) by (simp add: invert_entry_def)
  moreover have "(if horizontal (entry_direction e) then cross_y back else cross_x back) = p"
    using assms(3) unfolding assms(8) home(2,3) unfolding assms(6,7) there(2,3)
    by (auto simp: facing_def invert_entry_def split: if_splits)
  moreover have "case entry_direction e of Right \<Rightarrow> cross_x back = max_x mb | Left \<Rightarrow> cross_x back = min_x mb
       | Down \<Rightarrow> cross_y back = max_y mb | Up \<Rightarrow> cross_y back = min_y mb"
    by (cases "entry_direction e")
      (simp_all add: assms(7,8) invert_entry_def compute_crossing_eqs [OF assms(1,4)])
  ultimately show ?thesis by blast
qed

theorem crossing_round_trip_witness:
  "cross_y (compute_crossing [hd_monitor] Left (- 100)
      (cross_y (compute_crossing [hd_monitor] Right 100 600))) = 600"
proof -
  let ?e = "\<lparr>entry_device = 1, entry_direction = Right, entry_offset = 100\<rparr>"
  let ?b = "compute_bounds [hd_monitor]"
  have b: "?b = \<lparr>min_x = 0, max_x = 1920, min_y = 0, max_y = 1080\<rparr>"
    by (simp add: compute_bounds_def extend_bounds_def empty_bounds_def hd_monitor_def int32_max_def int32_min_def)
  have "facing ?b ?b ?e 600" by (simp add: b facing_def)
  from crossing_round_trip [OF _ _ this refl refl refl refl refl]
  show ?thesis unfolding b by (simp add: invert_entry_def)
qed

section \<open>Boundary check\<close>

text \<open>
  \<^verbatim>\<open>check_boundary\<close> reports a crossing exactly when the position is on or beyond an edge, the
  edge it reports is one the position reached (a horizontal one if there is any), the clamped
  position is inside, and it equals the position itself when nothing was exceeded.
\<close>

theorem check_boundary_correct:
  assumes "proper_bounds b" "r = check_boundary junk b x y"
  shows "(crossed r \<longleftrightarrow> x \<le> min_x b \<or> max_x b \<le> x \<or> y \<le> min_y b \<or> max_y b \<le> y) \<and>
    (crossed r \<longrightarrow> (case bc_direction r of Left \<Rightarrow> x \<le> min_x b | Right \<Rightarrow> max_x b \<le> x
       | Up \<Rightarrow> y \<le> min_y b \<and> min_x b < x \<and> x < max_x b
       | Down \<Rightarrow> max_y b \<le> y \<and> min_x b < x \<and> x < max_x b) \<and>
       perp_pos r = (if horizontal (bc_direction r) then clamped_y r else clamped_x r)) \<and>
    min_x b \<le> clamped_x r \<and> clamped_x r \<le> max_x b \<and> min_y b \<le> clamped_y r \<and> clamped_y r \<le> max_y b \<and>
    (min_x b \<le> x \<and> x \<le> max_x b \<longrightarrow> clamped_x r = x) \<and> (min_y b \<le> y \<and> y \<le> max_y b \<longrightarrow> clamped_y r = y)"
  using assms by (auto simp: check_boundary_def Let_def proper_bounds_def clamp_def)

theorem check_boundary_correct_witness:
  "crossed (check_boundary Up (compute_bounds [hd_monitor]) 1925 500) \<and>
   clamped_x (check_boundary Up (compute_bounds [hd_monitor]) 1925 500) \<le> 1920"
proof -
  have b: "compute_bounds [hd_monitor] = \<lparr>min_x = 0, max_x = 1920, min_y = 0, max_y = 1080\<rparr>"
    by (simp add: compute_bounds_def extend_bounds_def empty_bounds_def hd_monitor_def int32_max_def int32_min_def)
  then have "proper_bounds (compute_bounds [hd_monitor])" by (simp add: proper_bounds_def)
  from check_boundary_correct [OF this refl, of Up 1925 500] show ?thesis by (auto simp: b)
qed

section \<open>No signed overflow\<close>

text \<open>Every intermediate \<^verbatim>\<open>int32_t\<close> of \<^verbatim>\<open>compute_bounds\<close>, \<^verbatim>\<open>compute_crossing\<close> and
  \<^verbatim>\<open>invert_entry\<close>.\<close>

definition crossing_values :: "monitor_info list \<Rightarrow> cluster_bounds \<Rightarrow> cluster_bounds \<Rightarrow> int \<Rightarrow> int \<Rightarrow> int list" where
  "crossing_values ms mb b offset p =
     concat (map (\<lambda>m. [mon_x m + mon_width m, mon_y m + mon_height m]) ms) @
     [max_y b - min_y b, offset + (max_y b - min_y b),
      clamp p offset (offset + (max_y b - min_y b)) - offset,
      clamp p offset (offset + (max_y b - min_y b)) - offset + min_y b,
      max_x b - min_x b, offset + (max_x b - min_x b),
      clamp p offset (offset + (max_x b - min_x b)) - offset,
      clamp p offset (offset + (max_x b - min_x b)) - offset + min_x b,
      min_y b + min_y mb, min_y b + min_y mb - offset,
      min_x b + min_x mb, min_x b + min_x mb - offset]"

definition within :: "int \<Rightarrow> int \<Rightarrow> bool" where
  "within n x \<longleftrightarrow> - n \<le> x \<and> x \<le> n"

text \<open>
  If every monitor edge and the stored offset are within plus or minus \<open>2\<^sup>2\<^sup>8\<close> pixels, no addition or
  subtraction of the crossing computation leaves the \<^verbatim>\<open>int32_t\<close> range.
\<close>

theorem no_crossing_overflow:
  assumes "ms \<noteq> []" "master \<noteq> []"
    and "\<forall>m \<in> set ms \<union> set master. 0 \<le> mon_width m \<and> 0 \<le> mon_height m \<and> within (2 ^ 28) (mon_x m) \<and>
       within (2 ^ 28) (mon_y m) \<and> within (2 ^ 28) (mon_x m + mon_width m) \<and> within (2 ^ 28) (mon_y m + mon_height m)"
    and "within (2 ^ 28) offset"
  shows "list_all in_i32 (crossing_values ms (compute_bounds master) (compute_bounds ms) offset p)"
proof -
  have edges: "proper_bounds (compute_bounds l) \<and> within (2 ^ 28) (min_x (compute_bounds l)) \<and>
      within (2 ^ 28) (min_y (compute_bounds l)) \<and> within (2 ^ 28) (max_x (compute_bounds l)) \<and>
      within (2 ^ 28) (max_y (compute_bounds l))"
    if l: "l \<noteq> []" "set l \<subseteq> set ms \<union> set master" for l
  proof -
    have w: "\<forall>m \<in> set l. well_placed m"
      using assms(3) l(2) by (force simp: well_placed_def in_i32_def within_def)
    have ex: "Min (mon_x ` set l) \<in> mon_x ` set l" "Min (mon_y ` set l) \<in> mon_y ` set l"
      "Max ((\<lambda>m. mon_x m + mon_width m) ` set l) \<in> (\<lambda>m. mon_x m + mon_width m) ` set l"
      "Max ((\<lambda>m. mon_y m + mon_height m) ` set l) \<in> (\<lambda>m. mon_y m + mon_height m) ` set l"
      using l(1) by (auto intro!: Min_in Max_in)
    then show ?thesis
      using assms(3) l(2) proper_compute_bounds [OF l(1) w]
      unfolding compute_bounds_is_bounding_box [OF l(1) w] by auto
  qed
  have mon: "list_all in_i32 (concat (map (\<lambda>m. [mon_x m + mon_width m, mon_y m + mon_height m]) ms))"
    using assms(3) by (force simp: list_all_iff within_def in_i32_def)
  from edges [OF assms(1)] edges [OF assms(2)] assms(4) show ?thesis
    unfolding crossing_values_def list_all_append using mon
    by (auto simp: within_def in_i32_def clamp_def proper_bounds_def)
qed

theorem no_crossing_overflow_witness:
  "list_all in_i32 (crossing_values [side_monitor] (compute_bounds [hd_monitor])
     (compute_bounds [side_monitor]) (- 300) 2147483647)"
  by (rule no_crossing_overflow) (auto simp: hd_monitor_def side_monitor_def within_def)

end
