(* ===== verification/MonitorProtocol.thy ===== *)
theory MonitorProtocol
  imports InputProtocol Topology
begin

text \<open>
  The monitor list message of \<^verbatim>\<open>src/discovery/monitor_protocol.cpp\<close>: a count and, per monitor, a
  fixed record of 18 bytes followed by the name. The decoder keeps the byte offset it has reached,
  as the code does.
\<close>

definition kMaxMonitors :: nat where "kMaxMonitors = 32"
definition kMaxNameLen :: nat where "kMaxNameLen = 32"
definition kFixedRecordLen :: nat where "kFixedRecordLen = 4 * 4 + 1 + 1"

lemmas monitor_layout = kMaxMonitors_def kMaxNameLen_def kFixedRecordLen_def

definition encode_monitor :: "monitor_info \<Rightarrow> bytes" where
  "encode_monitor m =
     (let name_len = min (length (mon_name m)) kMaxNameLen in
      write_i32 (mon_x m) @ write_i32 (mon_y m) @ write_i32 (mon_width m) @ write_i32 (mon_height m) @
      [bool_byte_of (mon_primary m), of_nat name_len] @ take name_len (mon_name m))"

definition encode_monitor_list :: "monitor_info list \<Rightarrow> bytes" where
  "encode_monitor_list monitors =
     (let count = min (length monitors) kMaxMonitors in
      of_nat count # concat (map encode_monitor (take count monitors)))"

fun decode_monitors :: "bytes \<Rightarrow> nat \<Rightarrow> nat \<Rightarrow> monitor_info list option" where
  "decode_monitors data 0 offset = Some []"
| "decode_monitors data (Suc n) offset =
     (if offset + kFixedRecordLen > length data then None
      else let name_len = unat (data ! (offset + 17)); offset' = offset + kFixedRecordLen in
        if offset' + name_len > length data then None
        else let m = \<lparr>mon_x = read_i32 (drop offset data), mon_y = read_i32 (drop (offset + 4) data),
                      mon_width = read_i32 (drop (offset + 8) data),
                      mon_height = read_i32 (drop (offset + 12) data),
                      mon_primary = data ! (offset + 16) \<noteq> 0,
                      mon_name = take name_len (drop offset' data)\<rparr>
          in map_option ((#) m) (decode_monitors data n (offset' + name_len)))"

definition decode_monitor_list :: "bytes \<Rightarrow> monitor_info list option" where
  "decode_monitor_list data =
     (if length data < 1 then None else decode_monitors data (unat (data ! 0)) 1)"

section \<open>Lemmas\<close>

definition i32_monitor :: "monitor_info \<Rightarrow> bool" where
  "i32_monitor m \<longleftrightarrow> in_i32 (mon_x m) \<and> in_i32 (mon_y m) \<and> in_i32 (mon_width m) \<and> in_i32 (mon_height m)"

definition trim_name :: "monitor_info \<Rightarrow> monitor_info" where
  "trim_name m = m\<lparr>mon_name := take kMaxNameLen (mon_name m)\<rparr>"

lemma length_encode_monitor: "length (encode_monitor m) = 18 + min (length (mon_name m)) 32"
  by (simp add: encode_monitor_def Let_def kMaxNameLen_def)

lemma unat_small_byte [simp]: "unat (of_nat (min n 32) :: byte) = min n 32"
  by (simp add: unat_of_nat min_def)

lemma encode_monitor_bytes:
  "(encode_monitor m @ r) ! 16 = bool_byte_of (mon_primary m)"
  "(encode_monitor m @ r) ! 17 = of_nat (min (length (mon_name m)) 32)"
  by (simp_all add: encode_monitor_def Let_def nth_append kMaxNameLen_def)

lemma decode_monitor_step:
  assumes "i32_monitor m" "length pre = offset"
  shows "decode_monitors (pre @ encode_monitor m @ r) (Suc n) offset =
    map_option ((#) (trim_name m))
      (decode_monitors (pre @ encode_monitor m @ r) n (offset + length (encode_monitor m)))"
proof -
  let ?d = "pre @ encode_monitor m @ r"
  have nl: "?d ! (offset + 17) = of_nat (min (length (mon_name m)) 32)"
    "?d ! (offset + 16) = bool_byte_of (mon_primary m)"
    using assms(2) encode_monitor_bytes [of m r] by (simp_all add: nth_append)
  have dr: "drop (offset + k) ?d = drop k (encode_monitor m @ r)" for k
    using assms(2) by simp
  have fields: "read_i32 (drop offset ?d) = mon_x m" "read_i32 (drop (offset + 4) ?d) = mon_y m"
    "read_i32 (drop (offset + 8) ?d) = mon_width m" "read_i32 (drop (offset + 12) ?d) = mon_height m"
    using assms unfolding dr dr [of 0, simplified]
    by (simp_all add: encode_monitor_def Let_def i32_monitor_def)
  have name: "take (unat (?d ! (offset + 17))) (drop (offset + kFixedRecordLen) ?d) = take 32 (mon_name m)"
    unfolding dr nl unat_small_byte by (simp add: encode_monitor_def Let_def monitor_layout min_def)
  have parsed: "\<lparr>mon_x = read_i32 (drop offset ?d), mon_y = read_i32 (drop (offset + 4) ?d),
      mon_width = read_i32 (drop (offset + 8) ?d), mon_height = read_i32 (drop (offset + 12) ?d),
      mon_primary = ?d ! (offset + 16) \<noteq> 0,
      mon_name = take (unat (?d ! (offset + 17))) (drop (offset + kFixedRecordLen) ?d)\<rparr> = trim_name m"
    unfolding fields name nl(2) by (simp add: trim_name_def kMaxNameLen_def)
  have fits: "\<not> offset + kFixedRecordLen > length ?d"
    "\<not> offset + kFixedRecordLen + min (length (mon_name m)) 32 > length ?d"
    using assms(2) by (simp_all add: length_encode_monitor kFixedRecordLen_def)
  show ?thesis
    unfolding decode_monitors.simps Let_def parsed
    unfolding nl unat_small_byte using fits by (simp add: length_encode_monitor kFixedRecordLen_def add.assoc)
qed

lemma decode_monitors_encode:
  assumes "list_all i32_monitor ms" "length pre = offset"
  shows "decode_monitors (pre @ concat (map encode_monitor ms) @ rest) (length ms) offset = Some (map trim_name ms)"
  using assms
proof (induction ms arbitrary: pre offset)
  case (Cons m ms)
  have "decode_monitors (pre @ encode_monitor m @ concat (map encode_monitor ms) @ rest) (length ms)
      (offset + length (encode_monitor m)) = Some (map trim_name ms)"
    using Cons.prems Cons.IH [of "pre @ encode_monitor m"] by simp
  with Cons.prems decode_monitor_step [of m pre offset "concat (map encode_monitor ms) @ rest" "length ms"]
  show ?case by (simp del: decode_monitors.simps)
qed simp

text \<open>A proper prefix of the records is rejected.\<close>

lemma decode_monitors_prefix:
  assumes "list_all i32_monitor ms" "length pre = offset" "length pre \<le> k"
    and "k < length pre + length (concat (map encode_monitor ms))"
    and "d = take k (pre @ concat (map encode_monitor ms))"
  shows "decode_monitors d (length ms) offset = None"
  using assms
proof (induction ms arbitrary: pre offset)
  case (Cons m ms)
  let ?r = "concat (map encode_monitor ms)"
  have d: "d = take k (pre @ encode_monitor m @ ?r)" using Cons.prems(5) by simp
  have len: "length d = k" using Cons.prems(4) d by simp
  show ?case
  proof (cases "k < offset + 18")
    case True
    with len show ?thesis by (simp add: monitor_layout)
  next
    case short: False
    have nl: "d ! (offset + 17) = of_nat (min (length (mon_name m)) 32)"
    proof -
      have "d ! (offset + 17) = (pre @ encode_monitor m @ ?r) ! (offset + 17)"
        unfolding d using short by (intro nth_take) simp
      also have "\<dots> = (encode_monitor m @ ?r) ! 17"
        unfolding Cons.prems(2) [symmetric] by (rule nth_append_length_plus)
      finally show ?thesis by (simp only: encode_monitor_bytes)
    qed
    show ?thesis
    proof (cases "k < offset + length (encode_monitor m)")
      case True
      with len nl short show ?thesis by (simp add: monitor_layout Let_def length_encode_monitor)
    next
      case False
      then have d': "d = pre @ encode_monitor m @ take (k - offset - length (encode_monitor m)) ?r"
        unfolding d using Cons.prems(2) by simp
      have "decode_monitors d (length ms) (offset + length (encode_monitor m)) = None"
        using Cons.prems False d
        by (intro Cons.IH [of "pre @ encode_monitor m"]) (simp_all add: Cons.prems(5))
      then show ?thesis
        unfolding d' using Cons.prems(1,2) by (simp add: decode_monitor_step del: decode_monitors.simps)
    qed
  qed
qed simp

text \<open>The codec contract: any monitor list whose numbers fit \<^verbatim>\<open>int32_t\<close>, with at most 32 monitors and
  names of at most 32 bytes.\<close>

definition sendable_monitors :: "monitor_info list \<Rightarrow> bool" where
  "sendable_monitors ms \<longleftrightarrow> length ms \<le> kMaxMonitors \<and>
     list_all (\<lambda>m. i32_monitor m \<and> length (mon_name m) \<le> kMaxNameLen) ms"

lemma take_min: "take (min (length xs) n) xs = take n xs"
  by (simp add: min_def)

lemma decode_encode_monitor_list:
  assumes "list_all i32_monitor ms"
  shows "decode_monitor_list (encode_monitor_list ms @ rest) = Some (map trim_name (take kMaxMonitors ms))"
proof -
  have "list_all i32_monitor (take 32 ms)"
    using assms by (auto simp: list_all_iff dest: in_set_takeD)
  from decode_monitors_encode [OF this, of "[of_nat (min (length ms) 32)]" 1 rest]
  show ?thesis
    by (simp add: decode_monitor_list_def encode_monitor_list_def kMaxMonitors_def Let_def
        take_min min.commute)
qed

interpretation monitor_list: wire_codec encode_monitor_list decode_monitor_list sendable_monitors
proof
  fix ms rest assume v: "sendable_monitors ms"
  have "map trim_name ms = ms"
    using v by (intro map_idI) (auto simp: sendable_monitors_def list_all_iff trim_name_def)
  then show "decode_monitor_list (encode_monitor_list ms @ rest) = Some ms"
    using v decode_encode_monitor_list [of ms rest]
    by (simp add: sendable_monitors_def list_all_iff)
qed

text \<open>
  The monitor list a peer decodes is the one that was sent, cut to 32 monitors and 32-byte names,
  whatever follows it in the message; a message that breaks off anywhere inside the list is rejected.
\<close>

theorem monitor_list_roundtrip:
  assumes "list_all i32_monitor ms"
  shows "decode_monitor_list (encode_monitor_list ms @ rest) = Some (map trim_name (take kMaxMonitors ms)) \<and>
    (k < length (encode_monitor_list ms) \<longrightarrow> decode_monitor_list (take k (encode_monitor_list ms)) = None)"
proof (intro conjI impI)
  show "decode_monitor_list (encode_monitor_list ms @ rest) = Some (map trim_name (take kMaxMonitors ms))"
    by (rule decode_encode_monitor_list [OF assms])
  assume k: "k < length (encode_monitor_list ms)"
  have i32: "list_all i32_monitor (take 32 ms)"
    using assms by (auto simp: list_all_iff dest: in_set_takeD)
  have e: "encode_monitor_list ms = of_nat (min (length ms) 32) # concat (map encode_monitor (take 32 ms))"
    by (simp add: encode_monitor_list_def Let_def kMaxMonitors_def take_min)
  show "decode_monitor_list (take k (encode_monitor_list ms)) = None"
  proof (cases k)
    case 0
    then show ?thesis by (simp add: decode_monitor_list_def)
  next
    case (Suc j)
    have "decode_monitors (take k (encode_monitor_list ms)) (length (take 32 ms)) 1 = None"
      using k Suc by (intro decode_monitors_prefix [OF i32, of "[of_nat (min (length ms) 32)]" 1 k]) (simp_all add: e)
    with Suc show ?thesis by (simp add: decode_monitor_list_def e min.commute)
  qed
qed

theorem monitor_list_roundtrip_witness:
  "decode_monitor_list (encode_monitor_list
     [\<lparr>mon_x = -1920, mon_y = 0, mon_width = 1920, mon_height = 1080, mon_primary = True, mon_name = [68]\<rparr>] @ [9]) =
   Some [\<lparr>mon_x = -1920, mon_y = 0, mon_width = 1920, mon_height = 1080, mon_primary = True, mon_name = [68]\<rparr>]"
proof -
  let ?m = "\<lparr>mon_x = -1920, mon_y = 0, mon_width = 1920, mon_height = 1080, mon_primary = True, mon_name = [68]\<rparr>"
  have "list_all i32_monitor [?m]" by (simp add: i32_monitor_def in_i32_def)
  from monitor_list_roundtrip [OF this, of "[9]" 0]
  show ?thesis by (simp add: trim_name_def monitor_layout)
qed

end
