(* ===== verification/Connection.thy ===== *)
theory Connection
  imports MonitorProtocol DiscoveryProtocol ControlProtocol
begin

text \<open>
  The connection status both ends publish (\<^verbatim>\<open>include/nockvm/discovery/connection_types.h\<close>).
\<close>

datatype connection_state = Idle_state | Connecting | Pairing | Connected | Failed

record connection_info =
  ci_state :: connection_state
  ci_peer :: u64
  ci_peer_ip :: bytes
  ci_fingerprint :: string
  ci_monitors :: "monitor_info list"
  ci_audio_key :: bytes
  ci_audio_port :: u16
  ci_audio_send_enabled :: bool
  ci_audio_rate :: u32
  ci_audio_depth :: byte
  ci_control_received :: bool
  ci_requested_enabled :: bool
  ci_requested_rate :: u32
  ci_requested_depth :: byte
  ci_control_seq :: u32
  ci_go_away :: bool
  ci_rtt :: int

text \<open>\<^verbatim>\<open>ConnectionInfo{}\<close>, and \<^verbatim>\<open>ConnectionInfo{state, peer, ip, fingerprint, {}}\<close> with the
  defaults for the other members.\<close>

definition no_connection :: connection_info where
  "no_connection =
     \<lparr>ci_state = Idle_state, ci_peer = 0, ci_peer_ip = [], ci_fingerprint = [], ci_monitors = [],
      ci_audio_key = replicate 32 0, ci_audio_port = 0, ci_audio_send_enabled = False, ci_audio_rate = 0,
      ci_audio_depth = 16, ci_control_received = False, ci_requested_enabled = True,
      ci_requested_rate = 48000, ci_requested_depth = 16, ci_control_seq = 0, ci_go_away = False, ci_rtt = - 1\<rparr>"

definition connection_at :: "connection_state \<Rightarrow> u64 \<Rightarrow> bytes \<Rightarrow> string \<Rightarrow> connection_info" where
  "connection_at st peer ip fingerprint =
     no_connection\<lparr>ci_state := st, ci_peer := peer, ci_peer_ip := ip, ci_fingerprint := fingerprint\<rparr>"

lemmas connection_defs = no_connection_def connection_at_def

end
