(* ===== verification/ClipboardSync.thy ===== *)
theory ClipboardSync
  imports ControlProtocol Connection
begin

text \<open>
  Clipboard synchronisation, \<^verbatim>\<open>src/app/clipboard_pump.cpp\<close>: content received from the peer is put on
  the system's clipboard, new local content is sent, at most one look per second. What the program
  applied itself must not be sent back. The system's clipboard is the interface of
  \<^verbatim>\<open>include/nockvm/clipboard/clipboard.h\<close>, which the program implements twice.
\<close>

section \<open>Content and the interface to the system\<close>

datatype content_type = TextContent | JpegContent

record clipboard_content =
  cc_type :: content_type
  cc_data :: bytes

record 'os clipboard_api =
  api_read :: "'os \<Rightarrow> clipboard_content option \<times> 'os"
  api_changed :: "'os \<Rightarrow> bool \<times> 'os"
  api_write :: "clipboard_content \<Rightarrow> 'os \<Rightarrow> 'os"
  api_pump :: "'os \<Rightarrow> 'os"

section \<open>The pump\<close>

text \<open>The content is remembered only while the \<open>valid\<close> flag next to it is set, here an option; the two
  counters are those of the telemetry.\<close>

record clip_sync =
  cy_last_seen :: "clipboard_content option"
  cy_last_applied :: "clipboard_content option"
  cy_last_check :: int
  cy_received :: u64
  cy_sent :: u64

definition clip_init :: clip_sync where
  "clip_init = \<lparr>cy_last_seen = None, cy_last_applied = None, cy_last_check = 0, cy_received = 0, cy_sent = 0\<rparr>"

text \<open>What a frame brings: the status of the connection object, if there is one, the message it has
  pending, and the time.\<close>

record clip_frame =
  cf_status :: "connection_info option"
  cf_pending :: "clipboard_message option"
  cf_now :: int

definition kPollInterval :: int where "kPollInterval = 1000"

definition content_of :: "clipboard_message \<Rightarrow> clipboard_content" where
  "content_of m = \<lparr>cc_type = (if clip_type m = ClipText then TextContent else JpegContent), cc_data = clip_data m\<rparr>"

definition message_of :: "clipboard_content \<Rightarrow> byte \<times> bytes" where
  "message_of c = (if cc_type c = TextContent then kMsgClipboardText else kMsgClipboardImage, cc_data c)"

definition apply_and_track :: "'os clipboard_api \<Rightarrow> clipboard_content \<Rightarrow> clip_sync \<times> 'os \<Rightarrow> clip_sync \<times> 'os" where
  "apply_and_track api c = (\<lambda>(st, os).
     (st\<lparr>cy_received := cy_received st + 1, cy_last_applied := Some c, cy_last_seen := Some c\<rparr>, api_write api c os))"

definition forget_content :: "clip_sync \<Rightarrow> clip_sync" where
  "forget_content st = st\<lparr>cy_last_seen := None, cy_last_applied := None\<rparr>"

text \<open>The look at the local clipboard.\<close>

definition poll_clipboard :: "'os clipboard_api \<Rightarrow> int \<Rightarrow> clip_sync \<times> 'os \<Rightarrow> (byte \<times> bytes) list \<times> clip_sync \<times> 'os" where
  "poll_clipboard api now = (\<lambda>(st, os).
     if now - cy_last_check st < kPollInterval then ([], st, os)
     else
       (let st1 = st\<lparr>cy_last_check := now\<rparr>; (changed, os1) = api_changed api os
        in if \<not> changed then ([], st1, os1)
           else case api_read api os1 of
             (None, os2) \<Rightarrow> ([], st1, os2)
           | (Some c, os2) \<Rightarrow>
               if cy_last_seen st1 = Some c then ([], st1, os2)
               else
                 (let st2 = st1\<lparr>cy_last_seen := Some c\<rparr>
                  in if cy_last_applied st2 = Some c then ([], st2, os2)
                     else ([message_of c], st2\<lparr>cy_sent := cy_sent st2 + 1\<rparr>, os2))))"

definition sync_clipboard :: "'os clipboard_api \<Rightarrow> bool \<Rightarrow> clip_frame \<Rightarrow> clip_sync \<times> 'os \<Rightarrow> (byte \<times> bytes) list \<times> clip_sync \<times> 'os" where
  "sync_clipboard api connected f = (\<lambda>(st, os).
     if \<not> connected then ([], forget_content st, os)
     else poll_clipboard api (cf_now f)
            (case cf_pending f of None \<Rightarrow> (st, os) | Some m \<Rightarrow> apply_and_track api (content_of m) (st, os)))"

definition pump_clipboard :: "'os clipboard_api \<Rightarrow> clip_frame \<Rightarrow> clip_sync \<times> 'os \<Rightarrow> (byte \<times> bytes) list \<times> clip_sync \<times> 'os" where
  "pump_clipboard api f = (\<lambda>(st, os).
     let os1 = api_pump api os in
     case cf_status f of
       None \<Rightarrow> ([], forget_content st, os1)
     | Some info \<Rightarrow> sync_clipboard api (ci_state info = Connected) f (st, os1))"

text \<open>A run: before each frame the rest of the system acts on the clipboard. The messages of each frame.\<close>

fun clip_run :: "'os clipboard_api \<Rightarrow> (('os \<Rightarrow> 'os) \<times> clip_frame) list \<Rightarrow> clip_sync \<times> 'os \<Rightarrow>
    (byte \<times> bytes) list \<times> clip_sync \<times> 'os" where
  "clip_run api [] s = ([], s)"
| "clip_run api ((act, f) # fs) (st, os) =
     (let (ms, s1) = pump_clipboard api f (st, act os); (rest, s2) = clip_run api fs s1
      in (ms @ rest, s2))"

definition connected_frame_of :: "clip_frame \<Rightarrow> bool" where
  "connected_frame_of f \<longleftrightarrow> (\<exists>info. cf_status f = Some info \<and> ci_state info = Connected)"

lemma message_of_inj [simp]: "message_of c = message_of c' \<longleftrightarrow> c = c'"
proof
  assume "message_of c = message_of c'"
  then have "cc_type c = TextContent \<longleftrightarrow> cc_type c' = TextContent" "cc_data c = cc_data c'"
    by (auto simp: message_of_def kMsgClipboardText_def kMsgClipboardImage_def split: if_splits)
  then show "c = c'" by (cases c; cases c') (auto intro: content_type.exhaust)
qed simp

section \<open>What the system must promise\<close>

text \<open>
  \<open>shows\<close> is the content a read yields when it succeeds; a write of \<open>good\<close> content makes it the content
  shown. \<open>ok\<close> is an invariant of the implementation.
\<close>

locale system_clipboard =
  fixes api :: "'os clipboard_api" and shows_content :: "'os \<Rightarrow> clipboard_content option"
    and good :: "clipboard_content \<Rightarrow> bool" and ok :: "'os \<Rightarrow> bool"
  assumes read_law: "ok os \<Longrightarrow> api_read api os = (r, os') \<Longrightarrow>
      (\<forall>c. r = Some c \<longrightarrow> shows_content os = Some c) \<and> shows_content os' = shows_content os \<and> ok os'"
    and changed_law: "ok os \<Longrightarrow> api_changed api os = (b, os') \<Longrightarrow> shows_content os' = shows_content os \<and> ok os'"
    and write_law: "ok os \<Longrightarrow> good c \<Longrightarrow> shows_content (api_write api c os) = Some c \<and> ok (api_write api c os)"
    and pump_law: "ok os \<Longrightarrow> shows_content (api_pump api os) = shows_content os \<and> ok (api_pump api os)"
begin

text \<open>What is shown has been seen, or is one of the contents \<open>A\<close> that may be sent.\<close>

definition settled :: "clipboard_content set \<Rightarrow> clip_sync \<times> 'os \<Rightarrow> bool" where
  "settled A = (\<lambda>(st, os). ok os \<and> (\<forall>c. shows_content os = Some c \<longrightarrow> c \<in> A \<or> cy_last_seen st = Some c))"

definition allowed :: "clipboard_content set \<Rightarrow> ('os \<Rightarrow> 'os) \<times> clip_frame \<Rightarrow> bool" where
  "allowed A = (\<lambda>(act, f). connected_frame_of f \<and> (\<forall>m. cf_pending f = Some m \<longrightarrow> good (content_of m)) \<and>
     (\<forall>os. ok os \<longrightarrow> ok (act os) \<and> (shows_content (act os) = shows_content os \<or> shows_content (act os) = None \<or>
        (\<exists>c \<in> A. shows_content (act os) = Some c))))"

lemma settled_poll:
  assumes "settled A s" "poll_clipboard api now s = (ms, s')"
  shows "settled A s' \<and> set ms \<subseteq> message_of ` A"
proof -
  obtain st os where s: "s = (st, os)" by fastforce
  obtain b os1 where c: "api_changed api os = (b, os1)" by fastforce
  obtain r os2 where r: "api_read api os1 = (r, os2)" by fastforce
  have ok: "ok os" using assms(1) s by (simp add: settled_def)
  note c' = changed_law [OF ok c]
  then have ok1: "ok os1" by simp
  note r' = read_law [OF ok1 r]
  show ?thesis
    using assms s c r c' r'
    by (auto simp: poll_clipboard_def settled_def Let_def split: if_splits option.splits) metis+
qed

lemma settled_frame:
  assumes "settled A (st, os)" "allowed A (act, f)" "pump_clipboard api f (st, act os) = (ms, s')"
  shows "settled A s' \<and> set ms \<subseteq> message_of ` A"
proof -
  let ?os = "api_pump api (act os)"
  have ok: "ok os" using assms(1) by (simp add: settled_def)
  then have act: "ok (act os)" "shows_content (act os) = shows_content os \<or> shows_content (act os) = None \<or>
      (\<exists>c \<in> A. shows_content (act os) = Some c)" using assms(2) by (simp_all add: allowed_def)
  have s: "settled A (st, ?os)" using assms(1) act pump_law [OF act(1)] by (auto simp: settled_def)
  have poll: "poll_clipboard api (cf_now f)
      (case cf_pending f of None \<Rightarrow> (st, ?os) | Some m \<Rightarrow> apply_and_track api (content_of m) (st, ?os)) = (ms, s')"
    using assms(2,3) by (auto simp: pump_clipboard_def sync_clipboard_def allowed_def connected_frame_of_def Let_def)
  show ?thesis
  proof (cases "cf_pending f")
    case None
    with settled_poll [OF s] poll show ?thesis by simp
  next
    case (Some m)
    then have "good (content_of m)" using assms(2) by (simp add: allowed_def)
    with pump_law [OF act(1)] have "settled A (apply_and_track api (content_of m) (st, ?os))"
      using write_law by (simp add: settled_def apply_and_track_def)
    from settled_poll [OF this] poll Some show ?thesis by simp
  qed
qed

lemma sends_only_copies:
  assumes "settled A s" "list_all (allowed A) fs" "clip_run api fs s = (ms, s')"
  shows "set ms \<subseteq> message_of ` A"
  using assms
proof (induction fs arbitrary: s ms s')
  case (Cons e fs)
  obtain act f where e: "e = (act, f)" by fastforce
  obtain st os where s: "s = (st, os)" by fastforce
  obtain m1 s1 where f: "pump_clipboard api f (st, act os) = (m1, s1)" by (metis surj_pair)
  obtain m2 s2 where r: "clip_run api fs s1 = (m2, s2)" by (metis surj_pair)
  have a: "allowed A (act, f)" using Cons.prems(2) e by simp
  from settled_frame [OF Cons.prems(1) [unfolded s] a f] have "settled A s1" "set m1 \<subseteq> message_of ` A" by simp_all
  with Cons.IH [OF _ _ r] Cons.prems e s f r show ?case by (auto simp: Let_def)
qed simp

text \<open>New content is sent with the next look.\<close>

lemma copy_is_sent:
  assumes "ok os" "shows_content os = Some c" "cy_last_seen st \<noteq> Some c" "cy_last_applied st \<noteq> Some c"
    and "connected_frame_of f" "cf_pending f = None" "kPollInterval \<le> cf_now f - cy_last_check st"
    and "fst (api_changed api (api_pump api os))" "fst (api_read api (snd (api_changed api (api_pump api os)))) \<noteq> None"
  shows "\<exists>s'. pump_clipboard api f (st, os) = ([message_of c], s') \<and> cy_last_seen (fst s') = Some c"
proof -
  note p = pump_law [OF assms(1)]
  obtain b os1 where ch: "api_changed api (api_pump api os) = (b, os1)" by fastforce
  note c' = changed_law [OF conjunct2 [OF p] ch]
  obtain r os2 where r: "api_read api os1 = (r, os2)" by fastforce
  from read_law [OF conjunct2 [OF c'] r] have "r = Some c" using assms(2,9) p c' ch r by auto
  then show ?thesis
    using assms(3-8) ch r
    by (auto simp: pump_clipboard_def sync_clipboard_def poll_clipboard_def connected_frame_of_def Let_def)
qed

end

end
