(* ===== verification/ClipboardImage.thy ===== *)
theory ClipboardImage
  imports Prelude
begin

unbundle bit_operations_syntax

text \<open>
  Images on the clipboard: the device independent bitmaps that \<^verbatim>\<open>read_image\<close> and \<^verbatim>\<open>write_image\<close> of
  \<^verbatim>\<open>src/clipboard/clipboard.cpp\<close> (Windows) convert, and the quality search of
  \<^verbatim>\<open>src/clipboard/jpeg_codec.cpp\<close>. The JPEG coder itself (stb) is a parameter.
\<close>

section \<open>Pixels by channel mask\<close>

text \<open>\<^verbatim>\<open>while (!((mask >> shift) & 1)) ++shift\<close>; a shift by 32 is undefined, \<open>None\<close>.\<close>

function skip_zeros :: "u32 \<Rightarrow> nat \<Rightarrow> nat option" where
  "skip_zeros m shift =
     (if shift \<ge> 32 then None else if drop_bit shift m AND 1 \<noteq> 0 then Some shift else skip_zeros m (shift + 1))"
  by pat_completeness auto
termination by (relation "measure (\<lambda>(m, shift). 32 - shift)") auto

text \<open>\<^verbatim>\<open>while ((mask >> (shift + bits)) & 1) ++bits\<close>\<close>

function count_ones :: "u32 \<Rightarrow> nat \<Rightarrow> nat \<Rightarrow> nat option" where
  "count_ones m shift bits =
     (if shift + bits \<ge> 32 then None
      else if drop_bit (shift + bits) m AND 1 \<noteq> 0 then count_ones m shift (bits + 1) else Some bits)"
  by pat_completeness auto
termination by (relation "measure (\<lambda>(m, shift, bits). 32 - (shift + bits))") auto

declare skip_zeros.simps [simp del] count_ones.simps [simp del]

definition extract_channel :: "u32 \<Rightarrow> u32 \<Rightarrow> byte option" where
  "extract_channel pixel m =
     (if m = 0 then Some 0
      else case skip_zeros m 0 of
        None \<Rightarrow> None
      | Some shift \<Rightarrow>
          (case count_ones m shift 0 of
             None \<Rightarrow> None
           | Some bits \<Rightarrow>
               (let v = drop_bit shift (pixel AND m);
                    v' = (if bits < 8 then push_bit (8 - bits) v else if bits > 8 then drop_bit (bits - 8) v else v)
                in Some (ucast (v' AND 0xFF)))))"

lemma low_bit_test: "drop_bit n (m :: u32) AND 1 \<noteq> 0 \<longleftrightarrow> n < 32 \<and> bit m n"
proof -
  have "drop_bit n m AND 1 = (if bit m n then 1 else 0)"
    by (rule bit_word_eqI) (auto simp: bit_and_iff bit_drop_bit_eq bit_1_iff intro!: gr0I)
  moreover have "bit m n \<Longrightarrow> n < 32" using bit_imp_le_length [of m n] by simp
  ultimately show ?thesis by auto
qed

lemma skip_zeros_finds:
  assumes "bit m s" "\<And>i. i < s \<Longrightarrow> \<not> bit m i" "shift \<le> s" "s < 32"
  shows "skip_zeros m shift = Some s"
  using assms(3)
proof (induction "s - shift" arbitrary: shift)
  case 0
  then show ?case using assms by (subst skip_zeros.simps) (simp add: low_bit_test)
next
  case (Suc d)
  then show ?case using assms by (subst skip_zeros.simps) (simp add: low_bit_test)
qed

lemma count_ones_counts:
  assumes "\<And>i. i < n \<Longrightarrow> bit m (s + i)" "\<not> bit m (s + n)" "bits \<le> n" "s + n < 32"
  shows "count_ones m s bits = Some n"
  using assms(3)
proof (induction "n - bits" arbitrary: bits)
  case 0
  then show ?case using assms by (subst count_ones.simps) (simp add: low_bit_test)
next
  case (Suc d)
  then show ?case using assms by (subst count_ones.simps) (simp add: low_bit_test)
qed

lemma count_ones_undefined:
  assumes "\<And>i. s \<le> i \<Longrightarrow> i < 32 \<Longrightarrow> bit m i" "s + bits \<le> 32"
  shows "count_ones m s bits = None"
  using assms(2)
proof (induction "32 - (s + bits)" arbitrary: bits)
  case 0
  then show ?case by (subst count_ones.simps) simp
next
  case (Suc d)
  then show ?case using assms(1) by (subst count_ones.simps) (simp add: low_bit_test)
qed

text \<open>A channel of \<open>n\<close> bits from bit \<open>s\<close> on.\<close>

definition channel_mask :: "nat \<Rightarrow> nat \<Rightarrow> u32" where
  "channel_mask s n = push_bit s (mask n)"

lemma bit_channel_mask: "bit (channel_mask s n) i \<longleftrightarrow> s \<le> i \<and> i < s + n \<and> i < 32"
  by (auto simp: channel_mask_def bit_push_bit_iff bit_mask_iff)

text \<open>
  A channel of contiguous bits is read as its value scaled to eight bits, the highest bits kept,
  whatever the layout; but a channel that includes the highest bit of the pixel word makes the loop
  that counts its bits shift by 32, which C++ leaves undefined.
\<close>

theorem extract_channel_scales:
  assumes "0 < n" "s + n \<le> 32"
  shows "extract_channel pixel (channel_mask s n) =
    (if s + n = 32 then None
     else let v = take_bit n (drop_bit s pixel)
          in Some (ucast (if n \<le> 8 then push_bit (8 - n) v else drop_bit (n - 8) v)))"
proof -
  let ?m = "channel_mask s n"
  have s: "skip_zeros ?m 0 = Some s"
    by (rule skip_zeros_finds) (use assms in \<open>auto simp: bit_channel_mask\<close>)
  have m0: "?m \<noteq> 0" using assms bit_channel_mask [of s n s] by auto
  show ?thesis
  proof (cases "s + n = 32")
    case True
    have "count_ones ?m s 0 = None"
      by (rule count_ones_undefined) (use assms True in \<open>auto simp: bit_channel_mask\<close>)
    with True s m0 show ?thesis by (simp add: extract_channel_def)
  next
    case False
    have c: "count_ones ?m s 0 = Some n"
      by (rule count_ones_counts) (use assms False in \<open>auto simp: bit_channel_mask\<close>)
    let ?v = "take_bit n (drop_bit s pixel)"
    have v: "drop_bit s (pixel AND ?m) = ?v"
      by (rule bit_word_eqI)
        (use assms in \<open>auto simp: bit_drop_bit_eq bit_and_iff bit_channel_mask bit_take_bit_iff\<close>)
    have byte: "(ucast (x AND 0xFF) :: byte) = ucast x" for x :: u32
    proof -
      have w: "(0xFF :: u32) = mask 8" by (simp add: mask_eq_exp_minus_1)
      show ?thesis unfolding w by (rule bit_word_eqI) (auto simp: bit_simps)
    qed
    show ?thesis
      using False s c m0 v byte by (auto simp: extract_channel_def Let_def)
  qed
qed

theorem extract_channel_scales_witness:
  "extract_channel 0x00ABCDEF (channel_mask 16 8) = Some 0xAB \<and> extract_channel 0xFF000000 (channel_mask 24 8) = None"
  by (subst extract_channel_scales, simp, simp, subst extract_channel_scales, simp, simp) (simp add: Let_def)

section \<open>Device independent bitmaps\<close>

text \<open>Top-down rows of three bytes per pixel, as the JPEG coder takes and gives them.\<close>

record rgb_image =
  im_width :: nat
  im_height :: nat
  im_rgb :: bytes

definition image_ok :: "rgb_image \<Rightarrow> bool" where
  "image_ok im \<longleftrightarrow> length (im_rgb im) = im_width im * im_height im * 3"

datatype compression = BiRgb | BiBitfields | BiOther

text \<open>\<open>BITMAPINFOHEADER\<close> as far as it is used, and the memory from the end of the header on.\<close>

record dib =
  di_width :: nat
  di_height :: int
  di_bits :: nat
  di_compression :: compression
  di_memory :: bytes

definition stride_of :: "nat \<Rightarrow> nat \<Rightarrow> nat" where
  "stride_of width bytes_per_pixel = ((width * bytes_per_pixel + 3) div 4) * 4"

definition read_le32 :: "bytes \<Rightarrow> nat \<Rightarrow> u32" where
  "read_le32 b off =
     ucast (b ! off) OR push_bit 8 (ucast (b ! (off + 1))) OR push_bit 16 (ucast (b ! (off + 2))) OR
     push_bit 24 (ucast (b ! (off + 3)))"

text \<open>The pixel at \<open>off\<close> of a row in one of the two accepted layouts.\<close>

definition bitfield_pixel :: "bytes \<Rightarrow> bytes \<Rightarrow> nat \<Rightarrow> bytes option" where
  "bitfield_pixel memory pixels off =
     (let pixel = read_le32 pixels off in
      case (extract_channel pixel (read_le32 memory 0), extract_channel pixel (read_le32 memory 4),
            extract_channel pixel (read_le32 memory 8)) of
        (Some r, Some g, Some b) \<Rightarrow> Some [r, g, b]
      | _ \<Rightarrow> None)"

definition rgb_pixel :: "bytes \<Rightarrow> nat \<Rightarrow> bytes" where
  "rgb_pixel pixels off = [pixels ! (off + 2), pixels ! (off + 1), pixels ! off]"

text \<open>
  The conversion of \<^verbatim>\<open>read_image\<close>: \<open>Some None\<close> for a bitmap it skips, \<open>None\<close> where it would read beyond
  the memory or shift by 32.
\<close>

definition dib_to_rgb :: "dib \<Rightarrow> rgb_image option option" where
  "dib_to_rgb d =
     (let is_rgb = (di_compression d = BiRgb \<and> (di_bits d = 24 \<or> di_bits d = 32));
          is_bitfields32 = (di_compression d = BiBitfields \<and> di_bits d = 32)
      in if \<not> is_rgb \<and> \<not> is_bitfields32 then Some None
         else
           (let width = di_width d;
                top_down = di_height d < 0;
                height = nat \<bar>di_height d\<bar>;
                bpp = di_bits d div 8;
                src_stride = stride_of width bpp;
                pixels = drop (if is_bitfields32 then 12 else 0) (di_memory d);
                at = (\<lambda>y x. (if top_down then y else height - 1 - y) * src_stride + x * bpp);
                rows = map (\<lambda>y. map (\<lambda>x. if is_bitfields32 then bitfield_pixel (di_memory d) pixels (at y x)
                                            else Some (rgb_pixel pixels (at y x))) [0..<width]) [0..<height]
            in if length pixels < src_stride * height then None
               else map_option (\<lambda>px. Some \<lparr>im_width = width, im_height = height, im_rgb = concat px\<rparr>)
                      (sequence_options (concat rows))))"

text \<open>
  The bitmap that \<^verbatim>\<open>write_image\<close> puts on the clipboard: bottom-up, three bytes per pixel, rows filled up
  to a multiple of four bytes that are never written (\<open>junk\<close>).
\<close>

definition rgb_to_dib :: "byte \<Rightarrow> rgb_image \<Rightarrow> dib" where
  "rgb_to_dib junk im =
     (let width = im_width im; height = im_height im;
          dst_stride = stride_of width 3;
          row = (\<lambda>y. let src = drop (y * width * 3) (im_rgb im)
                      in concat (map (\<lambda>x. [src ! (x * 3 + 2), src ! (x * 3 + 1), src ! (x * 3)]) [0..<width]) @
                         replicate (dst_stride - width * 3) junk)
      in \<lparr>di_width = width, di_height = int height, di_bits = 24, di_compression = BiRgb,
          di_memory = concat (map (\<lambda>r. row (height - 1 - r)) [0..<height])\<rparr>)"

section \<open>Writing and reading back\<close>

lemma stride_ge: "width * n \<le> stride_of width n"
proof -
  have "width * n \<le> (width * n + 3) div 4 * 4" by presburger
  then show ?thesis by (simp add: stride_of_def)
qed

lemma concat_pixels:
  "length src = 3 * w \<Longrightarrow> concat (map (\<lambda>x. [src ! (x * 3), src ! (x * 3 + 1), src ! (x * 3 + 2)]) [0..<w]) = src"
proof (induction w arbitrary: src)
  case (Suc w)
  let ?f = "\<lambda>s x. [s ! (x * 3), s ! (x * 3 + 1), s ! (x * 3 + 2)]"
  have eq: "map (?f src) [0..<w] = map (?f (take (3 * w) src)) [0..<w]" using Suc.prems by simp
  have "length (take (3 * w) src) = 3 * w" using Suc.prems by simp
  then have 1: "concat (map (?f src) [0..<w]) = take (3 * w) src" unfolding eq by (rule Suc.IH)
  have 2: "drop (3 * w) src = ?f src w"
    using Suc.prems by (intro nth_equalityI) (auto simp: nth_Cons' less_Suc_eq numeral_3_eq_3 mult.commute)
  have "concat (map (?f src) [0..<Suc w]) = take (3 * w) src @ drop (3 * w) src" using 1 2 by simp
  then show ?case by simp
qed simp

lemma concat_row_slices:
  "length xs = s * h \<Longrightarrow> concat (map (\<lambda>y. take s (drop (y * s) xs)) [0..<h]) = xs"
proof (induction h arbitrary: xs)
  case (Suc h)
  have eq: "map (\<lambda>y. take s (drop (y * s) xs)) [0..<h] = map (\<lambda>y. take s (drop (y * s) (take (s * h) xs))) [0..<h]"
  proof (rule map_cong [OF refl])
    fix y assume "y \<in> set [0..<h]"
    then have "y * s + s \<le> h * s" by (metis Suc_leI add.commute atLeastLessThan_iff atLeastLessThan_upt mult_Suc mult_le_mono1)
    then have "s \<le> h * s - y * s" by simp
    then show "take s (drop (y * s) xs) = take s (drop (y * s) (take (s * h) xs))"
      by (simp add: drop_take min_def mult.commute)
  qed
  have "concat (map (\<lambda>y. take s (drop (y * s) xs)) [0..<h]) = take (s * h) xs"
    unfolding eq by (rule Suc.IH) (use Suc.prems in simp)
  moreover have "take s (drop (h * s) xs) = drop (h * s) xs" using Suc.prems by simp
  ultimately show ?case by (simp add: mult.commute)
qed simp

lemma length_triples: "length (concat (map (\<lambda>x. [a x, b x, c x]) [0..<w])) = 3 * w"
  by (induction w) simp_all

lemma dib_to_rgb_24:
  "dib_to_rgb \<lparr>di_width = w, di_height = int h, di_bits = 24, di_compression = BiRgb, di_memory = mem\<rparr> =
    (if length mem < stride_of w 3 * h then None
     else Some (Some \<lparr>im_width = w, im_height = h,
       im_rgb = concat (concat (map (\<lambda>y. map (\<lambda>x. rgb_pixel mem ((h - 1 - y) * stride_of w 3 + x * 3)) [0..<w]) [0..<h]))\<rparr>))"
proof -
  have "concat (map (\<lambda>y. map (\<lambda>x. Some (rgb_pixel mem ((h - 1 - y) * stride_of w 3 + x * 3))) [0..<w]) [0..<h]) =
      map Some (concat (map (\<lambda>y. map (\<lambda>x. rgb_pixel mem ((h - 1 - y) * stride_of w 3 + x * 3)) [0..<w]) [0..<h]))"
    unfolding map_concat map_map o_def by (rule refl)
  then show ?thesis unfolding dib_to_rgb_def by (simp add: Let_def)
qed

lemma dib_roundtrip:
  assumes "image_ok im"
  shows "dib_to_rgb (rgb_to_dib junk im) = Some (Some im)"
proof -
  let ?w = "im_width im" and ?h = "im_height im" and ?s = "stride_of (im_width im) 3"
  let ?src = "\<lambda>y. drop (y * ?w * 3) (im_rgb im)"
  let ?bgr = "\<lambda>y. concat (map (\<lambda>x. [?src y ! (x * 3 + 2), ?src y ! (x * 3 + 1), ?src y ! (x * 3)]) [0..<?w])"
  let ?row = "\<lambda>y. ?bgr y @ replicate (?s - ?w * 3) junk"
  let ?mem = "concat (map (\<lambda>r. ?row (?h - 1 - r)) [0..<?h])"
  have row: "length (?row y) = ?s" for y using stride_ge [of ?w 3] by (simp add: length_triples)
  have mem: "length ?mem = ?h * ?s" by (rule length_concat_rows) (rule row)
  have px: "rgb_pixel ?mem ((?h - 1 - y) * ?s + x * 3) =
      [?src y ! (x * 3), ?src y ! (x * 3 + 1), ?src y ! (x * 3 + 2)]" if "y < ?h" "x < ?w" for x y
  proof -
    have at: "?mem ! ((?h - 1 - y) * ?s + (x * 3 + k)) = ?bgr y ! (x * 3 + k)" if k: "k < 3" for k
    proof -
      have le: "x * 3 + k < ?w * 3" using \<open>x < ?w\<close> k by linarith
      have "?mem ! ((?h - 1 - y) * ?s + (x * 3 + k)) = ?row (?h - 1 - (?h - 1 - y)) ! (x * 3 + k)"
        by (rule nth_concat_rows [where f = "\<lambda>r. ?row (?h - 1 - r)", OF row])
          (use \<open>y < ?h\<close> le stride_ge [of ?w 3] in auto)
      also have "?h - 1 - (?h - 1 - y) = y" using \<open>y < ?h\<close> by simp
      also have "?row y ! (x * 3 + k) = ?bgr y ! (x * 3 + k)" using le by (simp add: nth_append length_triples)
      finally show ?thesis .
    qed
    have bgr: "?bgr y ! (x * 3 + k) = [?src y ! (x * 3 + 2), ?src y ! (x * 3 + 1), ?src y ! (x * 3)] ! k" if "k < 3" for k
      by (rule nth_concat_rows [where s = 3]) (use that \<open>x < ?w\<close> in auto)
    have v: "?mem ! ((?h - 1 - y) * ?s + (x * 3 + k)) = [?src y ! (x * 3 + 2), ?src y ! (x * 3 + 1), ?src y ! (x * 3)] ! k"
      if "k < 3" for k
      using at [OF that] bgr [OF that] by (rule trans)
    show ?thesis unfolding rgb_pixel_def add.assoc using v [of 0] v [of 1] v [of 2] by simp
  qed
  let ?line = "\<lambda>y. map (\<lambda>x. [?src y ! (x * 3), ?src y ! (x * 3 + 1), ?src y ! (x * 3 + 2)]) [0..<?w]"
  have lines: "map (\<lambda>y. map (\<lambda>x. rgb_pixel ?mem ((?h - 1 - y) * ?s + x * 3)) [0..<?w]) [0..<?h] = map ?line [0..<?h]"
    by (intro map_cong [OF refl] px) simp_all
  have line: "concat (?line y) = take (?w * 3) (?src y)" if "y < ?h" for y
  proof -
    have "Suc y * (?w * 3) \<le> ?h * (?w * 3)" by (rule mult_le_mono1) (use that in simp)
    then have len: "length (take (?w * 3) (?src y)) = 3 * ?w" using assms by (simp add: image_ok_def algebra_simps)
    have eq: "?line y = map (\<lambda>x. [take (?w * 3) (?src y) ! (x * 3), take (?w * 3) (?src y) ! (x * 3 + 1),
        take (?w * 3) (?src y) ! (x * 3 + 2)]) [0..<?w]"
      by (rule map_cong [OF refl]) simp
    show ?thesis unfolding eq by (rule concat_pixels [OF len])
  qed
  have "concat (concat (map ?line [0..<?h])) = concat (map (\<lambda>y. take (?w * 3) (?src y)) [0..<?h])"
    unfolding concat_concat map_map o_def
    by (rule arg_cong [where f = concat], rule map_cong [OF refl], rule line) simp
  also have "\<dots> = im_rgb im"
    using concat_row_slices [of "im_rgb im" "?w * 3" ?h] assms by (simp add: image_ok_def mult.assoc mult.commute mult.left_commute)
  finally have img: "concat (concat (map ?line [0..<?h])) = im_rgb im" .
  have "\<not> length ?mem < ?s * ?h" unfolding mem by (simp add: mult.commute)
  then show ?thesis unfolding rgb_to_dib_def Let_def dib_to_rgb_24 lines img by simp
qed

text \<open>
  C32. An image that the program itself put on the clipboard is read back pixel by pixel, whatever the
  padding bytes hold: row order, byte order and row length agree in both directions.
\<close>

theorem clipboard_image_roundtrip:
  assumes "image_ok im"
  shows "dib_to_rgb (rgb_to_dib junk im) = Some (Some im)"
  by (rule dib_roundtrip [OF assms])

definition demo_image :: rgb_image where
  "demo_image = \<lparr>im_width = 1, im_height = 2, im_rgb = [1, 2, 3, 4, 5, 6]\<rparr>"

theorem clipboard_image_roundtrip_witness:
  "dib_to_rgb (rgb_to_dib 7 demo_image) = Some (Some demo_image) \<and>
   di_memory (rgb_to_dib 7 demo_image) = [6, 5, 4, 7, 3, 2, 1, 7]"
proof -
  have "image_ok demo_image" by (simp add: image_ok_def demo_image_def)
  from clipboard_image_roundtrip [OF this] show ?thesis
    by (simp add: rgb_to_dib_def demo_image_def stride_of_def upt_rec numeral_2_eq_2)
qed

section \<open>The JPEG quality search\<close>

text \<open>The coder: \<open>jpeg_write\<close> at a quality, \<open>None\<close> when it fails; \<open>image_load\<close> of any format stb reads.\<close>

record image_coder =
  jpeg_write :: "rgb_image \<Rightarrow> int \<Rightarrow> bytes option"
  png_write :: "rgb_image \<Rightarrow> bytes"
  image_load :: "bytes \<Rightarrow> rgb_image option"

function encode_jpeg :: "image_coder \<Rightarrow> rgb_image \<Rightarrow> int \<Rightarrow> nat \<Rightarrow> bytes" where
  "encode_jpeg cd im q max_bytes =
     (if q \<ge> 20
      then (case jpeg_write cd im q of
              None \<Rightarrow> []
            | Some out \<Rightarrow> if length out \<le> max_bytes then out else encode_jpeg cd im (q - 15) max_bytes)
      else [])"
  by pat_completeness auto
termination by (relation "measure (\<lambda>(cd, im, q, m). nat q)") auto

declare encode_jpeg.simps [simp del]

definition kJpegQuality :: int where "kJpegQuality = 85"
definition kMaxJpegBytes :: nat where "kMaxJpegBytes = 6 * 1024 * 1024"

definition encode_png :: "image_coder \<Rightarrow> rgb_image \<Rightarrow> bytes" where
  "encode_png cd im = png_write cd im"

definition decode_jpeg :: "image_coder \<Rightarrow> bytes \<Rightarrow> rgb_image option" where
  "decode_jpeg cd data = image_load cd data"

text \<open>The reference: the first of the five qualities whose output fits, unless the coder failed before it.\<close>

definition first_fit :: "image_coder \<Rightarrow> rgb_image \<Rightarrow> nat \<Rightarrow> bytes" where
  "first_fit cd im max_bytes =
     (case dropWhile (\<lambda>r. case r of None \<Rightarrow> False | Some out \<Rightarrow> length out > max_bytes)
             (map (jpeg_write cd im) [85, 70, 55, 40, 25]) of
        Some out # _ \<Rightarrow> out
      | _ \<Rightarrow> [])"

text \<open>
  The search for a quality always ends, after at most five encodings, with the best of the qualities
  85, 70, 55, 40 and 25 whose output is small enough, or with nothing; what it returns never exceeds
  the limit, which leaves room for it in one frame of the secure channel.
\<close>

theorem encode_jpeg_first_fit:
  "encode_jpeg cd im kJpegQuality max_bytes = first_fit cd im max_bytes \<and>
   length (encode_jpeg cd im kJpegQuality max_bytes) \<le> max_bytes"
proof -
  have step: "encode_jpeg cd im q max_bytes = (if q \<ge> 20
      then (case jpeg_write cd im q of None \<Rightarrow> [] | Some out \<Rightarrow>
              if length out \<le> max_bytes then out else encode_jpeg cd im (q - 15) max_bytes) else [])" for q
    by (rule encode_jpeg.simps)
  have e25: "encode_jpeg cd im 25 max_bytes = (case jpeg_write cd im 25 of None \<Rightarrow> []
      | Some out \<Rightarrow> if length out \<le> max_bytes then out else [])"
    using step [of 25] step [of 10] by (simp cong: option.case_cong if_cong)
  have e: "encode_jpeg cd im kJpegQuality max_bytes = first_fit cd im max_bytes"
    using step [of 85] step [of 70] step [of 55] step [of 40] e25
    by (simp add: kJpegQuality_def first_fit_def split: option.splits)
  have "length (first_fit cd im max_bytes) \<le> max_bytes"
    by (auto simp: first_fit_def dropWhile_eq_Cons_conv split: list.split option.split)
  with e show ?thesis by simp
qed

end
