(* ===== verification/ClipboardWin.thy ===== *)
theory ClipboardWin
  imports ClipboardSync ClipboardImage
begin

text \<open>
  The clipboard of the Windows build, first half of \<^verbatim>\<open>src/clipboard/clipboard.cpp\<close>: the system keeps
  the data, so content is converted when it is written and converted back when it is read. The
  system's conversions between UTF-8 and wide strings are parameters.
\<close>

section \<open>State\<close>

text \<open>\<open>WideCharToMultiByte\<close> and \<open>MultiByteToWideChar\<close> on the part before the terminating zero; \<open>None\<close> when they fail.\<close>

record text_coder =
  to_utf8 :: "16 word list \<Rightarrow> bytes option"
  to_wide :: "bytes \<Rightarrow> 16 word list option"

text \<open>
  The formats present, the sequence number with the one seen last, how the system answers calls at the
  moment, the bytes found in memory that is never written, and whether a bitmap has been read beyond
  its end.
\<close>

record win =
  w_text :: "16 word list option"
  w_dib :: "dib option"
  w_seq :: u32
  w_last_seq :: u32
  w_opens :: bool
  w_allocates :: bool
  w_accepts :: bool
  w_junk :: byte
  w_undefined :: bool

section \<open>Reading\<close>

definition read_text :: "text_coder \<Rightarrow> win \<Rightarrow> clipboard_content option" where
  "read_text tc s =
     (case w_text s of
        None \<Rightarrow> None
      | Some wide \<Rightarrow> map_option (\<lambda>utf8. \<lparr>cc_type = TextContent, cc_data = utf8\<rparr>) (to_utf8 tc (takeWhile (\<lambda>u. u \<noteq> 0) wide)))"

definition read_image :: "image_coder \<Rightarrow> win \<Rightarrow> clipboard_content option \<times> win" where
  "read_image cd s =
     (case w_dib s of
        None \<Rightarrow> (None, s)
      | Some d \<Rightarrow>
          (case dib_to_rgb d of
             None \<Rightarrow> (None, s\<lparr>w_undefined := True\<rparr>)
           | Some None \<Rightarrow> (None, s)
           | Some (Some im) \<Rightarrow>
               (let jpeg = encode_jpeg cd im kJpegQuality kMaxJpegBytes
                in (if jpeg = [] then None else Some \<lparr>cc_type = JpegContent, cc_data = jpeg\<rparr>, s))))"

definition win_read :: "text_coder \<Rightarrow> image_coder \<Rightarrow> win \<Rightarrow> clipboard_content option \<times> win" where
  "win_read tc cd s =
     (if \<not> w_opens s then (None, s)
      else case read_text tc s of Some c \<Rightarrow> (Some c, s) | None \<Rightarrow> read_image cd s)"

definition win_changed :: "win \<Rightarrow> bool \<times> win" where
  "win_changed s = (if w_seq s = w_last_seq s then (False, s) else (True, s\<lparr>w_last_seq := w_seq s\<rparr>))"

section \<open>Writing\<close>

text \<open>Both changes are counted by the system.\<close>

definition empty_clipboard :: "win \<Rightarrow> win" where
  "empty_clipboard s = s\<lparr>w_text := None, w_dib := None, w_seq := w_seq s + 1\<rparr>"

definition write_text :: "text_coder \<Rightarrow> bytes \<Rightarrow> win \<Rightarrow> win" where
  "write_text tc utf8 s =
     (case to_wide tc (takeWhile (\<lambda>b. b \<noteq> 0) utf8) of
        None \<Rightarrow> s
      | Some wide \<Rightarrow>
          if \<not> w_allocates s then s
          else if \<not> w_opens s then s
          else (let s1 = empty_clipboard s
                in if w_accepts s1 then s1\<lparr>w_text := Some wide, w_seq := w_seq s1 + 1\<rparr> else s1))"

definition write_image :: "image_coder \<Rightarrow> bytes \<Rightarrow> win \<Rightarrow> win" where
  "write_image cd jpeg s =
     (case decode_jpeg cd jpeg of
        None \<Rightarrow> s
      | Some im \<Rightarrow>
          if \<not> w_allocates s then s
          else if \<not> w_opens s then s
          else (let s1 = empty_clipboard s
                in if w_accepts s1 then s1\<lparr>w_dib := Some (rgb_to_dib (w_junk s) im), w_seq := w_seq s1 + 1\<rparr> else s1))"

definition win_write :: "text_coder \<Rightarrow> image_coder \<Rightarrow> clipboard_content \<Rightarrow> win \<Rightarrow> win" where
  "win_write tc cd c s = (if cc_type c = TextContent then write_text tc (cc_data c) s else write_image cd (cc_data c) s)"

definition win_pump_events :: "win \<Rightarrow> win" where
  "win_pump_events s = s"

definition win_api :: "text_coder \<Rightarrow> image_coder \<Rightarrow> win clipboard_api" where
  "win_api tc cd = \<lparr>api_read = win_read tc cd, api_changed = win_changed, api_write = win_write tc cd,
     api_pump = win_pump_events\<rparr>"

section \<open>The clipboard contract\<close>

definition win_shows :: "text_coder \<Rightarrow> image_coder \<Rightarrow> win \<Rightarrow> clipboard_content option" where
  "win_shows tc cd s = (case read_text tc s of Some c \<Rightarrow> Some c | None \<Rightarrow> fst (read_image cd s))"

text \<open>Text without a zero byte that survives the two conversions, as valid UTF-8 does.\<close>

definition plain_text :: "text_coder \<Rightarrow> clipboard_content \<Rightarrow> bool" where
  "plain_text tc c \<longleftrightarrow> cc_type c = TextContent \<and> 0 \<notin> set (cc_data c) \<and>
     (\<exists>wide. to_wide tc (cc_data c) = Some wide \<and> 0 \<notin> set wide \<and> to_utf8 tc wide = Some (cc_data c))"

definition win_ok :: "win \<Rightarrow> bool" where
  "win_ok s \<longleftrightarrow> w_opens s \<and> w_allocates s \<and> w_accepts s"

lemma read_image_state:
  "read_image cd s = (r, s') \<Longrightarrow> s' = s \<or> s' = s\<lparr>w_undefined := True\<rparr>"
  by (auto simp: read_image_def Let_def split: option.splits)

lemma flags_irrelevant [simp]:
  "win_shows tc cd (s\<lparr>w_undefined := u\<rparr>) = win_shows tc cd s"
  "win_shows tc cd (s\<lparr>w_last_seq := n\<rparr>) = win_shows tc cd s"
  "win_ok (s\<lparr>w_undefined := u\<rparr>) = win_ok s"
  "win_ok (s\<lparr>w_last_seq := n\<rparr>) = win_ok s"
  by (simp_all add: win_shows_def read_text_def read_image_def win_ok_def Let_def split: option.split)

lemma takeWhile_all: "x \<notin> set xs \<Longrightarrow> takeWhile (\<lambda>u. u \<noteq> x) xs = xs"
  by (induction xs) auto

lemma win_read_eq:
  assumes "w_opens s" "win_read tc cd s = (r, s')"
  shows "r = win_shows tc cd s \<and> (s' = s \<or> s' = s\<lparr>w_undefined := True\<rparr>)"
  using assms read_image_state [of cd s] by (auto simp: win_read_def win_shows_def split: option.splits)

lemma win_write_shows:
  assumes "win_ok s" "plain_text tc c"
  shows "win_shows tc cd (win_write tc cd c s) = Some c \<and> win_ok (win_write tc cd c s)"
  using assms
  by (cases c) (auto simp: win_ok_def plain_text_def win_write_def write_text_def win_shows_def read_text_def
      empty_clipboard_def takeWhile_all Let_def)

interpretation win: system_clipboard "win_api tc cd" "win_shows tc cd" "plain_text tc" win_ok for tc cd
proof
  fix os r os' assume "win_ok os" "api_read (win_api tc cd) os = (r, os')"
  with win_read_eq [of os tc cd r os']
  show "(\<forall>c. r = Some c \<longrightarrow> win_shows tc cd os = Some c) \<and> win_shows tc cd os' = win_shows tc cd os \<and> win_ok os'"
    by (auto simp: win_api_def win_ok_def)
next
  fix os b os' assume "win_ok os" "api_changed (win_api tc cd) os = (b, os')"
  then show "win_shows tc cd os' = win_shows tc cd os \<and> win_ok os'"
    by (auto simp: win_api_def win_changed_def split: if_splits)
next
  fix os c assume "win_ok os" "plain_text tc c"
  then show "win_shows tc cd (api_write (win_api tc cd) c os) = Some c \<and> win_ok (api_write (win_api tc cd) c os)"
    using win_write_shows by (simp add: win_api_def)
next
  fix os assume "win_ok os"
  then show "win_shows tc cd (api_pump (win_api tc cd) os) = win_shows tc cd os \<and> win_ok (api_pump (win_api tc cd) os)"
    by (simp add: win_api_def win_pump_events_def)
qed

section \<open>The rest of the system\<close>

text \<open>Another program copies, offering the content in one format or both.\<close>

datatype win_act = WinCopy "16 word list option" "dib option" | WinNothing

fun win_do :: "win_act \<Rightarrow> win \<Rightarrow> win" where
  "win_do (WinCopy wide d) s = s\<lparr>w_text := wide, w_dib := d, w_seq := w_seq s + 1\<rparr>"
| "win_do WinNothing s = s"

definition copied_content :: "text_coder \<Rightarrow> image_coder \<Rightarrow> 16 word list option \<Rightarrow> dib option \<Rightarrow> clipboard_content option" where
  "copied_content tc cd wide d = win_shows tc cd \<lparr>w_text = wide, w_dib = d, w_seq = 0, w_last_seq = 0, w_opens = True,
     w_allocates = True, w_accepts = True, w_junk = 0, w_undefined = False\<rparr>"

lemma win_do_shows:
  "win_shows tc cd (win_do (WinCopy wide d) s) = copied_content tc cd wide d"
  by (simp add: win_shows_def copied_content_def read_text_def read_image_def Let_def split: option.split)

lemma win_do_ok [simp]: "win_ok (win_do a s) = win_ok s"
  by (cases a) (simp_all add: win_ok_def)

section \<open>Text\<close>

text \<open>
  While only valid text is received, the Windows clipboard never sends it back: every message of the
  connection carries what another local program copied meanwhile or what was there when it began.
\<close>

theorem win_text_never_echoes:
  assumes "win_ok os" "\<forall>(a, f) \<in> set fs. connected_frame_of f \<and> (\<forall>m. cf_pending f = Some m \<longrightarrow> plain_text tc (content_of m))"
    and "clip_run (win_api tc cd) (map (\<lambda>(a, f). (win_do a, f)) fs) (clip_init, os) = (ms, s')"
  shows "set ms \<subseteq> message_of ` ({c. \<exists>wide d f. (WinCopy wide d, f) \<in> set fs \<and> copied_content tc cd wide d = Some c} \<union>
    set_option (win_shows tc cd os))"
proof -
  let ?A = "{c. \<exists>wide d f. (WinCopy wide d, f) \<in> set fs \<and> copied_content tc cd wide d = Some c} \<union> set_option (win_shows tc cd os)"
  have allowed: "win.allowed tc cd ?A (win_do a, f)" if "(a, f) \<in> set fs" for a f
    unfolding win.allowed_def prod.case
  proof (intro conjI)
    show "connected_frame_of f" "\<forall>m. cf_pending f = Some m \<longrightarrow> plain_text tc (content_of m)" using assms(2) that by blast+
    show "\<forall>s. win_ok s \<longrightarrow> win_ok (win_do a s) \<and> (win_shows tc cd (win_do a s) = win_shows tc cd s \<or>
      win_shows tc cd (win_do a s) = None \<or> (\<exists>c \<in> ?A. win_shows tc cd (win_do a s) = Some c))"
    proof (cases a)
      case (WinCopy wide d)
      then show ?thesis
        using that win_do_shows [of tc cd wide d]
        by (cases "copied_content tc cd wide d") (auto simp: win_ok_def)
    qed simp
  qed
  have "win.settled tc cd ?A (clip_init, os)" using assms(1) by (simp add: win.settled_def)
  then show ?thesis
    by (rule win.sends_only_copies [OF _ _ assms(3)]) (use allowed in \<open>auto simp: list_all_iff\<close>)
qed

section \<open>Images\<close>

lemma win_write_image:
  assumes "win_ok s" "cc_type c = JpegContent" "decode_jpeg cd (cc_data c) = Some im"
  shows "win_write tc cd c s = s\<lparr>w_text := None, w_dib := Some (rgb_to_dib (w_junk s) im), w_seq := w_seq s + 2\<rparr>"
  using assms by (simp add: win_ok_def win_write_def write_image_def empty_clipboard_def Let_def)

lemma win_shows_image:
  assumes "w_text s = None" "w_dib s = Some (rgb_to_dib junk im)" "image_ok im" "w_opens s"
  shows "win_read tc cd s =
    (let jpeg = encode_jpeg cd im kJpegQuality kMaxJpegBytes
     in if jpeg = [] then None else Some \<lparr>cc_type = JpegContent, cc_data = jpeg\<rparr>, s)"
  using assms by (simp add: win_read_def read_text_def read_image_def dib_roundtrip Let_def)

text \<open>
  A received image comes back: the look that follows reads the pixels the program has just written,
  encodes them anew and sends the result to the machine the image came from, unless encoding happens to
  reproduce the received file byte for byte. The comparison with what was applied, which is there to
  prevent this, compares encoded files.
\<close>

theorem win_image_comes_back:
  assumes "win_ok s" "connected_frame_of f" "cf_pending f = Some m" "clip_type m = ClipJpeg"
    and "kPollInterval \<le> cf_now f - cy_last_check st" "w_last_seq s \<noteq> w_seq s + 2"
    and "decode_jpeg cd (clip_data m) = Some im" "image_ok im"
    and jpeg: "jpeg = encode_jpeg cd im kJpegQuality kMaxJpegBytes"
  shows "fst (pump_clipboard (win_api tc cd) f (st, s)) =
    (if jpeg = [] \<or> jpeg = clip_data m then [] else [(kMsgClipboardImage, jpeg)])"
proof -
  have c: "content_of m = \<lparr>cc_type = JpegContent, cc_data = clip_data m\<rparr>" using assms(4) by (simp add: content_of_def)
  have w: "win_write tc cd (content_of m) s =
      s\<lparr>w_text := None, w_dib := Some (rgb_to_dib (w_junk s) im), w_seq := w_seq s + 2\<rparr>" (is "_ = ?s")
    by (rule win_write_image) (use assms(1,7) c in simp_all)
  have r: "win_read tc cd (?s\<lparr>w_last_seq := w_seq s + 2\<rparr>) =
      (if jpeg = [] then None else Some \<lparr>cc_type = JpegContent, cc_data = jpeg\<rparr>, ?s\<lparr>w_last_seq := w_seq s + 2\<rparr>)"
    using win_shows_image [of "?s\<lparr>w_last_seq := w_seq s + 2\<rparr>" "w_junk s" im tc cd] assms(1,8) jpeg
    by (simp add: win_ok_def Let_def)
  show ?thesis
    using assms(2,3,5,6) w r c
    by (auto simp: pump_clipboard_def sync_clipboard_def poll_clipboard_def apply_and_track_def win_api_def
        win_pump_events_def win_changed_def connected_frame_of_def message_of_def Let_def)
qed

section \<open>Concrete runs\<close>

text \<open>A conversion of ASCII text.\<close>

definition ascii_coder :: text_coder where
  "ascii_coder = \<lparr>to_utf8 = (\<lambda>ws. Some (map ucast ws)), to_wide = (\<lambda>bs. Some (map ucast bs))\<rparr>"

definition demo_win :: win where
  "demo_win = \<lparr>w_text = None, w_dib = None, w_seq = 5, w_last_seq = -1, w_opens = True, w_allocates = True,
     w_accepts = True, w_junk = 0, w_undefined = False\<rparr>"

text \<open>A coder whose output differs from the file the peer sent.\<close>

definition demo_win_coder :: image_coder where
  "demo_win_coder = \<lparr>jpeg_write = (\<lambda>im q. Some [1]), png_write = (\<lambda>im. [2]), image_load = (\<lambda>data. Some demo_image)\<rparr>"

definition demo_win_frame :: "clipboard_message option \<Rightarrow> int \<Rightarrow> clip_frame" where
  "demo_win_frame m t = \<lparr>cf_status = Some (no_connection\<lparr>ci_state := Connected\<rparr>), cf_pending = m, cf_now = t\<rparr>"

theorem win_image_comes_back_witness:
  "fst (pump_clipboard (win_api ascii_coder demo_win_coder) (demo_win_frame (Some \<lparr>clip_type = ClipJpeg, clip_data = [9, 9]\<rparr>) 1000)
     (clip_init, demo_win)) = [(kMsgClipboardImage, [1])]"
proof -
  have "encode_jpeg demo_win_coder demo_image kJpegQuality kMaxJpegBytes = [1]"
    by (subst encode_jpeg.simps) (simp add: demo_win_coder_def kJpegQuality_def kMaxJpegBytes_def)
  then show ?thesis
    by (subst win_image_comes_back [where im = demo_image and jpeg = "[1]" and m = "\<lparr>clip_type = ClipJpeg, clip_data = [9, 9]\<rparr>"])
      (simp_all add: win_ok_def demo_win_def connected_frame_of_def demo_win_frame_def kPollInterval_def clip_init_def
        decode_jpeg_def demo_win_coder_def image_ok_def demo_image_def)
qed

theorem win_text_never_echoes_witness:
  "let (ms, _) = clip_run (win_api ascii_coder demo_win_coder)
      (map (\<lambda>(a, f). (win_do a, f))
        [(WinNothing, demo_win_frame (Some \<lparr>clip_type = ClipText, clip_data = [97]\<rparr>) 1000),
         (WinCopy (Some [98, 0]) None, demo_win_frame None 2000)]) (clip_init, demo_win)
   in ms = [(kMsgClipboardText, [98])] \<and> (kMsgClipboardText, [97]) \<notin> set ms"
proof -
  let ?fs = "[(WinNothing, demo_win_frame (Some \<lparr>clip_type = ClipText, clip_data = [97]\<rparr>) 1000),
    (WinCopy (Some [98, 0]) None, demo_win_frame None 2000)]"
  obtain ms s' where r: "clip_run (win_api ascii_coder demo_win_coder) (map (\<lambda>(a, f). (win_do a, f)) ?fs) (clip_init, demo_win) = (ms, s')"
    by (metis surj_pair)
  have "set ms \<subseteq> message_of ` ({c. \<exists>wide d f. (WinCopy wide d, f) \<in> set ?fs \<and> copied_content ascii_coder demo_win_coder wide d = Some c} \<union>
      set_option (win_shows ascii_coder demo_win_coder demo_win))"
    by (rule win_text_never_echoes [OF _ _ r])
      (simp_all add: win_ok_def demo_win_def connected_frame_of_def demo_win_frame_def plain_text_def content_of_def ascii_coder_def)
  then have "(kMsgClipboardText, [97]) \<notin> set ms"
    by (auto simp: copied_content_def win_shows_def read_text_def read_image_def ascii_coder_def demo_win_def message_of_def)
  moreover have "ms = [(kMsgClipboardText, [98])]"
    using r
    by (auto simp: demo_win_frame_def pump_clipboard_def sync_clipboard_def poll_clipboard_def
        apply_and_track_def win_api_def win_pump_events_def win_changed_def win_read_def win_write_def write_text_def
        empty_clipboard_def read_text_def demo_win_def clip_init_def kPollInterval_def content_of_def message_of_def
        ascii_coder_def Let_def)
  ultimately show ?thesis using r by simp
qed

end
