(* ===== verification/ClipboardX11.thy ===== *)
theory ClipboardX11
  imports ClipboardSync ClipboardImage
begin

unbundle bit_operations_syntax

text \<open>
  The clipboard of the X11 build, second half of \<^verbatim>\<open>src/clipboard/clipboard.cpp\<close>: the program owns the
  CLIPBOARD selection and answers requests for it, or asks the owner for the content. An owner's answer
  is taken as given, \<open>None\<close> when it refuses or does not answer in time; answers that arrive after the
  program stopped waiting are not modelled.
\<close>

section \<open>State\<close>

datatype atom = UTF8_STRING | XA_STRING | IMAGE_PNG | IMAGE_JPEG | TARGETS | Other_atom nat

datatype reply = Offers "atom list" | Data bytes | Refused

datatype x_event = SelectionRequest nat atom | SelectionClear | Other_event

text \<open>Who owns the selection: another program with its answers, this one, or nobody.\<close>

datatype selection_owner = Nobody | Ourselves | Another "atom \<Rightarrow> bytes option"

text \<open>\<open>X11State\<close>, and the parts of the server's state that concern it.\<close>

record x11 =
  x_display :: bool
  x_have_owned :: bool
  x_wire :: clipboard_content
  x_owned_text :: bytes
  x_owned_png :: bytes
  x_owner :: selection_owner
  x_queue :: "x_event list"
  x_replies :: "(nat \<times> atom \<times> reply) list"

fun we_own :: "selection_owner \<Rightarrow> bool" where
  "we_own Ourselves = True"
| "we_own _ = False"

section \<open>Answering requests\<close>

definition send_selection_notify :: "nat \<Rightarrow> atom \<Rightarrow> reply \<Rightarrow> x11 \<Rightarrow> x11" where
  "send_selection_notify requestor target r s = s\<lparr>x_replies := x_replies s @ [(requestor, target, r)]\<rparr>"

definition handle_selection_request :: "nat \<Rightarrow> atom \<Rightarrow> x11 \<Rightarrow> x11" where
  "handle_selection_request requestor target s =
     (let send = (\<lambda>r. send_selection_notify requestor target r s);
          is_text = (cc_type (x_wire s) = TextContent)
      in if target = TARGETS
         then send (Offers (if x_have_owned s then (if is_text then [UTF8_STRING] else [IMAGE_PNG, IMAGE_JPEG]) else []))
         else if x_have_owned s \<and> is_text \<and> (target = UTF8_STRING \<or> target = XA_STRING)
         then send (Data (x_owned_text s))
         else if x_have_owned s \<and> \<not> is_text \<and> target = IMAGE_PNG then send (Data (x_owned_png s))
         else if x_have_owned s \<and> \<not> is_text \<and> target = IMAGE_JPEG then send (Data (cc_data (x_wire s)))
         else send Refused)"

fun service_event :: "x_event \<Rightarrow> x11 \<Rightarrow> x11" where
  "service_event (SelectionRequest requestor target) s = handle_selection_request requestor target s"
| "service_event SelectionClear s = s\<lparr>x_have_owned := False, x_owned_text := [], x_owned_png := []\<rparr>"
| "service_event Other_event s = s"

definition service_pending_events :: "x11 \<Rightarrow> x11" where
  "service_pending_events s = (fold service_event (x_queue s) s)\<lparr>x_queue := []\<rparr>"

section \<open>Reading\<close>

definition convert_selection :: "x11 \<Rightarrow> atom \<Rightarrow> bytes option" where
  "convert_selection s target = (case x_owner s of Another answers \<Rightarrow> answers target | _ \<Rightarrow> None)"

definition latin1_to_utf8 :: "bytes \<Rightarrow> bytes" where
  "latin1_to_utf8 latin1 =
     concat (map (\<lambda>b. if b < 0x80 then [b] else [0xC0 OR drop_bit 6 b, 0x80 OR (b AND 0x3F)]) latin1)"

definition x_text :: "bytes \<Rightarrow> clipboard_content" where
  "x_text data = \<lparr>cc_type = TextContent, cc_data = data\<rparr>"

definition foreign_content :: "image_coder \<Rightarrow> (atom \<Rightarrow> bytes option) \<Rightarrow> clipboard_content option" where
  "foreign_content cd convert =
     (case convert UTF8_STRING of
        Some data \<Rightarrow> Some (x_text data)
      | None \<Rightarrow>
          (case convert XA_STRING of
             Some data \<Rightarrow> Some (x_text (latin1_to_utf8 data))
           | None \<Rightarrow>
               (case convert IMAGE_PNG of
                  None \<Rightarrow> None
                | Some data \<Rightarrow>
                    (case decode_jpeg cd data of
                       None \<Rightarrow> None
                     | Some im \<Rightarrow>
                         (let jpeg = encode_jpeg cd im kJpegQuality kMaxJpegBytes
                          in if jpeg = [] then None else Some \<lparr>cc_type = JpegContent, cc_data = jpeg\<rparr>)))))"

definition x11_read :: "image_coder \<Rightarrow> x11 \<Rightarrow> clipboard_content option \<times> x11" where
  "x11_read cd s =
     (if \<not> x_display s then (None, s)
      else let s1 = service_pending_events s in
        if we_own (x_owner s1) then (if x_have_owned s1 then Some (x_wire s1) else None, s1)
        else (foreign_content cd (convert_selection s1), s1))"

section \<open>Writing\<close>

definition x11_write :: "image_coder \<Rightarrow> clipboard_content \<Rightarrow> x11 \<Rightarrow> x11" where
  "x11_write cd c s =
     (if \<not> x_display s then s
      else let s1 = (service_pending_events s)\<lparr>x_wire := c, x_have_owned := True\<rparr>;
               s2 = (if cc_type c = TextContent then s1\<lparr>x_owned_text := cc_data c, x_owned_png := []\<rparr>
                     else s1\<lparr>x_owned_text := [],
                             x_owned_png := (case decode_jpeg cd (cc_data c) of None \<Rightarrow> [] | Some im \<Rightarrow> encode_png cd im)\<rparr>)
           in s2\<lparr>x_owner := Ourselves\<rparr>)"

definition x11_pump_events :: "x11 \<Rightarrow> x11" where
  "x11_pump_events s = (if \<not> x_display s then s else service_pending_events s)"

definition x11_changed :: "x11 \<Rightarrow> bool \<times> x11" where
  "x11_changed s = (True, s)"

definition x11_api :: "image_coder \<Rightarrow> x11 clipboard_api" where
  "x11_api cd = \<lparr>api_read = x11_read cd, api_changed = x11_changed, api_write = x11_write cd, api_pump = x11_pump_events\<rparr>"

section \<open>The rest of the system\<close>

text \<open>Another program copies, which takes the selection away, or asks for the content.\<close>

datatype x_act = XCopy "atom \<Rightarrow> bytes option" | XPaste nat atom | XNothing

fun x_do :: "x_act \<Rightarrow> x11 \<Rightarrow> x11" where
  "x_do (XCopy answers) s =
     s\<lparr>x_owner := Another answers, x_queue := x_queue s @ (if we_own (x_owner s) then [SelectionClear] else [])\<rparr>"
| "x_do (XPaste requestor target) s =
     (if we_own (x_owner s) then s\<lparr>x_queue := x_queue s @ [SelectionRequest requestor target]\<rparr> else s)"
| "x_do XNothing s = s"

section \<open>The clipboard contract\<close>

definition x_shows :: "image_coder \<Rightarrow> x11 \<Rightarrow> clipboard_content option" where
  "x_shows cd s =
     (if we_own (x_owner s) then (if x_have_owned s then Some (x_wire s) else None)
      else foreign_content cd (convert_selection s))"

definition x_ok :: "x11 \<Rightarrow> bool" where
  "x_ok s \<longleftrightarrow> x_display s \<and> (we_own (x_owner s) \<longrightarrow> x_have_owned s \<and> SelectionClear \<notin> set (x_queue s))"

lemma service_event_fields [simp]:
  "x_display (service_event e s) = x_display s" "x_owner (service_event e s) = x_owner s"
  "x_wire (service_event e s) = x_wire s" "x_queue (service_event e s) = x_queue s"
  "e \<noteq> SelectionClear \<Longrightarrow> x_have_owned (service_event e s) = x_have_owned s"
  by (cases e; simp add: handle_selection_request_def send_selection_notify_def Let_def)+

lemma fold_service_fields:
  "x_display (fold service_event es s) = x_display s" "x_owner (fold service_event es s) = x_owner s"
  "x_wire (fold service_event es s) = x_wire s" "x_queue (fold service_event es s) = x_queue s"
  "SelectionClear \<notin> set es \<Longrightarrow> x_have_owned (fold service_event es s) = x_have_owned s"
  by (induction es arbitrary: s) auto

lemma service_fields [simp]:
  "x_display (service_pending_events s) = x_display s" "x_owner (service_pending_events s) = x_owner s"
  "x_wire (service_pending_events s) = x_wire s" "x_queue (service_pending_events s) = []"
  "SelectionClear \<notin> set (x_queue s) \<Longrightarrow> x_have_owned (service_pending_events s) = x_have_owned s"
  by (simp_all add: service_pending_events_def fold_service_fields)

lemma convert_service [simp]: "convert_selection (service_pending_events s) = convert_selection s"
  by (simp add: convert_selection_def fun_eq_iff split: selection_owner.split)

lemma convert_another [simp]: "x_owner s = Another answers \<Longrightarrow> convert_selection s = answers"
  by (simp add: convert_selection_def fun_eq_iff)

lemma x11_read_eq: "x_ok s \<Longrightarrow> x11_read cd s = (x_shows cd s, service_pending_events s)"
  by (simp add: x11_read_def x_shows_def x_ok_def Let_def)

lemma service_keeps: "x_ok s \<Longrightarrow> x_shows cd (service_pending_events s) = x_shows cd s \<and> x_ok (service_pending_events s)"
  by (auto simp: x_ok_def x_shows_def)

interpretation x11: system_clipboard "x11_api cd" "x_shows cd" "\<lambda>_. True" x_ok for cd
proof
  fix os r os' assume "x_ok os" "api_read (x11_api cd) os = (r, os')"
  with service_keeps [of os cd]
  show "(\<forall>c. r = Some c \<longrightarrow> x_shows cd os = Some c) \<and> x_shows cd os' = x_shows cd os \<and> x_ok os'"
    by (simp add: x11_api_def x11_read_eq)
next
  fix os b os' assume "x_ok os" "api_changed (x11_api cd) os = (b, os')"
  then show "x_shows cd os' = x_shows cd os \<and> x_ok os'" by (simp add: x11_api_def x11_changed_def)
next
  fix os c assume "x_ok os"
  then show "x_shows cd (api_write (x11_api cd) c os) = Some c \<and> x_ok (api_write (x11_api cd) c os)"
    by (simp add: x11_api_def x11_write_def x_shows_def x_ok_def Let_def)
next
  fix os assume "x_ok os"
  with service_keeps [of os cd] show "x_shows cd (api_pump (x11_api cd) os) = x_shows cd os \<and> x_ok (api_pump (x11_api cd) os)"
    by (simp add: x11_api_def x11_pump_events_def x_ok_def)
qed

lemma x_do_keeps:
  assumes "x_ok s"
  shows "x_ok (x_do a s) \<and> (x_shows cd (x_do a s) = x_shows cd s \<or>
    (\<exists>answers. a = XCopy answers \<and> x_shows cd (x_do a s) = foreign_content cd answers))"
  using assms by (cases a) (auto simp: x_ok_def x_shows_def convert_selection_def)

section \<open>No echo\<close>

text \<open>
  C18. During a connection the X11 clipboard never sends back what it received: whatever is copied,
  pasted and received in whatever order, images included, every message carries a content that another
  local program copied during the connection or that was on the clipboard when it began.
\<close>

theorem x11_never_echoes:
  assumes "x_ok os" "\<forall>(a, f) \<in> set fs. connected_frame_of f"
    and "clip_run (x11_api cd) (map (\<lambda>(a, f). (x_do a, f)) fs) (clip_init, os) = (ms, s')"
  shows "set ms \<subseteq> message_of ` ({c. \<exists>answers f. (XCopy answers, f) \<in> set fs \<and> foreign_content cd answers = Some c} \<union>
    set_option (x_shows cd os))"
proof -
  let ?A = "{c. \<exists>answers f. (XCopy answers, f) \<in> set fs \<and> foreign_content cd answers = Some c} \<union> set_option (x_shows cd os)"
  have allowed: "x11.allowed cd ?A (x_do a, f)" if "(a, f) \<in> set fs" for a f
    unfolding x11.allowed_def prod.case
  proof (intro conjI allI impI)
    show "connected_frame_of f" using assms(2) that by blast
    fix s assume s: "x_ok s"
    show "x_ok (x_do a s)" using x_do_keeps [OF s] by blast
    show "x_shows cd (x_do a s) = x_shows cd s \<or> x_shows cd (x_do a s) = None \<or> (\<exists>c \<in> ?A. x_shows cd (x_do a s) = Some c)"
      using x_do_keeps [OF s, of a cd] that by (cases "x_shows cd (x_do a s)") auto
  qed simp
  have "x11.settled cd ?A (clip_init, os)" using assms(1) by (simp add: x11.settled_def)
  then show ?thesis
    by (rule x11.sends_only_copies [OF _ _ assms(3)]) (use allowed in \<open>auto simp: list_all_iff\<close>)
qed

section \<open>Pasting\<close>

text \<open>What another program that asks for a target is told.\<close>

definition paste_reply :: "image_coder \<Rightarrow> clipboard_content \<Rightarrow> atom \<Rightarrow> reply" where
  "paste_reply cd c target =
     (case cc_type c of
        TextContent \<Rightarrow>
          (if target = TARGETS then Offers [UTF8_STRING]
           else if target = UTF8_STRING \<or> target = XA_STRING then Data (cc_data c) else Refused)
      | JpegContent \<Rightarrow>
          (if target = TARGETS then Offers [IMAGE_PNG, IMAGE_JPEG]
           else if target = IMAGE_PNG
           then Data (case decode_jpeg cd (cc_data c) of None \<Rightarrow> [] | Some im \<Rightarrow> encode_png cd im)
           else if target = IMAGE_JPEG then Data (cc_data c) else Refused))"

definition offering :: "image_coder \<Rightarrow> clipboard_content \<Rightarrow> x11 \<Rightarrow> bool" where
  "offering cd c s \<longleftrightarrow> x_have_owned s \<and> x_wire s = c \<and> x_display s \<and> we_own (x_owner s) \<and>
     (cc_type c = TextContent \<longrightarrow> x_owned_text s = cc_data c) \<and>
     (cc_type c = JpegContent \<longrightarrow> x_owned_png s = (case decode_jpeg cd (cc_data c) of None \<Rightarrow> [] | Some im \<Rightarrow> encode_png cd im))"

lemma offering_write: "x_display s \<Longrightarrow> offering cd c (x11_write cd c s)"
  by (cases "cc_type c") (simp_all add: offering_def x11_write_def Let_def)

lemma offering_request:
  assumes "offering cd c s"
  shows "handle_selection_request r t s = s\<lparr>x_replies := x_replies s @ [(r, t, paste_reply cd c t)]\<rparr>"
  using assms by (cases "cc_type c") (auto simp: handle_selection_request_def send_selection_notify_def offering_def paste_reply_def Let_def)

lemma offering_serve:
  "offering cd c s \<Longrightarrow> fold service_event (map (\<lambda>(r, t). SelectionRequest r t) rqs) s =
    s\<lparr>x_replies := x_replies s @ map (\<lambda>(r, t). (r, t, paste_reply cd c t)) rqs\<rparr>"
proof (induction rqs arbitrary: s)
  case (Cons rq rqs)
  obtain r t where rq: "rq = (r, t)" by fastforce
  have "offering cd c (s\<lparr>x_replies := x_replies s @ [(r, t, paste_reply cd c t)]\<rparr>)"
    using Cons.prems by (simp add: offering_def)
  from Cons.IH [OF this] offering_request [OF Cons.prems] show ?case by (simp add: rq)
qed simp

lemma paste_queue:
  "we_own (x_owner s) \<Longrightarrow> fold (\<lambda>(r, t). x_do (XPaste r t)) rqs s = s\<lparr>x_queue := x_queue s @ map (\<lambda>(r, t). SelectionRequest r t) rqs\<rparr>"
  by (induction rqs arbitrary: s) auto

text \<open>
  Received content can be pasted: after it has been written, each request of another program is
  answered once, in order, in the next frame; the targets announced are exactly the standard ones that
  are then served, with the text or JPEG received, or the PNG made from it.
\<close>

theorem x11_paste_served:
  assumes "x_display s" "s1 = fold (\<lambda>(r, t). x_do (XPaste r t)) rqs (x11_write cd c s)"
  shows "x_replies (x11_pump_events s1) =
      x_replies (x11_write cd c s) @ map (\<lambda>(r, t). (r, t, paste_reply cd c t)) rqs \<and>
    (\<exists>ts. paste_reply cd c TARGETS = Offers ts \<and> (\<forall>t \<in> set ts. \<exists>data. paste_reply cd c t = Data data))"
proof
  have o: "offering cd c (x11_write cd c s)" by (rule offering_write [OF assms(1)])
  then have own: "we_own (x_owner (x11_write cd c s))" and d: "x_display (x11_write cd c s)" by (simp_all add: offering_def)
  have q: "x_queue (x11_write cd c s) = []" using assms(1) by (simp add: x11_write_def Let_def)
  have "offering cd c s1" using o unfolding assms(2) paste_queue [OF own] by (simp add: offering_def)
  from offering_serve [OF this, of rqs] show "x_replies (x11_pump_events s1) =
      x_replies (x11_write cd c s) @ map (\<lambda>(r, t). (r, t, paste_reply cd c t)) rqs"
    unfolding assms(2) paste_queue [OF own] using d q by (simp add: x11_pump_events_def service_pending_events_def)
  show "\<exists>ts. paste_reply cd c TARGETS = Offers ts \<and> (\<forall>t \<in> set ts. \<exists>data. paste_reply cd c t = Data data)"
    by (cases "cc_type c") (auto simp: paste_reply_def)
qed

section \<open>Text of old programs\<close>

text \<open>UTF-8 of one or two bytes per character.\<close>

fun decode_utf8 :: "bytes \<Rightarrow> nat list option" where
  "decode_utf8 [] = Some []"
| "decode_utf8 (b # bs) =
     (if b < 0x80 then map_option ((#) (unat b)) (decode_utf8 bs)
      else case bs of
        c # cs \<Rightarrow>
          (if b AND 0xE0 = 0xC0 \<and> c AND 0xC0 = 0x80
           then map_option ((#) (unat (b AND 0x1F) * 64 + unat (c AND 0x3F))) (decode_utf8 cs) else None)
      | [] \<Rightarrow> None)"

definition two_bytes_ok :: "byte \<Rightarrow> bool" where
  "two_bytes_ok b \<longleftrightarrow>
     (let h = 0xC0 OR drop_bit 6 b; l = 0x80 OR (b AND 0x3F)
      in b < 0x80 \<or> \<not> h < 0x80 \<and> h AND 0xE0 = 0xC0 \<and> l AND 0xC0 = 0x80 \<and> unat (h AND 0x1F) * 64 + unat (l AND 0x3F) = unat b)"

lemma two_bytes: "two_bytes_ok b"
proof -
  have all: "list_all (\<lambda>n. two_bytes_ok (word_of_nat n)) [0..<256]" by code_simp
  have "unat b < 256" using unat_lt2p [of b] by simp
  then have "unat b \<in> set [0..<256]" by (simp only: set_upt atLeastLessThan_iff) simp
  with all have "two_bytes_ok (word_of_nat (unat b))" unfolding list_all_iff by (rule bspec)
  then show ?thesis by (simp only: of_nat_unat ucast_id)
qed

lemma decode_latin1_step: "decode_utf8 (latin1_to_utf8 (b # bs)) = map_option ((#) (unat b)) (decode_utf8 (latin1_to_utf8 bs))"
  using two_bytes [of b] by (auto simp: latin1_to_utf8_def two_bytes_ok_def Let_def)

text \<open>
  Text that a program offers only in the Latin-1 target is converted to UTF-8 that decodes to exactly
  its characters, and plain ASCII is not changed.
\<close>

theorem latin1_converted:
  "decode_utf8 (latin1_to_utf8 d) = Some (map unat d) \<and> (list_all (\<lambda>b. b < 0x80) d \<longrightarrow> latin1_to_utf8 d = d)"
proof
  show "decode_utf8 (latin1_to_utf8 d) = Some (map unat d)"
  proof (induction d)
    case Nil
    show ?case by (simp add: latin1_to_utf8_def)
  next
    case (Cons b d)
    then show ?case by (simp only: decode_latin1_step) simp
  qed
  show "list_all (\<lambda>b. b < 0x80) d \<longrightarrow> latin1_to_utf8 d = d"
    by (induction d) (simp_all add: latin1_to_utf8_def)
qed

lemma latin1_longer: "length d \<le> length (latin1_to_utf8 d)"
  by (induction d) (simp_all add: latin1_to_utf8_def le_SucI)

text \<open>
  In the other direction the program answers a request for that same Latin-1 target with its UTF-8 bytes
  as they are: a program that reads them as what the target says sees other characters as soon as the
  text is not plain ASCII.
\<close>

theorem latin1_request_gets_utf8:
  assumes "cc_type c = TextContent" "b \<in> set (cc_data c)" "\<not> b < 0x80"
  shows "paste_reply cd c XA_STRING = Data (cc_data c) \<and> latin1_to_utf8 (cc_data c) \<noteq> cc_data c"
proof
  show "paste_reply cd c XA_STRING = Data (cc_data c)" using assms(1) by (simp add: paste_reply_def)
  have "length d < length (latin1_to_utf8 d)" if "b \<in> set d" for d
    using that
  proof (induction d)
    case (Cons a d)
    then show ?case using latin1_longer [of d] assms(3) by (auto simp: latin1_to_utf8_def)
  qed simp
  from this [OF assms(2)] show "latin1_to_utf8 (cc_data c) \<noteq> cc_data c" by auto
qed

section \<open>Concrete runs\<close>

definition demo_coder :: image_coder where
  "demo_coder = \<lparr>jpeg_write = (\<lambda>im q. Some [1]), png_write = (\<lambda>im. [2]), image_load = (\<lambda>data. Some demo_image)\<rparr>"

definition demo_x11 :: x11 where
  "demo_x11 = \<lparr>x_display = True, x_have_owned = False, x_wire = x_text [], x_owned_text = [], x_owned_png = [],
     x_owner = Nobody, x_queue = [], x_replies = []\<rparr>"

definition demo_clip_frame :: "clipboard_message option \<Rightarrow> int \<Rightarrow> clip_frame" where
  "demo_clip_frame m t = \<lparr>cf_status = Some (no_connection\<lparr>ci_state := Connected\<rparr>), cf_pending = m, cf_now = t\<rparr>"

definition demo_clip_run :: "(x_act \<times> clip_frame) list" where
  "demo_clip_run =
     [(XNothing, demo_clip_frame (Some \<lparr>clip_type = ClipText, clip_data = [97]\<rparr>) 1000),
      (XNothing, demo_clip_frame None 2000),
      (XCopy (\<lambda>t. if t = UTF8_STRING then Some [98] else None), demo_clip_frame None 3000)]"

theorem x11_never_echoes_witness:
  "let (ms, _) = clip_run (x11_api demo_coder) (map (\<lambda>(a, f). (x_do a, f)) demo_clip_run) (clip_init, demo_x11)
   in ms = [(kMsgClipboardText, [98])] \<and> (kMsgClipboardText, [97]) \<notin> set ms"
proof -
  obtain ms s' where r: "clip_run (x11_api demo_coder) (map (\<lambda>(a, f). (x_do a, f)) demo_clip_run) (clip_init, demo_x11) = (ms, s')"
    by (metis surj_pair)
  have ok: "x_ok demo_x11" by (simp add: x_ok_def demo_x11_def)
  have conn: "\<forall>(a, f) \<in> set demo_clip_run. connected_frame_of f"
    by (simp add: demo_clip_run_def connected_frame_of_def demo_clip_frame_def)
  have "x_shows demo_coder demo_x11 = None"
    by (simp add: x_shows_def demo_x11_def foreign_content_def convert_selection_def)
  then have "(kMsgClipboardText, [97]) \<notin> set ms"
    using x11_never_echoes [OF ok conn r]
    by (auto simp: demo_clip_run_def foreign_content_def message_of_def x_text_def)
  moreover have "ms = [(kMsgClipboardText, [98])]"
    using r
    by (auto simp: demo_clip_run_def demo_clip_frame_def pump_clipboard_def sync_clipboard_def poll_clipboard_def
        apply_and_track_def x11_api_def x11_pump_events_def x11_changed_def x11_read_def x11_write_def
        service_pending_events_def demo_x11_def clip_init_def kPollInterval_def content_of_def message_of_def
        foreign_content_def x_text_def Let_def)
  ultimately show ?thesis using r by simp
qed

theorem x11_paste_served_witness:
  "x_replies (x11_pump_events (fold (\<lambda>(r, t). x_do (XPaste r t)) [(5, TARGETS), (5, UTF8_STRING), (5, IMAGE_PNG)]
     (x11_write demo_coder (x_text [97]) demo_x11))) =
   [(5, TARGETS, Offers [UTF8_STRING]), (5, UTF8_STRING, Data [97]), (5, IMAGE_PNG, Refused)]"
proof -
  have "x_display demo_x11" by (simp add: demo_x11_def)
  from x11_paste_served [OF this refl, of "[(5, TARGETS), (5, UTF8_STRING), (5, IMAGE_PNG)]" demo_coder "x_text [97]"]
  show ?thesis
    by (simp add: x11_write_def demo_x11_def service_pending_events_def x_text_def paste_reply_def)
qed

theorem latin1_converted_witness:
  "latin1_to_utf8 [0xE9] = [0xC3, 0xA9] \<and> latin1_to_utf8 [0x41] = [0x41] \<and> decode_utf8 [0xC3, 0xA9] = Some [0xE9]"
  using latin1_converted [of "[0xE9]"] latin1_converted [of "[0x41]"] by (simp add: latin1_to_utf8_def)

theorem latin1_request_gets_utf8_witness:
  "latin1_to_utf8 [0xC3, 0xA9] \<noteq> [0xC3, 0xA9]"
  using latin1_request_gets_utf8 [of "x_text [0xC3, 0xA9]" "0xC3" demo_coder] by (simp add: x_text_def)

end
