(* ===== verification/Displays.thy ===== *)
theory Displays
  imports Topology
begin

text \<open>
  The displays of this machine, \<^verbatim>\<open>src/display/monitor_info.cpp\<close>: what the system enumerates, on Windows and
  on X11, becomes the list of monitors that the screen topology works with. The answers of the
  system are arguments, \<open>None\<close> where a call fails.
\<close>

unbundle bit_operations_syntax

section \<open>Windows\<close>

text \<open>\<open>MONITORINFOEX\<close>; the name is already what \<^verbatim>\<open>WideCharToMultiByte\<close> makes of \<^verbatim>\<open>szDevice\<close>, with the final 0
  that the code cuts off, and empty when the conversion fails.\<close>

record win_monitor =
  wm_left :: int
  wm_top :: int
  wm_right :: int
  wm_bottom :: int
  wm_flags :: u32
  wm_name :: bytes

definition monitor_enum_proc :: "win_monitor option \<Rightarrow> monitor_info list \<Rightarrow> monitor_info list" where
  "monitor_enum_proc info out =
     (case info of
        None \<Rightarrow> out
      | Some i \<Rightarrow> out @ [\<lparr>mon_x = wm_left i, mon_y = wm_top i, mon_width = wm_right i - wm_left i,
                          mon_height = wm_bottom i - wm_top i, mon_primary = (wm_flags i AND 1 \<noteq> 0), mon_name = butlast (wm_name i)\<rparr>])"

definition win_local_monitors :: "win_monitor option list \<Rightarrow> monitor_info list" where
  "win_local_monitors monitors = fold monitor_enum_proc monitors []"

section \<open>X11\<close>

record output_info =
  oi_connected :: bool
  oi_crtc :: nat
  oi_name :: bytes

record crtc_info =
  cr_x :: int
  cr_y :: int
  cr_width :: u32
  cr_height :: u32

text \<open>The screen resources: outputs by id with what the server says about them, crtcs, the primary output.\<close>

record screen_resources =
  sr_outputs :: "(nat \<times> output_info option) list"
  sr_crtc :: "nat \<Rightarrow> crtc_info option"
  sr_primary :: nat

definition monitor_of_output :: "screen_resources \<Rightarrow> nat \<times> output_info option \<Rightarrow> monitor_info list" where
  "monitor_of_output r = (\<lambda>(i, info).
     case info of
       None \<Rightarrow> []
     | Some o' \<Rightarrow>
         if oi_connected o' \<and> oi_crtc o' \<noteq> 0
         then (case sr_crtc r (oi_crtc o') of
                 None \<Rightarrow> []
               | Some c \<Rightarrow> [\<lparr>mon_x = cr_x c, mon_y = cr_y c, mon_width = sint (cr_width c), mon_height = sint (cr_height c),
                             mon_primary = (i = sr_primary r), mon_name = oi_name o'\<rparr>])
         else [])"

text \<open>\<open>None\<close>: no display, or no resources.\<close>

definition x11_local_monitors :: "screen_resources option \<Rightarrow> monitor_info list" where
  "x11_local_monitors res = (case res of None \<Rightarrow> [] | Some r \<Rightarrow> fold (\<lambda>x out. out @ monitor_of_output r x) (sr_outputs r) [])"

section \<open>What is listed\<close>

lemma fold_append: "fold (\<lambda>x out. out @ f x) xs acc = acc @ concat (map f xs)"
  by (induction xs arbitrary: acc) simp_all

lemma win_monitors_eq:
  "win_local_monitors monitors = concat (map (\<lambda>i. monitor_enum_proc i []) monitors)"
proof -
  have "monitor_enum_proc = (\<lambda>i out. out @ monitor_enum_proc i [])"
    by (intro ext) (simp add: monitor_enum_proc_def split: option.split)
  then show ?thesis unfolding win_local_monitors_def using fold_append [of "\<lambda>i. monitor_enum_proc i []" monitors "[]"] by simp
qed

text \<open>Which outputs show a picture: connected, driven by a crtc, and known to the server.\<close>

definition active_output :: "screen_resources \<Rightarrow> nat \<times> output_info option \<Rightarrow> bool" where
  "active_output r x \<longleftrightarrow>
     (\<exists>o' c. snd x = Some o' \<and> oi_connected o' \<and> oi_crtc o' \<noteq> 0 \<and> sr_crtc r (oi_crtc o') = Some c)"

lemma one_monitor_per_output:
  "\<exists>m. monitor_of_output r x = (if active_output r x then [m] else [])"
  "active_output r x \<Longrightarrow> mon_primary (hd (monitor_of_output r x)) \<longleftrightarrow> fst x = sr_primary r"
  by (cases x; auto simp: active_output_def monitor_of_output_def split: option.split)+

text \<open>
  The list has one monitor for each output that shows a picture, in the order of the outputs, and at most
  one of them is the primary one.
\<close>

theorem x11_lists_active_outputs:
  assumes "distinct (map fst (sr_outputs r))" "ms = x11_local_monitors (Some r)"
  shows "ms = map (\<lambda>x. hd (monitor_of_output r x)) (filter (active_output r) (sr_outputs r)) \<and>
    length (filter mon_primary ms) \<le> 1"
proof -
  have "concat (map (monitor_of_output r) xs) = map (\<lambda>x. hd (monitor_of_output r x)) (filter (active_output r) xs)" for xs
  proof (induction xs)
    case (Cons x xs)
    obtain m where "monitor_of_output r x = (if active_output r x then [m] else [])" using one_monitor_per_output(1) by blast
    with Cons show ?case by simp
  qed simp
  then have ms: "ms = map (\<lambda>x. hd (monitor_of_output r x)) (filter (active_output r) (sr_outputs r))"
    using fold_append [of "monitor_of_output r" "sr_outputs r" "[]"] assms(2) by (simp add: x11_local_monitors_def)
  have "length (filter (\<lambda>x. fst x = sr_primary r) xs) \<le> 1" if "distinct (map fst xs)" for xs :: "(nat \<times> output_info option) list"
    using that by (induction xs) (force simp: filter_empty_conv image_iff)+
  from this [OF assms(1)] have one: "length (filter (\<lambda>x. fst x = sr_primary r) (sr_outputs r)) \<le> 1" .
  have "length (filter mon_primary ms) = length (filter (\<lambda>x. active_output r x \<and> fst x = sr_primary r) (sr_outputs r))"
    unfolding ms filter_map length_map o_def filter_filter
    by (intro arg_cong [where f = length] filter_cong refl) (use one_monitor_per_output(2) in auto)
  also have "\<dots> \<le> length (filter (\<lambda>x. fst x = sr_primary r) (sr_outputs r))"
    using length_filter_le [of "active_output r" "filter (\<lambda>x. fst x = sr_primary r) (sr_outputs r)"]
    unfolding filter_filter by (simp only: conj_commute)
  finally show ?thesis using ms one by simp
qed

theorem x11_lists_active_outputs_witness:
  "let c = \<lparr>cr_x = 0, cr_y = 0, cr_width = 1920, cr_height = 1080\<rparr>;
       r = \<lparr>sr_outputs = [(1, None), (2, Some \<lparr>oi_connected = True, oi_crtc = 5, oi_name = [65]\<rparr>),
                          (3, Some \<lparr>oi_connected = False, oi_crtc = 5, oi_name = []\<rparr>)],
            sr_crtc = (\<lambda>i. Some c), sr_primary = 2\<rparr>
   in x11_local_monitors (Some r) = [\<lparr>mon_x = 0, mon_y = 0, mon_width = 1920, mon_height = 1080, mon_primary = True, mon_name = [65]\<rparr>]"
  unfolding Let_def
  by (subst conjunct1 [OF x11_lists_active_outputs [OF _ refl]]) (simp_all add: active_output_def monitor_of_output_def)

end
