(* ===== verification/InjectWin.thy ===== *)
theory InjectWin
  imports Complex_Main InputProtocol
begin

text \<open>
  Input injection on Windows, the first half of \<^verbatim>\<open>src/input/inject.cpp\<close>: each message becomes one
  \<^verbatim>\<open>INPUT\<close> record handed to \<^verbatim>\<open>SendInput\<close>. The system is a parameter: what \<^verbatim>\<open>SendInput\<close> does to its state and
  what \<^verbatim>\<open>GetAsyncKeyState\<close> reads from it. The flag numbers are those of the Windows API; a \<open>double\<close> is an
  exact rational number.
\<close>

unbundle bit_operations_syntax

section \<open>Records\<close>

datatype win_input =
  Mouse_input (mi_dx: int) (mi_dy: int) (mi_data: u32) (mi_flags: u32)
| Key_input (ki_vk: u16) (ki_scan: u16) (ki_flags: u32)

record 'os win_system =
  send_input :: "win_input \<Rightarrow> 'os \<Rightarrow> 'os"
  async_down :: "u16 \<Rightarrow> 'os \<Rightarrow> bool"

text \<open>\<^verbatim>\<open>SM_XVIRTUALSCREEN\<close> and its relatives.\<close>

record virtual_screen =
  vs_x :: int
  vs_y :: int
  vs_width :: int
  vs_height :: int

definition KEYEVENTF_KEYUP :: u32 where "KEYEVENTF_KEYUP = 2"
definition KEYEVENTF_EXTENDEDKEY :: u32 where "KEYEVENTF_EXTENDEDKEY = 1"
definition MOUSEEVENTF_WHEEL :: u32 where "MOUSEEVENTF_WHEEL = 0x800"

text \<open>\<open>MOVE\<close>, \<open>ABSOLUTE\<close> and \<open>VIRTUALDESK\<close>.\<close>

definition kMoveFlags :: u32 where "kMoveFlags = 1 OR 0x8000 OR 0x4000"

section \<open>The functions\<close>

text \<open>A conversion to \<open>LONG\<close> drops the fraction. A screen of a single column would divide by zero: the
  conversion of the quotient is undefined then, and the result here of no meaning.\<close>

definition normalized :: "int \<Rightarrow> int \<Rightarrow> int \<Rightarrow> int" where
  "normalized v origin extent =
     (let q = (of_int (v - origin) * 65535) / of_int (extent - 1) :: rat in if q < 0 then - \<lfloor>- q\<rfloor> else \<lfloor>q\<rfloor>)"

definition win_inject_mouse_absolute :: "'os win_system \<Rightarrow> virtual_screen \<Rightarrow> int \<Rightarrow> int \<Rightarrow> 'os \<Rightarrow> 'os" where
  "win_inject_mouse_absolute sys vs x y os =
     (if vs_width vs \<le> 0 \<or> vs_height vs \<le> 0 then os
      else send_input sys
        (Mouse_input (normalized x (vs_x vs) (vs_width vs)) (normalized y (vs_y vs) (vs_height vs)) 0 kMoveFlags) os)"

definition button_input :: "byte \<Rightarrow> bool \<Rightarrow> win_input option" where
  "button_input b pressed =
     (if b = 0 then Some (Mouse_input 0 0 0 (if pressed then 2 else 4))
      else if b = 1 then Some (Mouse_input 0 0 0 (if pressed then 8 else 0x10))
      else if b = 2 then Some (Mouse_input 0 0 0 (if pressed then 0x20 else 0x40))
      else if b = 3 \<or> b = 4 then Some (Mouse_input 0 0 (if b = 3 then 1 else 2) (if pressed then 0x80 else 0x100))
      else None)"

definition win_inject_mouse_button :: "'os win_system \<Rightarrow> byte \<Rightarrow> bool \<Rightarrow> 'os \<Rightarrow> 'os" where
  "win_inject_mouse_button sys b pressed os = (case button_input b pressed of None \<Rightarrow> os | Some i \<Rightarrow> send_input sys i os)"

definition win_inject_mouse_wheel :: "'os win_system \<Rightarrow> int \<Rightarrow> 'os \<Rightarrow> 'os" where
  "win_inject_mouse_wheel sys delta = send_input sys (Mouse_input 0 0 (word_of_int delta) MOUSEEVENTF_WHEEL)"

definition win_inject_key :: "'os win_system \<Rightarrow> u32 \<Rightarrow> u32 \<Rightarrow> bool \<Rightarrow> bool \<Rightarrow> 'os \<Rightarrow> 'os" where
  "win_inject_key sys virtual_key sc pressed ext =
     send_input sys (Key_input (ucast virtual_key) (ucast sc)
       ((if pressed then 0 else KEYEVENTF_KEYUP) OR (if ext then KEYEVENTF_EXTENDEDKEY else 0)))"

text \<open>Shift, Control, Menu and the left Windows key, with their bits.\<close>

definition kWinModifiers :: "(u16 \<times> nat) list" where
  "kWinModifiers = [(0x10, 0), (0x11, 1), (0x12, 2), (0x5B, 3)]"

fun win_set_modifiers_loop :: "'os win_system \<Rightarrow> byte \<Rightarrow> (u16 \<times> nat) list \<Rightarrow> 'os \<Rightarrow> 'os" where
  "win_set_modifiers_loop sys m [] os = os"
| "win_set_modifiers_loop sys m ((k, b) # ms) os =
     (let want_down = bit m b; is_down = async_down sys k os
      in win_set_modifiers_loop sys m ms
           (if want_down \<noteq> is_down then send_input sys (Key_input k 0 (if want_down then 0 else KEYEVENTF_KEYUP)) os else os))"

definition win_set_modifiers :: "'os win_system \<Rightarrow> byte \<Rightarrow> 'os \<Rightarrow> 'os" where
  "win_set_modifiers sys m = win_set_modifiers_loop sys m kWinModifiers"

section \<open>The modifiers are forced\<close>

text \<open>What the documentation promises of the four keys: an injected press or release is seen, and no other of
  them changes.\<close>

definition modifier_keys :: "u16 set" where
  "modifier_keys = {0x10, 0x11, 0x12, 0x5B}"

definition key_state_law :: "'os win_system \<Rightarrow> bool" where
  "key_state_law sys \<longleftrightarrow>
     (\<forall>os. \<forall>k \<in> modifier_keys. \<forall>j \<in> modifier_keys. \<forall>flags. flags = 0 \<or> flags = KEYEVENTF_KEYUP \<longrightarrow>
        async_down sys j (send_input sys (Key_input k 0 flags) os) = (if j = k then flags = 0 else async_down sys j os))"

lemma loop_sets:
  assumes "key_state_law sys" "distinct (map fst ms)" "set (map fst ms) \<subseteq> modifier_keys" "j \<in> modifier_keys"
  shows "async_down sys j (win_set_modifiers_loop sys m ms os) =
    (case map_of ms j of Some b \<Rightarrow> bit m b | None \<Rightarrow> async_down sys j os)"
  using assms(2,3)
proof (induction ms arbitrary: os)
  case (Cons x ms)
  obtain k b where x: "x = (k, b)" by fastforce
  let ?os = "if bit m b \<noteq> async_down sys k os then send_input sys (Key_input k 0 (if bit m b then 0 else KEYEVENTF_KEYUP)) os else os"
  have k: "k \<in> modifier_keys" using Cons.prems x by simp
  have one: "async_down sys j ?os = (if j = k then bit m b else async_down sys j os)"
    using assms(1) k assms(4) by (auto simp: key_state_law_def KEYEVENTF_KEYUP_def)
  have "map_of ms k = None" using Cons.prems x by (auto simp: map_of_eq_None_iff)
  with Cons.IH [of ?os] Cons.prems x one show ?case by (auto simp: Let_def split: option.split)
qed simp

text \<open>
  On Windows, too, forcing the modifiers works whatever was held: afterwards the system reports each of
  the four keys down exactly when the mask says so, and when it already does nothing is injected.
\<close>

theorem win_modifiers_forced:
  assumes "key_state_law sys"
  shows "(\<forall>(k, b) \<in> set kWinModifiers. async_down sys k (win_set_modifiers sys m os) = bit m b) \<and>
    ((\<forall>(k, b) \<in> set kWinModifiers. async_down sys k os = bit m b) \<longrightarrow> win_set_modifiers sys m os = os)"
proof -
  have "async_down sys k (win_set_modifiers sys m os) = bit m b" if "(k, b) \<in> set kWinModifiers" for k b
    using that loop_sets [OF assms, of kWinModifiers k m os]
    by (auto simp: win_set_modifiers_def kWinModifiers_def modifier_keys_def)
  moreover have "win_set_modifiers sys m os = os" if "\<forall>(k, b) \<in> set kWinModifiers. async_down sys k os = bit m b"
    using that by (simp add: win_set_modifiers_def kWinModifiers_def)
  ultimately show ?thesis by auto
qed

text \<open>A keyboard that keeps the set of keys held down.\<close>

definition toy_keyboard :: "u16 set win_system" where
  "toy_keyboard =
     \<lparr>send_input = (\<lambda>i held. case i of Key_input k _ flags \<Rightarrow> (if flags = 0 then insert k held else held - {k}) | _ \<Rightarrow> held),
      async_down = (\<lambda>k held. k \<in> held)\<rparr>"

theorem win_modifiers_forced_witness:
  "let held = win_set_modifiers toy_keyboard 2 {0x10, 0x5B} in 0x10 \<notin> held \<and> 0x11 \<in> held \<and> 0x5B \<notin> held"
proof -
  have "key_state_law toy_keyboard" by (auto simp: key_state_law_def toy_keyboard_def KEYEVENTF_KEYUP_def)
  from win_modifiers_forced [OF this, of 2 "{0x10, 0x5B}"] show ?thesis
    by (simp add: kWinModifiers_def toy_keyboard_def)
qed

section \<open>The pointer\<close>

lemma normalized_div:
  assumes "0 \<le> v - origin" "2 \<le> extent"
  shows "normalized v origin extent = (v - origin) * 65535 div (extent - 1)"
proof -
  have q: "(of_int (v - origin) * 65535) / of_int (extent - 1) = (of_int ((v - origin) * 65535) / of_int (extent - 1) :: rat)" by simp
  have "0 \<le> (of_int (v - origin) * 65535) / (of_int (extent - 1) :: rat)" using assms by simp
  then show ?thesis unfolding normalized_def Let_def q floor_divide_of_int_eq by simp
qed

text \<open>
  The whole virtual screen is reached on Windows: its points map into 0 to 65535, the first column to 0, the last to
  65535, in order, and up to 65536 columns no two share a coordinate; rows alike.
\<close>

theorem win_pointer_covers:
  assumes "2 \<le> extent" "origin \<le> v" "v < w" "w < origin + extent"
  shows "0 \<le> normalized v origin extent \<and> normalized v origin extent \<le> normalized w origin extent \<and>
    normalized w origin extent \<le> 65535 \<and> normalized origin origin extent = 0 \<and>
    normalized (origin + extent - 1) origin extent = 65535 \<and>
    (extent \<le> 65536 \<longrightarrow> normalized v origin extent < normalized w origin extent)"
proof -
  have n: "normalized u origin extent = (u - origin) * 65535 div (extent - 1)" if "origin \<le> u" for u
    using that assms(1) by (intro normalized_div) simp_all
  have ends: "normalized origin origin extent = 0" "normalized (origin + extent - 1) origin extent = 65535"
    using n [of origin] n [of "origin + extent - 1"] assms(1) nonzero_mult_div_cancel_left [of "extent - 1" 65535]
    by simp_all
  have mono: "normalized a origin extent \<le> normalized b origin extent" if "origin \<le> a" "a \<le> b" for a b
    using that n [of a] n [of b] assms(1) by (simp add: zdiv_mono1)
  have strict: "normalized v origin extent < normalized w origin extent" if "extent \<le> 65536"
  proof -
    have "(v - origin) * 65535 + (extent - 1) \<le> (w - origin) * 65535"
    proof -
      have "(v - origin + 1) * 65535 \<le> (w - origin) * 65535" using assms(3) by (intro mult_right_mono) simp_all
      then show ?thesis using that by (simp add: algebra_simps)
    qed
    then have "((v - origin) * 65535 + 1 * (extent - 1)) div (extent - 1) \<le> (w - origin) * 65535 div (extent - 1)"
      using assms(1) by (intro zdiv_mono1) simp_all
    then have "(v - origin) * 65535 div (extent - 1) + 1 \<le> (w - origin) * 65535 div (extent - 1)"
      using assms(1) by (subst (asm) div_mult_self1) simp_all
    then show ?thesis using n [of v] n [of w] assms(2,3) by simp
  qed
  show ?thesis
    using ends mono [of origin v] mono [of v w] mono [of w "origin + extent - 1"] strict assms(2-4) by auto
qed

theorem win_pointer_covers_witness:
  "normalized (- 1920) (- 1920) 3840 = 0 \<and> normalized 1919 (- 1920) 3840 = 65535 \<and> normalized 0 (- 1920) 3840 < normalized 1 (- 1920) 3840"
  using win_pointer_covers [of 3840 "- 1920" 0 1] by simp

section \<open>The modifiers held on the Master\<close>

text \<open>\<open>current_modifier_mask\<close> of \<^verbatim>\<open>src/app/input_pump.cpp\<close>: what \<^verbatim>\<open>GetAsyncKeyState\<close> says, one bit per modifier.\<close>

definition current_modifier_mask :: "(u16 \<Rightarrow> bool) \<Rightarrow> byte" where
  "current_modifier_mask pressed =
     (let m1 = (if pressed 0x10 then 0 OR 1 else 0);
          m2 = (if pressed 0x11 then m1 OR 2 else m1);
          m3 = (if pressed 0x12 then m2 OR 4 else m2)
      in if pressed 0x5B then m3 OR 8 else m3)"

lemma current_modifier_bits: "(k, b) \<in> set kWinModifiers \<Longrightarrow> bit (current_modifier_mask pressed) b = pressed k"
  by (cases "pressed 0x10"; cases "pressed 0x11"; cases "pressed 0x12"; cases "pressed 0x5B")
    (auto simp: kWinModifiers_def current_modifier_mask_def)

text \<open>
  A crossing carries the modifiers over: when the Slave runs Windows, each of the four modifiers is down there
  afterwards exactly if it is held on the Master.
\<close>

theorem modifiers_carried_over:
  assumes "key_state_law sys" "(k, b) \<in> set kWinModifiers"
  shows "async_down sys k (win_set_modifiers sys (current_modifier_mask pressed) os) = pressed k"
proof -
  have "async_down sys k (win_set_modifiers sys m os) = bit m b" for m
    using assms(2) loop_sets [OF assms(1), of kWinModifiers k m os]
    by (auto simp: win_set_modifiers_def kWinModifiers_def modifier_keys_def)
  with current_modifier_bits [OF assms(2)] show ?thesis by simp
qed

end
