(* ===== verification/InputHook.thy ===== *)
theory InputHook
  imports InputProtocol
begin

text \<open>
  The global input capture of the Master, \<^verbatim>\<open>include/nockvm/input/hook.h\<close> and the Windows half of
  \<^verbatim>\<open>src/input/hook.cpp\<close>: two low-level hooks that record every event and, while suppressing, keep
  it from the local system, and raw mouse deltas while suppressing. Blocking an event is the result
  \<open>True\<close> of a hook procedure; passing it on is \<open>False\<close>. The system's calls to the hooks are the
  inputs, its cursor the last component of the state.
\<close>

section \<open>State\<close>

record mouse_button_event =
  mb_button :: byte
  mb_down :: bool

record input_frame =
  fr_dx :: int
  fr_dy :: int
  fr_buttons :: "mouse_button_event list"
  fr_wheel :: "int list"
  fr_keys :: "key_event list"

definition empty_frame :: input_frame where
  "empty_frame = \<lparr>fr_dx = 0, fr_dy = 0, fr_buttons = [], fr_wheel = [], fr_keys = []\<rparr>"

record hook =
  hk_installed :: bool
  hk_suppress :: bool
  hk_anchor_x :: int
  hk_anchor_y :: int
  hk_pending :: input_frame
  hk_cursor :: "int \<times> int"

definition hook_new :: hook where
  "hook_new = \<lparr>hk_installed = False, hk_suppress = False, hk_anchor_x = 0, hk_anchor_y = 0,
     hk_pending = empty_frame, hk_cursor = (0, 0)\<rparr>"

section \<open>Operations\<close>

text \<open>\<open>hooks_granted\<close>: whether the system installs both hooks.\<close>

definition hook_install :: "bool \<Rightarrow> hook \<Rightarrow> bool \<times> hook" where
  "hook_install hooks_granted h =
     (if hk_installed h then (False, h)
      else (hooks_granted,
            h\<lparr>hk_anchor_x := fst (hk_cursor h), hk_anchor_y := snd (hk_cursor h), hk_installed := hooks_granted\<rparr>))"

definition hook_uninstall :: "hook \<Rightarrow> hook" where
  "hook_uninstall h = h\<lparr>hk_installed := False\<rparr>"

definition hook_suppress :: "hook \<Rightarrow> hook" where
  "hook_suppress h = h\<lparr>hk_suppress := True\<rparr>"

definition hook_resume :: "hook \<Rightarrow> hook" where
  "hook_resume h = h\<lparr>hk_suppress := False\<rparr>"

definition hook_resume_at :: "int \<Rightarrow> int \<Rightarrow> hook \<Rightarrow> hook" where
  "hook_resume_at x y h =
     h\<lparr>hk_anchor_x := x, hk_anchor_y := y, hk_suppress := False, hk_cursor := (x, y)\<rparr>"

definition hook_poll :: "hook \<Rightarrow> input_frame \<times> hook" where
  "hook_poll h = (hk_pending h, h\<lparr>hk_pending := empty_frame\<rparr>)"

section \<open>The hook procedures\<close>

datatype mouse_message =
  WmMove | WmWheel | WmLDown | WmLUp | WmRDown | WmRUp | WmMDown | WmMUp | WmXDown | WmXUp | WmOther

text \<open>\<open>MSLLHOOKSTRUCT\<close>: position, the high word of the mouse data, the injected flag.\<close>

record mouse_info =
  ms_x :: int
  ms_y :: int
  ms_high :: u16
  ms_injected :: bool

definition button_from_wparam :: "mouse_message \<Rightarrow> u16 \<Rightarrow> byte" where
  "button_from_wparam wparam high =
     (case wparam of
        WmLDown \<Rightarrow> 0 | WmLUp \<Rightarrow> 0 | WmRDown \<Rightarrow> 1 | WmRUp \<Rightarrow> 1 | WmMDown \<Rightarrow> 2 | WmMUp \<Rightarrow> 2
      | _ \<Rightarrow> (if high = 1 then 3 else 4))"

definition pend_button :: "byte \<Rightarrow> bool \<Rightarrow> hook \<Rightarrow> hook" where
  "pend_button b pressed h =
     h\<lparr>hk_pending := (hk_pending h)\<lparr>fr_buttons := fr_buttons (hk_pending h) @ [\<lparr>mb_button = b, mb_down = pressed\<rparr>]\<rparr>\<rparr>"

definition mouse_proc :: "int \<Rightarrow> mouse_message \<Rightarrow> mouse_info \<Rightarrow> hook \<Rightarrow> bool \<times> hook" where
  "mouse_proc code wparam info h =
     (if code < 0 \<or> \<not> hk_installed h then (False, h)
      else if ms_injected info then (False, h)
      else let suppress = hk_suppress h; p = hk_pending h in
        if wparam = WmMove
        then (if suppress then (True, h)
              else (False, h\<lparr>hk_pending := p\<lparr>fr_dx := fr_dx p + (ms_x info - hk_anchor_x h),
                                             fr_dy := fr_dy p + (ms_y info - hk_anchor_y h)\<rparr>,
                             hk_anchor_x := ms_x info, hk_anchor_y := ms_y info\<rparr>))
        else if wparam = WmWheel
        then (suppress, h\<lparr>hk_pending := p\<lparr>fr_wheel := fr_wheel p @ [sint (ms_high info)]\<rparr>\<rparr>)
        else if wparam \<in> {WmLDown, WmRDown, WmMDown, WmXDown}
        then (suppress, pend_button (button_from_wparam wparam (ms_high info)) True h)
        else if wparam \<in> {WmLUp, WmRUp, WmMUp, WmXUp}
        then (suppress, pend_button (button_from_wparam wparam (ms_high info)) False h)
        else (False, h))"

text \<open>\<open>KBDLLHOOKSTRUCT\<close> as a key event, with the injected flag apart.\<close>

definition keyboard_proc :: "int \<Rightarrow> key_event \<Rightarrow> bool \<Rightarrow> hook \<Rightarrow> bool \<times> hook" where
  "keyboard_proc code k injected h =
     (if code < 0 \<or> \<not> hk_installed h then (False, h)
      else if injected then (False, h)
      else (hk_suppress h,
            h\<lparr>hk_pending := (hk_pending h)\<lparr>fr_keys := fr_keys (hk_pending h) @ [k]\<rparr>\<rparr>))"

definition feed_raw_delta :: "int \<Rightarrow> int \<Rightarrow> hook \<Rightarrow> hook" where
  "feed_raw_delta dx dy h =
     (if \<not> hk_installed h \<or> \<not> hk_suppress h then h
      else h\<lparr>hk_pending := (hk_pending h)\<lparr>fr_dx := fr_dx (hk_pending h) + dx, fr_dy := fr_dy (hk_pending h) + dy\<rparr>\<rparr>)"

section \<open>Everything is captured\<close>

text \<open>The system's calls between two polls.\<close>

datatype os_event =
  Mouse mouse_message mouse_info
| Keyboard key_event bool
| RawDelta int int

fun os_step :: "os_event \<Rightarrow> hook \<Rightarrow> bool \<times> hook" where
  "os_step (Mouse m info) h = mouse_proc 0 m info h"
| "os_step (Keyboard k injected) h = keyboard_proc 0 k injected h"
| "os_step (RawDelta dx dy) h = (False, feed_raw_delta dx dy h)"

text \<open>Which of the events reach the local system, and the state after them.\<close>

fun os_run :: "os_event list \<Rightarrow> hook \<Rightarrow> os_event list \<times> hook" where
  "os_run [] h = ([], h)"
| "os_run (e # es) h =
     (let (blocked, h1) = os_step e h; (passed, h2) = os_run es h1
      in (if blocked then passed else e # passed, h2))"

fun physical_key :: "os_event \<Rightarrow> key_event list" where
  "physical_key (Keyboard k injected) = (if injected then [] else [k])"
| "physical_key _ = []"

fun own_input :: "os_event \<Rightarrow> bool" where
  "own_input (Mouse m info) \<longleftrightarrow> m \<noteq> WmOther \<and> \<not> ms_injected info"
| "own_input (Keyboard k injected) \<longleftrightarrow> \<not> injected"
| "own_input (RawDelta dx dy) \<longleftrightarrow> False"

lemma os_step_flags [simp]:
  "hk_installed (snd (os_step e h)) = hk_installed h" "hk_suppress (snd (os_step e h)) = hk_suppress h"
  by (cases e; simp add: mouse_proc_def keyboard_proc_def feed_raw_delta_def pend_button_def Let_def)+

lemma os_step_keys:
  "hk_installed h \<Longrightarrow> fr_keys (hk_pending (snd (os_step e h))) = fr_keys (hk_pending h) @ physical_key e"
  by (cases e) (simp_all add: mouse_proc_def keyboard_proc_def feed_raw_delta_def pend_button_def Let_def)

lemma os_step_blocked: "hk_installed h \<Longrightarrow> fst (os_step e h) \<longleftrightarrow> hk_suppress h \<and> own_input e"
  by (cases e)
    (auto simp: mouse_proc_def keyboard_proc_def Let_def split: mouse_message.splits intro: mouse_message.exhaust)



end
