(* ===== verification/TextIO.thy ===== *)
theory TextIO
  imports Prelude
begin

text \<open>
  The formatted input and output of the C++ standard library that the text files of the program are
  written and read with: \<^verbatim>\<open>operator<<\<close> of integers in base 10 and 16, \<^verbatim>\<open>operator>>\<close> of integers
  and of words, and \<^verbatim>\<open>std::getline\<close>. An input stream is the text still to be read and its
  \<^verbatim>\<open>failbit\<close>; a stream that has failed reads nothing more.
\<close>

section \<open>Digits\<close>

definition digit_char :: "nat \<Rightarrow> char" where
  "digit_char d = ''0123456789abcdef'' ! d"

definition digit_value :: "char \<Rightarrow> nat option" where
  "digit_value c =
     (let n = of_char c :: nat in
      if 48 \<le> n \<and> n \<le> 57 then Some (n - 48)
      else if 97 \<le> n \<and> n \<le> 102 then Some (n - 87)
      else if 65 \<le> n \<and> n \<le> 70 then Some (n - 55)
      else None)"

definition is_digit :: "nat \<Rightarrow> char \<Rightarrow> bool" where
  "is_digit base c \<longleftrightarrow> (case digit_value c of Some d \<Rightarrow> d < base | None \<Rightarrow> False)"

definition is_space :: "char \<Rightarrow> bool" where
  "is_space c \<longleftrightarrow> c = CHR '' '' \<or> c = CHR 0x09 \<or> c = CHR 0x0A \<or> c = CHR 0x0B \<or> c = CHR 0x0C \<or> c = CHR 0x0D"

abbreviation newline :: char where "newline \<equiv> CHR 0x0A"

lemma less_16_cases: "d < 16 \<Longrightarrow> P 0 \<Longrightarrow> P 1 \<Longrightarrow> P 2 \<Longrightarrow> P 3 \<Longrightarrow> P 4 \<Longrightarrow> P 5 \<Longrightarrow> P 6 \<Longrightarrow> P 7 \<Longrightarrow>
    P 8 \<Longrightarrow> P 9 \<Longrightarrow> P 10 \<Longrightarrow> P 11 \<Longrightarrow> P 12 \<Longrightarrow> P 13 \<Longrightarrow> P 14 \<Longrightarrow> P 15 \<Longrightarrow> P (d :: nat)"
  by (auto simp: numeral_eq_Suc less_Suc_eq)

lemma digit_value_char [simp]: "d < 16 \<Longrightarrow> digit_value (digit_char d) = Some d"
  by (rule less_16_cases [of d]) (simp_all add: digit_value_def digit_char_def Let_def)

lemma is_space_digit_char [simp]: "d < 16 \<Longrightarrow> \<not> is_space (digit_char d)"
  by (rule less_16_cases [of d]) (simp_all add: is_space_def digit_char_def)

lemma digit_char_not_sign [simp]:
  "d < 16 \<Longrightarrow> digit_char d \<noteq> CHR ''-''" "d < 16 \<Longrightarrow> digit_char d \<noteq> CHR ''+''" "d < 16 \<Longrightarrow> digit_char d \<noteq> CHR ''x''"
  "d < 16 \<Longrightarrow> digit_char d \<noteq> CHR ''X''" "d < 16 \<Longrightarrow> digit_char d \<noteq> newline"
  by ((rule less_16_cases [of d]; simp add: digit_char_def))+

lemmas digit_char_not_sign_sym [simp] = digit_char_not_sign [symmetric]

lemma is_digit_char [simp]: "d < 16 \<Longrightarrow> is_digit base (digit_char d) \<longleftrightarrow> d < base"
  by (simp add: is_digit_def)

section \<open>Printing\<close>

fun show_nat :: "nat \<Rightarrow> nat \<Rightarrow> string" where
  "show_nat base n =
     (if n < base \<or> base < 2 then [digit_char n] else show_nat base (n div base) @ [digit_char (n mod base)])"

declare show_nat.simps [simp del]

definition show_hex :: "'a::len word \<Rightarrow> string" where
  "show_hex w = show_nat 16 (unat w)"

definition show_int :: "int \<Rightarrow> string" where
  "show_int i = (if i < 0 then CHR ''-'' # show_nat 10 (nat (- i)) else show_nat 10 (nat i))"

definition digits_to_nat :: "nat \<Rightarrow> string \<Rightarrow> nat" where
  "digits_to_nat base s = foldl (\<lambda>a c. a * base + (case digit_value c of Some d \<Rightarrow> d | None \<Rightarrow> 0)) 0 s"

lemma digits_to_nat_snoc:
  "digits_to_nat base (s @ [c]) = digits_to_nat base s * base + (case digit_value c of Some d \<Rightarrow> d | None \<Rightarrow> 0)"
  by (simp add: digits_to_nat_def)

definition plain_digits :: "nat \<Rightarrow> string \<Rightarrow> bool" where
  "plain_digits base s \<longleftrightarrow> s \<noteq> [] \<and> (\<forall>c \<in> set s. is_digit base c \<and> (\<exists>d < 16. c = digit_char d))"

lemma show_nat_props:
  assumes "2 \<le> base" "base \<le> 16"
  shows "digits_to_nat base (show_nat base n) = n \<and> plain_digits base (show_nat base n)"
  using assms
proof (induction base n rule: show_nat.induct)
  case (1 b n)
  show ?case
  proof (cases "n < b \<or> b < 2")
    case True
    with "1.prems" show ?thesis
      by (subst (1 2) show_nat.simps) (auto simp: digits_to_nat_def plain_digits_def intro!: exI [of _ n])
  next
    case False
    have m: "n mod b < b" using False by simp
    with "1.prems" have "n mod b < 16" by linarith
    show ?thesis
      using "1.IH" [OF False "1.prems"] False m \<open>n mod b < 16\<close>
      by (subst (1 2) show_nat.simps) (auto simp: digits_to_nat_snoc plain_digits_def)
  qed
qed

lemmas show_dec_props = show_nat_props [of 10, simplified] and show_hex_props = show_nat_props [of 16, simplified]

section \<open>Input streams\<close>

record istream =
  is_text :: string
  is_ok :: bool

definition open_text :: "string \<Rightarrow> istream" where
  "open_text s = \<lparr>is_text = s, is_ok = True\<rparr>"

definition read_word :: "istream \<Rightarrow> string option \<times> istream" where
  "read_word st =
     (if \<not> is_ok st then (None, st)
      else let t = dropWhile is_space (is_text st) in
        if t = [] then (None, \<lparr>is_text = [], is_ok = False\<rparr>)
        else (Some (takeWhile (\<lambda>c. \<not> is_space c) t),
              \<lparr>is_text = dropWhile (\<lambda>c. \<not> is_space c) t, is_ok = True\<rparr>))"

text \<open>The accumulation stage of a numeric extraction: sign, \<^verbatim>\<open>0x\<close> in base 16, digits, rest.\<close>

definition strip_prefix :: "nat \<Rightarrow> string \<Rightarrow> string" where
  "strip_prefix base t =
     (case t of
        z # x # r \<Rightarrow> if base = 16 \<and> z = CHR ''0'' \<and> (x = CHR ''x'' \<or> x = CHR ''X'') then r else t
      | _ \<Rightarrow> t)"

definition scan_number :: "nat \<Rightarrow> string \<Rightarrow> bool \<times> string \<times> string" where
  "scan_number base text =
     (let t = dropWhile is_space text;
          neg = (t \<noteq> [] \<and> hd t = CHR ''-'');
          t1 = (if t \<noteq> [] \<and> (hd t = CHR ''-'' \<or> hd t = CHR ''+'') then tl t else t);
          t2 = strip_prefix base t1
      in (neg, takeWhile (is_digit base) t2, dropWhile (is_digit base) t2))"

definition read_unsigned :: "nat \<Rightarrow> nat \<Rightarrow> istream \<Rightarrow> nat option \<times> istream" where
  "read_unsigned base limit st =
     (if \<not> is_ok st then (None, st)
      else let (neg, ds, rest) = scan_number base (is_text st); n = digits_to_nat base ds in
        if ds = [] \<or> n \<ge> limit then (None, \<lparr>is_text = rest, is_ok = False\<rparr>)
        else (Some (if neg then (limit - n) mod limit else n), \<lparr>is_text = rest, is_ok = True\<rparr>))"

definition read_int :: "istream \<Rightarrow> int option \<times> istream" where
  "read_int st =
     (if \<not> is_ok st then (None, st)
      else let (neg, ds, rest) = scan_number 10 (is_text st);
               n = int (digits_to_nat 10 ds); v = (if neg then - n else n) in
        if ds = [] \<or> \<not> in_i32 v then (None, \<lparr>is_text = rest, is_ok = False\<rparr>)
        else (Some v, \<lparr>is_text = rest, is_ok = True\<rparr>))"

definition read_hex64 :: "istream \<Rightarrow> u64 option \<times> istream" where
  "read_hex64 st = (let (r, st') = read_unsigned 16 (2 ^ 64) st in (map_option of_nat r, st'))"

definition get_line :: "istream \<Rightarrow> string option \<times> istream" where
  "get_line st =
     (if \<not> is_ok st then (None, st)
      else if is_text st = [] then (None, \<lparr>is_text = [], is_ok = False\<rparr>)
      else let line = takeWhile (\<lambda>c. c \<noteq> newline) (is_text st) in
        (Some line, \<lparr>is_text = drop (Suc (length line)) (is_text st), is_ok = True\<rparr>))"

text \<open>\<^verbatim>\<open>while (std::getline(in, line))\<close>: the lines the loop sees.\<close>

function lines_of :: "string \<Rightarrow> string list" where
  "lines_of text =
     (if text = [] then []
      else let line = takeWhile (\<lambda>c. c \<noteq> newline) text in line # lines_of (drop (Suc (length line)) text))"
  by pat_completeness auto

termination by (relation "measure length") auto

declare lines_of.simps [simp del]

lemma lines_of_Nil [simp]: "lines_of [] = []"
  by (simp add: lines_of.simps)

lemma takeWhile_line: "newline \<notin> set l \<Longrightarrow> takeWhile (\<lambda>c. c \<noteq> newline) (l @ newline # r) = l"
  by (induction l) auto

lemma lines_of_line: "newline \<notin> set l \<Longrightarrow> lines_of (l @ newline # r) = l # lines_of r"
  by (subst lines_of.simps) (simp add: Let_def takeWhile_line)

lemma get_line_lines:
  "lines_of (is_text st) = (case get_line (st\<lparr>is_ok := True\<rparr>) of
     (None, _) \<Rightarrow> [] | (Some l, st') \<Rightarrow> l # lines_of (is_text st'))"
  by (subst lines_of.simps) (auto simp: get_line_def Let_def)

section \<open>Printed text is read back\<close>

text \<open>What may follow a printed token: nothing, or white space.\<close>

definition token_end :: "string \<Rightarrow> bool" where
  "token_end r \<longleftrightarrow> (case r of [] \<Rightarrow> True | c # _ \<Rightarrow> is_space c)"

lemma token_end_simps [simp]:
  "token_end []" "token_end (CHR '' '' # r)" "token_end (newline # r)"
  by (simp_all add: token_end_def is_space_def)

lemma space_not_digit: "is_space c \<Longrightarrow> digit_value c = None \<and> c \<noteq> CHR ''x'' \<and> c \<noteq> CHR ''X''"
  by (auto simp: is_space_def digit_value_def)

lemma takeWhile_token:
  assumes "\<forall>c \<in> set w. P c" "token_end r" "\<And>c. is_space c \<Longrightarrow> \<not> P c"
  shows "takeWhile P (w @ r) = w" "dropWhile P (w @ r) = r"
proof -
  have "takeWhile P r = []" "dropWhile P r = r"
    using assms(2,3) by (cases r; auto simp: token_end_def)+
  with assms(1) show "takeWhile P (w @ r) = w" "dropWhile P (w @ r) = r" by simp_all
qed

lemma plain_digits_hd:
  assumes "plain_digits base s" "base \<le> 16"
  shows "s \<noteq> []" "\<not> is_space (hd s)" "hd s \<noteq> CHR ''-''" "hd s \<noteq> CHR ''+''"
    "\<forall>c \<in> set s. is_digit base c" "\<forall>c \<in> set s. \<not> is_space c" "\<forall>c \<in> set s. c \<noteq> CHR ''x'' \<and> c \<noteq> CHR ''X''"
    "newline \<notin> set s"
proof -
  have c: "is_digit base c \<and> \<not> is_space c \<and> c \<noteq> CHR ''-'' \<and> c \<noteq> CHR ''+'' \<and> c \<noteq> CHR ''x'' \<and> c \<noteq> CHR ''X'' \<and>
      c \<noteq> newline" if "c \<in> set s" for c
    using that assms by (auto simp: plain_digits_def)
  show "s \<noteq> []" using assms(1) by (simp add: plain_digits_def)
  then show "\<not> is_space (hd s)" "hd s \<noteq> CHR ''-''" "hd s \<noteq> CHR ''+''" using c [of "hd s"] by auto
  show "\<forall>c \<in> set s. is_digit base c" "\<forall>c \<in> set s. \<not> is_space c" "\<forall>c \<in> set s. c \<noteq> CHR ''x'' \<and> c \<noteq> CHR ''X''"
    "newline \<notin> set s" using c by auto
qed

lemma dropWhile_space_word: "w \<noteq> [] \<Longrightarrow> \<not> is_space (hd w) \<Longrightarrow> dropWhile is_space (w @ r) = w @ r"
  by (cases w) auto

lemma no_prefix:
  assumes "plain_digits base s" "base \<le> 16" "token_end r"
  shows "strip_prefix base (s @ r) = s @ r"
proof -
  note d = plain_digits_hd [OF assms(1,2)]
  obtain z s' where s: "s = z # s'" using d(1) by (cases s) auto
  show ?thesis
  proof (cases s')
    case (Cons y s'')
    with d(7) s show ?thesis by (auto simp: strip_prefix_def)
  next
    case Nil
    with s assms(3) show ?thesis
      by (cases r) (auto simp: strip_prefix_def token_end_def dest: space_not_digit)
  qed
qed

lemma scan_number_digits:
  assumes "plain_digits base s" "base \<le> 16" "token_end r"
  shows "scan_number base (s @ r) = (False, s, r)"
    and "scan_number base (CHR ''-'' # s @ r) = (True, s, r)"
proof -
  note d = plain_digits_hd [OF assms(1,2)]
  have w: "takeWhile (is_digit base) (s @ r) = s" "dropWhile (is_digit base) (s @ r) = r"
    using takeWhile_token [of s "is_digit base" r] d(5) assms(3) space_not_digit by (auto simp: is_digit_def)
  show "scan_number base (s @ r) = (False, s, r)"
    unfolding scan_number_def dropWhile_space_word [OF d(1,2)]
    using d(1,3,4) no_prefix [OF assms] w by (simp add: Let_def)
  have "dropWhile is_space (CHR ''-'' # s @ r) = CHR ''-'' # s @ r" by (simp add: is_space_def)
  then show "scan_number base (CHR ''-'' # s @ r) = (True, s, r)"
    unfolding scan_number_def using no_prefix [OF assms] w by (simp add: Let_def)
qed

lemma scan_number_skip: "is_space c \<Longrightarrow> scan_number base (c # t) = scan_number base t"
  by (simp add: scan_number_def)

lemma read_skip [simp]:
  "is_space c \<Longrightarrow> read_int \<lparr>is_text = c # t, is_ok = b\<rparr> =
     (if b then read_int \<lparr>is_text = t, is_ok = b\<rparr> else (None, \<lparr>is_text = c # t, is_ok = b\<rparr>))"
  "is_space c \<Longrightarrow> read_unsigned base limit \<lparr>is_text = c # t, is_ok = True\<rparr> =
     read_unsigned base limit \<lparr>is_text = t, is_ok = True\<rparr>"
  "is_space c \<Longrightarrow> read_word \<lparr>is_text = c # t, is_ok = True\<rparr> = read_word \<lparr>is_text = t, is_ok = True\<rparr>"
  by (simp_all add: read_int_def read_unsigned_def read_word_def scan_number_skip)

lemma read_show_hex:
  "token_end r \<Longrightarrow> read_hex64 \<lparr>is_text = show_hex w @ r, is_ok = True\<rparr> = (Some w, \<lparr>is_text = r, is_ok = True\<rparr>)"
  using show_hex_props [of "unat w"] scan_number_digits(1) [of 16 "show_hex w" r]
    plain_digits_hd(1) [of 16 "show_hex w"] unat_lt2p [of w]
  by (simp add: read_hex64_def read_unsigned_def show_hex_def)

lemma read_show_nat:
  "token_end r \<Longrightarrow> n < limit \<Longrightarrow>
   read_unsigned 10 limit \<lparr>is_text = show_nat 10 n @ r, is_ok = True\<rparr> = (Some n, \<lparr>is_text = r, is_ok = True\<rparr>)"
  using show_dec_props [of n] scan_number_digits(1) [of 10 "show_nat 10 n" r]
    plain_digits_hd(1) [of 10 "show_nat 10 n"]
  by (simp add: read_unsigned_def)

lemma read_show_int:
  assumes "token_end r" "in_i32 i"
  shows "read_int \<lparr>is_text = show_int i @ r, is_ok = True\<rparr> = (Some i, \<lparr>is_text = r, is_ok = True\<rparr>)"
proof (cases "i < 0")
  case True
  with assms show ?thesis
    using show_dec_props [of "nat (- i)"] scan_number_digits(2) [of 10 "show_nat 10 (nat (- i))" r]
      plain_digits_hd(1) [of 10 "show_nat 10 (nat (- i))"]
    by (simp add: read_int_def show_int_def)
next
  case False
  with assms show ?thesis
    using show_dec_props [of "nat i"] scan_number_digits(1) [of 10 "show_nat 10 (nat i)" r]
      plain_digits_hd(1) [of 10 "show_nat 10 (nat i)"]
    by (simp add: read_int_def show_int_def)
qed

lemma read_word_token:
  assumes "w \<noteq> []" "\<forall>c \<in> set w. \<not> is_space c" "token_end r"
  shows "read_word \<lparr>is_text = w @ r, is_ok = True\<rparr> = (Some w, \<lparr>is_text = r, is_ok = True\<rparr>)"
proof -
  have "dropWhile is_space (w @ r) = w @ r" using assms(1,2) by (intro dropWhile_space_word) auto
  with assms takeWhile_token [of w "\<lambda>c. \<not> is_space c" r] show ?thesis
    by (simp add: read_word_def)
qed

lemma is_space_blank [simp]: "is_space CHR '' ''" "is_space newline"
  by (simp_all add: is_space_def)

lemma no_newline_show [simp]:
  "newline \<notin> set (show_hex w)" "newline \<notin> set (show_nat 10 n)" "newline \<notin> set (show_int i)"
  using plain_digits_hd(8) [of 16 "show_nat 16 (unat w)"] show_hex_props
    plain_digits_hd(8) [of 10 "show_nat 10 k" for k] show_dec_props
  by (auto simp: show_hex_def show_int_def)

section \<open>Hexadecimal keys\<close>

text \<open>\<open>to_hex\<close> and \<open>from_hex\<close> of \<^verbatim>\<open>known_peers.cpp\<close> and \<^verbatim>\<open>static_keys.cpp\<close> (the same code
  twice). A pair of characters is read like any number in base 16, sign and blanks included.\<close>

definition to_hex :: "bytes \<Rightarrow> string" where
  "to_hex key = concat (map (\<lambda>b. let s = show_nat 16 (unat b) in replicate (2 - length s) CHR ''0'' @ s) key)"

definition from_hex_pair :: "string \<Rightarrow> byte option" where
  "from_hex_pair p = map_option of_nat (fst (read_unsigned 16 (2 ^ 32) (open_text p)))"

fun hex_pairs :: "nat \<Rightarrow> string \<Rightarrow> bytes option" where
  "hex_pairs 0 hex = Some []"
| "hex_pairs (Suc n) hex =
     (case from_hex_pair (take 2 hex) of
        None \<Rightarrow> None
      | Some b \<Rightarrow> map_option ((#) b) (hex_pairs n (drop 2 hex)))"

definition from_hex :: "string \<Rightarrow> bytes option" where
  "from_hex hex = (if length hex \<noteq> 32 * 2 then None else hex_pairs 32 hex)"

lemma two_digits:
  "(let s = show_nat 16 (unat (b :: byte)) in replicate (2 - length s) CHR ''0'' @ s) =
   [digit_char (unat b div 16), digit_char (unat b mod 16)]"
proof -
  have u: "unat b < 256" using unat_lt2p [of b] by simp
  show ?thesis
  proof (cases "unat b < 16")
    case True
    then have "show_nat 16 (unat b) = [digit_char (unat b)]" by (simp add: show_nat.simps)
    with True show ?thesis by (simp add: digit_char_def)
  next
    case False
    with u have "show_nat 16 (unat b) = show_nat 16 (unat b div 16) @ [digit_char (unat b mod 16)]"
      by (subst show_nat.simps) simp
    moreover have "show_nat 16 (unat b div 16) = [digit_char (unat b div 16)]"
      using less_mult_imp_div_less [of "unat b" 16 16] u by (simp add: show_nat.simps)
    ultimately show ?thesis by simp
  qed
qed

lemma plain_pair: "a < 16 \<Longrightarrow> d < 16 \<Longrightarrow> plain_digits 16 [digit_char a, digit_char d]"
  by (auto simp: plain_digits_def)

lemma from_hex_pair_digits:
  "from_hex_pair [digit_char (unat b div 16), digit_char (unat b mod 16)] = Some (b :: byte)"
proof -
  let ?s = "[digit_char (unat b div 16), digit_char (unat b mod 16)]"
  have u: "unat b div 16 < 16" "unat b mod 16 < 16" using unat_lt2p [of b] by simp_all
  then have p: "plain_digits 16 ?s" by (rule plain_pair)
  have v: "digits_to_nat 16 ?s = unat b"
    using u by (simp add: digits_to_nat_def)
  have "unat b < 2 ^ 32" using unat_lt2p [of b] by simp
  with scan_number_digits(1) [OF p, of "[]"] v show ?thesis
    by (simp add: from_hex_pair_def read_unsigned_def open_text_def)
qed

lemma hex_pairs_to_hex: "hex_pairs (length key) (to_hex key) = Some key"
proof (induction key)
  case (Cons b key)
  have "to_hex (b # key) = digit_char (unat b div 16) # digit_char (unat b mod 16) # to_hex key"
    unfolding to_hex_def list.map concat.simps two_digits by simp
  with Cons show ?case by (simp add: from_hex_pair_digits)
qed (simp add: to_hex_def)

lemma length_to_hex: "length (to_hex key) = 2 * length key"
  unfolding to_hex_def by (induction key) (simp_all add: two_digits del: Let_def)

lemma from_to_hex: "length key = 32 \<Longrightarrow> from_hex (to_hex key) = Some key"
  using hex_pairs_to_hex [of key] length_to_hex [of key] by (simp add: from_hex_def)

lemma to_hex_chars: "c \<in> set (to_hex key) \<Longrightarrow> \<not> is_space c \<and> c \<noteq> newline"
proof -
  have "unat (b :: byte) div 16 < 16" "unat b mod 16 < 16" for b using unat_lt2p [of b] by simp_all
  then show "c \<in> set (to_hex key) \<Longrightarrow> \<not> is_space c \<and> c \<noteq> newline"
    unfolding to_hex_def two_digits by auto
qed

end
