(* ===== verification/Persistence.thy ===== *)
theory Persistence
  imports TextIO
begin

text \<open>
  The contract of a store kept in a text file: what is rendered is parsed back, in whatever order the
  entries of the hash map were written. Stores that save after every update can be reloaded at any
  time.
\<close>

locale persistent_store =
  fixes parse :: "string \<Rightarrow> ('k::linorder \<times> 'v) list" and render :: "('k \<times> 'v) list \<Rightarrow> string"
    and valid :: "'k \<times> 'v \<Rightarrow> bool"
  assumes parse_render: "list_all valid es \<Longrightarrow> parse (render es) = fold (\<lambda>(k, v). omap_put k v) es []"
begin

lemma map_of_fold_put:
  "omap_ok m \<Longrightarrow> distinct (keys_of es) \<Longrightarrow>
   map_of (fold (\<lambda>(k, v). omap_put k v) es m) = map_of m ++ map_of es"
proof (induction es arbitrary: m)
  case (Cons e es)
  obtain k v where e: "e = (k, v)" by (cases e)
  have "map_of es k = None" using Cons.prems(2) by (simp add: e map_of_eq_None_iff)
  with Cons show ?case by (auto simp: e fun_eq_iff map_add_def split: option.split)
qed simp

text \<open>Reloading gives the same map, whatever the order of the entries in the file.\<close>

lemma reload: "list_all valid es \<Longrightarrow> distinct (keys_of es) \<Longrightarrow> map_of (parse (render es)) = map_of es"
  by (simp add: parse_render map_of_fold_put)

lemma fold_put_ok: "omap_ok m \<Longrightarrow> omap_ok (fold (\<lambda>(k, v). omap_put k v) es m)"
  by (induction es arbitrary: m) auto

lemma reload_ok: "list_all valid es \<Longrightarrow> omap_ok (parse (render es))"
  by (simp add: parse_render fold_put_ok)

end

end
