(* ===== verification/ScreenArrangement.thy ===== *)
theory ScreenArrangement
  imports Persistence Topology
begin

text \<open>
  The stored screen arrangement of \<^verbatim>\<open>src/topology/arrangement.cpp\<close>: for every peer the direction
  and the offset of its screens, kept in memory and saved as text after every change.
\<close>

section \<open>State and operations\<close>

record arrangement =
  sa_entries :: "(u64 \<times> arrangement_entry) list"
  sa_file :: string
  sa_writable :: bool

definition direction_char :: "direction \<Rightarrow> char" where
  "direction_char d =
     (case d of Left \<Rightarrow> CHR ''L'' | Right \<Rightarrow> CHR ''R'' | Up \<Rightarrow> CHR ''U'' | Down \<Rightarrow> CHR ''D'')"

definition direction_from_char :: "char \<Rightarrow> direction option" where
  "direction_from_char c =
     (if c = CHR ''L'' then Some Left else if c = CHR ''R'' then Some Right
      else if c = CHR ''U'' then Some Up else if c = CHR ''D'' then Some Down else None)"

definition arrangement_line :: "string \<Rightarrow> arrangement_entry option" where
  "arrangement_line line =
     (let (device_id, st1) = read_hex64 (open_text line);
          (dir_str, st2) = read_word st1;
          (offset, st3) = read_int st2
      in case (device_id, dir_str, offset) of
           (Some i, Some w, Some p) \<Rightarrow>
             if length w \<noteq> 1 then None
             else map_option (\<lambda>d. \<lparr>entry_device = i, entry_direction = d, entry_offset = p\<rparr>)
                    (direction_from_char (w ! 0))
         | _ \<Rightarrow> None)"

definition arrangement_parse :: "string \<Rightarrow> (u64 \<times> arrangement_entry) list" where
  "arrangement_parse text =
     fold (\<lambda>line m. case arrangement_line line of None \<Rightarrow> m | Some e \<Rightarrow> omap_put (entry_device e) e m)
       (lines_of text) []"

definition arrangement_render :: "(u64 \<times> arrangement_entry) list \<Rightarrow> string" where
  "arrangement_render m =
     concat (map (\<lambda>(i, e). show_hex i @ '' '' @ [direction_char (entry_direction e)] @ '' '' @
       show_int (entry_offset e) @ [newline]) m)"

definition arrangement_load :: "string \<Rightarrow> bool \<Rightarrow> arrangement" where
  "arrangement_load text writable =
     \<lparr>sa_entries = arrangement_parse text, sa_file = text, sa_writable = writable\<rparr>"

definition arrangement_save :: "arrangement \<Rightarrow> arrangement" where
  "arrangement_save sa = (if sa_writable sa then sa\<lparr>sa_file := arrangement_render (sa_entries sa)\<rparr> else sa)"

definition arrangement_get :: "u64 \<Rightarrow> arrangement \<Rightarrow> arrangement_entry option" where
  "arrangement_get i sa = map_of (sa_entries sa) i"

definition arrangement_set :: "u64 \<Rightarrow> direction \<Rightarrow> int \<Rightarrow> arrangement \<Rightarrow> arrangement" where
  "arrangement_set i d offset sa =
     arrangement_save (sa\<lparr>sa_entries :=
       omap_put i \<lparr>entry_device = i, entry_direction = d, entry_offset = offset\<rparr> (sa_entries sa)\<rparr>)"

definition arrangement_forget :: "u64 \<Rightarrow> arrangement \<Rightarrow> arrangement" where
  "arrangement_forget i sa = arrangement_save (sa\<lparr>sa_entries := omap_del i (sa_entries sa)\<rparr>)"

definition arrangement_list :: "arrangement \<Rightarrow> arrangement_entry list" where
  "arrangement_list sa = map snd (sa_entries sa)"

section \<open>The file format is read back\<close>

definition storable :: "u64 \<times> arrangement_entry \<Rightarrow> bool" where
  "storable e \<longleftrightarrow> entry_device (snd e) = fst e \<and> in_i32 (entry_offset (snd e))"

lemma direction_char_back [simp]: "direction_from_char (direction_char d) = Some d"
  by (cases d) (simp_all add: direction_char_def direction_from_char_def)

lemma direction_char_plain [simp]: "\<not> is_space (direction_char d)" "direction_char d \<noteq> newline"
  "newline \<noteq> direction_char d"
  by (cases d; simp add: direction_char_def is_space_def)+

lemma arrangement_line_render:
  assumes "storable (i, e)"
  shows "arrangement_line (show_hex i @ '' '' @ [direction_char (entry_direction e)] @ '' '' @ show_int (entry_offset e)) =
    Some e"
proof -
  let ?d = "direction_char (entry_direction e)" and ?o = "show_int (entry_offset e)"
  have "read_word \<lparr>is_text = [?d] @ '' '' @ ?o, is_ok = True\<rparr> = (Some [?d], \<lparr>is_text = '' '' @ ?o, is_ok = True\<rparr>)"
    by (rule read_word_token) simp_all
  moreover have "read_int \<lparr>is_text = ?o @ [], is_ok = True\<rparr> = (Some (entry_offset e), \<lparr>is_text = [], is_ok = True\<rparr>)"
    using assms by (intro read_show_int) (simp_all add: storable_def)
  ultimately show ?thesis
    using read_show_hex [of "'' '' @ [?d] @ '' '' @ ?o" i] assms
    by (simp add: arrangement_line_def open_text_def storable_def)
qed

lemma arrangement_parse_render_from:
  assumes "list_all storable es"
  shows "fold (\<lambda>line m. case arrangement_line line of None \<Rightarrow> m | Some e \<Rightarrow> omap_put (entry_device e) e m)
    (lines_of (arrangement_render es)) m = fold (\<lambda>(i, e). omap_put i e) es m"
  using assms
proof (induction es arbitrary: m)
  case Nil
  then show ?case by (simp add: arrangement_render_def)
next
  case (Cons x es)
  obtain i e where x: "x = (i, e)" by (cases x)
  let ?l = "show_hex i @ '' '' @ [direction_char (entry_direction e)] @ '' '' @ show_int (entry_offset e)"
  have "newline \<notin> set ?l" by simp
  from lines_of_line [OF this, of "arrangement_render es"]
  have "lines_of (arrangement_render (x # es)) = ?l # lines_of (arrangement_render es)"
    by (simp add: arrangement_render_def x)
  moreover have "arrangement_line ?l = Some e" "entry_device e = i"
    using Cons.prems arrangement_line_render [of i e] by (simp_all add: x storable_def)
  ultimately show ?case using Cons by (simp add: x)
qed

interpretation arrangement_store: persistent_store arrangement_parse arrangement_render storable
  by unfold_locales (simp add: arrangement_parse_def arrangement_parse_render_from)

text \<open>
  Whatever was stored before, after setting an entry whose offset is a 32-bit number, reloading the
  file gives back exactly that entry for the device and the unchanged entries for every other one;
  after forgetting a device, all entries but its own.
\<close>

theorem arrangement_persistent:
  assumes "omap_ok (sa_entries sa)" "list_all storable (sa_entries sa)" "sa_writable sa" "in_i32 offset"
  shows "arrangement_get j (arrangement_load (sa_file (arrangement_set i d offset sa)) True) =
      (if j = i then Some \<lparr>entry_device = i, entry_direction = d, entry_offset = offset\<rparr> else arrangement_get j sa) \<and>
    arrangement_get j (arrangement_load (sa_file (arrangement_forget i sa)) True) =
      (if j = i then None else arrangement_get j sa)"
proof -
  let ?e = "\<lparr>entry_device = i, entry_direction = d, entry_offset = offset\<rparr>"
  have "list_all P m \<Longrightarrow> P (k, v) \<Longrightarrow> list_all P (omap_put k v m)" for P and k :: u64 and v :: arrangement_entry and m
    by (induction m) auto
  then have "list_all storable (omap_put i ?e (sa_entries sa))" using assms by (simp add: storable_def)
  moreover have "distinct (keys_of (omap_put i ?e (sa_entries sa)))"
    using assms(1) by (intro omap_ok_distinct omap_ok_put)
  moreover have "list_all storable (omap_del i (sa_entries sa))"
    using assms(2) by (auto simp: list_all_iff omap_del_def)
  moreover have "distinct (keys_of (omap_del i (sa_entries sa)))"
    using assms(1) by (intro omap_ok_distinct omap_ok_del)
  ultimately show ?thesis
    using assms(1,3) arrangement_store.reload [of "omap_put i ?e (sa_entries sa)"]
      arrangement_store.reload [of "omap_del i (sa_entries sa)"]
    by (simp add: arrangement_get_def arrangement_load_def arrangement_set_def arrangement_forget_def arrangement_save_def)
qed

theorem arrangement_persistent_witness:
  "arrangement_get 5 (arrangement_load (sa_file (arrangement_set 5 Up (- 300) (arrangement_load [] True))) True) =
     Some \<lparr>entry_device = 5, entry_direction = Up, entry_offset = - 300\<rparr>"
proof -
  have "sa_entries (arrangement_load [] True) = []" "sa_writable (arrangement_load [] True)"
    by (simp_all add: arrangement_load_def arrangement_parse_def)
  with arrangement_persistent [of "arrangement_load [] True" "- 300" 5 5 Up] show ?thesis
    by (simp add: in_i32_def)
qed

end
