(* ===== verification/InputPump.thy ===== *)
theory InputPump
  imports InputHook Connection ScreenArrangement
begin

text \<open>
  The Master's input routing, \<^verbatim>\<open>src/app/input_pump.cpp\<close> and the input fields of \<^verbatim>\<open>AppState\<close>
  (\<^verbatim>\<open>src/app/app_state.h\<close>): which machine owns keyboard and mouse, crossing from one to the other at
  the screen edges, the emergency escape, and the release of held keys at every handoff. Messages for
  the Slave are collected in the order \<^verbatim>\<open>send_input\<close> is called, key releases for the local system
  likewise.
\<close>

section \<open>State\<close>

record held_key =
  held_vk :: u32
  held_scancode :: u32
  held_extended :: bool

record input_state =
  is_hook :: hook
  is_active :: bool
  is_owned :: bool
  is_x :: int
  is_y :: int
  is_handed_off :: bool
  is_held :: "held_key list"
  is_sent :: "(byte \<times> bytes) list"
  is_released :: "key_event list"
  is_disconnect :: bool

definition input_init :: input_state where
  "input_init = \<lparr>is_hook = hook_new, is_active = False, is_owned = True, is_x = 0, is_y = 0,
     is_handed_off = False, is_held = [], is_sent = [], is_released = [], is_disconnect = False\<rparr>"

text \<open>
  What a frame reads: role, the server's status (\<open>None\<close> without a server), the local monitors and the
  arrangement, the real cursor and modifier state, whether the system grants the hooks, and the
  value of an uninitialised direction.
\<close>

record input_env =
  env_role :: role
  env_server :: "connection_info option"
  env_monitors :: "monitor_info list"
  env_arrangement :: arrangement
  env_cursor :: "(int \<times> int) option"
  env_modifiers :: byte
  env_hooks :: bool
  env_junk :: direction

section \<open>Helpers\<close>

definition holds_one_of :: "u32 list \<Rightarrow> held_key list \<Rightarrow> bool" where
  "holds_one_of vks held \<longleftrightarrow> list_ex (\<lambda>k. held_vk k \<in> set vks) held"

text \<open>Control, Menu, Shift (generic, left, right) and Escape.\<close>

definition escape_combo_held :: "held_key list \<Rightarrow> bool" where
  "escape_combo_held held \<longleftrightarrow>
     holds_one_of [0x11, 0xA2, 0xA3] held \<and> holds_one_of [0x12, 0xA4, 0xA5] held \<and>
     holds_one_of [0x10, 0xA0, 0xA1] held \<and> holds_one_of [0x1B] held"

definition send_input_message :: "byte \<Rightarrow> bytes \<Rightarrow> input_state \<Rightarrow> input_state" where
  "send_input_message ty payload s = s\<lparr>is_sent := is_sent s @ [(ty, payload)]\<rparr>"

definition send_modifier_sync_mask :: "byte \<Rightarrow> input_state \<Rightarrow> input_state" where
  "send_modifier_sync_mask m s = send_input_message kMsgModifierSync (encode_modifier_sync m) s"

definition key_up :: "held_key \<Rightarrow> key_event" where
  "key_up k = \<lparr>vk = held_vk k, scancode = held_scancode k, down = False, extended = held_extended k\<rparr>"

definition release_held_keys_on_slave :: "input_state \<Rightarrow> input_state" where
  "release_held_keys_on_slave s =
     send_modifier_sync_mask 0 (fold (\<lambda>k. send_input_message kMsgKey (encode_key (key_up k))) (is_held s) s)"

definition release_held_keys_locally :: "input_state \<Rightarrow> input_state" where
  "release_held_keys_locally s = s\<lparr>is_released := is_released s @ map key_up (is_held s)\<rparr>"

definition deactivate_hook :: "input_state \<Rightarrow> input_state" where
  "deactivate_hook s =
     s\<lparr>is_hook := hook_uninstall (hook_resume (is_hook s)), is_active := False, is_owned := True, is_held := []\<rparr>"

text \<open>Division of C++, towards zero.\<close>

definition half :: "int \<Rightarrow> int" where
  "half x = (if x < 0 then - ((- x) div 2) else x div 2)"

definition safe_point :: "monitor_info list \<Rightarrow> int \<times> int" where
  "safe_point monitors = (let b = compute_bounds monitors in (half (min_x b + max_x b), half (min_y b + max_y b)))"

text \<open>Control goes back to the Master at a given point.\<close>

definition hand_back :: "int \<Rightarrow> int \<Rightarrow> input_state \<Rightarrow> input_state" where
  "hand_back x y s =
     release_held_keys_on_slave
       (s\<lparr>is_hook := hook_resume_at x y (is_hook s), is_owned := True, is_x := x, is_y := y, is_handed_off := True\<rparr>)"

section \<open>The Master owns the input\<close>

definition handle_master_owned :: "input_env \<Rightarrow> connection_info \<Rightarrow> input_frame \<Rightarrow> input_state \<Rightarrow> input_state" where
  "handle_master_owned env info frame s =
     (let x = is_x s + fr_dx frame; y = is_y s + fr_dy frame;
          bc = check_boundary (env_junk env) (compute_bounds (env_monitors env)) x y;
          skip = is_handed_off s;
          s1 = s\<lparr>is_handed_off := False\<rparr>;
          stay = s1\<lparr>is_x := clamped_x bc, is_y := clamped_y bc\<rparr>
      in case arrangement_get (ci_peer info) (env_arrangement env) of
           None \<Rightarrow> stay
         | Some entry \<Rightarrow>
             if \<not> skip \<and> crossed bc \<and> entry_direction entry = bc_direction bc \<and> ci_monitors info \<noteq> []
             then
               (let cross = compute_crossing (ci_monitors info) (entry_direction entry) (entry_offset entry) (perp_pos bc)
                in if has_target cross
                   then
                     (let h = horizontal (bc_direction bc);
                          overshoot = (if h then x - clamped_x bc else y - clamped_y bc);
                          x' = cross_x cross + (if h then overshoot else 0);
                          y' = cross_y cross + (if h then 0 else overshoot);
                          s2 = s1\<lparr>is_owned := False, is_x := x', is_y := y', is_handed_off := True,
                                  is_hook := hook_suppress (is_hook s1)\<rparr>
                      in release_held_keys_locally
                           (send_modifier_sync_mask (env_modifiers env)
                             (send_input_message kMsgMouseAbsolute (encode_mouse_absolute (x', y')) s2)))
                   else stay)
             else stay)"

section \<open>The Slave owns the input\<close>

definition kReturnMargin :: int where "kReturnMargin = 4"

text \<open>The events of the frame, in the order they are forwarded.\<close>

definition forwarded :: "int \<Rightarrow> int \<Rightarrow> input_frame \<Rightarrow> (byte \<times> bytes) list" where
  "forwarded x y frame =
     (kMsgMouseAbsolute, encode_mouse_absolute (x, y)) #
     map (\<lambda>b. (kMsgMouseButton, encode_mouse_button (mb_button b, mb_down b))) (fr_buttons frame) @
     map (\<lambda>d. (kMsgMouseWheel, encode_mouse_wheel d)) (fr_wheel frame) @
     map (\<lambda>k. (kMsgKey, encode_key k)) (fr_keys frame)"

definition handle_slave_owned :: "input_env \<Rightarrow> connection_info \<Rightarrow> input_frame \<Rightarrow> input_state \<Rightarrow> input_state" where
  "handle_slave_owned env info frame s =
     (let x = is_x s + fr_dx frame; y = is_y s + fr_dy frame;
          peer_bounds = compute_bounds (ci_monitors info);
          bc = check_boundary (env_junk env) peer_bounds x y;
          skip = is_handed_off s;
          overshoot_x = x - clamped_x bc; overshoot_y = y - clamped_y bc;
          past_margin = (crossed bc \<and> ((overshoot_x \<ge> kReturnMargin \<or> overshoot_x \<le> - kReturnMargin) \<or>
                                       (overshoot_y \<ge> kReturnMargin \<or> overshoot_y \<le> - kReturnMargin)));
          master_bounds = compute_bounds (env_monitors env);
          inverse = map_option (\<lambda>entry. invert_entry entry master_bounds peer_bounds)
                      (arrangement_get (ci_peer info) (env_arrangement env));
          crossable = (crossed bc \<and> inverse \<noteq> None \<and> bc_direction bc = entry_direction (the inverse));
          h = horizontal (bc_direction bc);
          s1 = s\<lparr>is_handed_off := False, is_sent := is_sent s @ forwarded (clamped_x bc) (clamped_y bc) frame,
                 is_x := (if crossable \<and> h then x else clamped_x bc),
                 is_y := (if crossable \<and> \<not> h then y else clamped_y bc)\<rparr>
      in if skip \<or> \<not> past_margin \<or> \<not> crossable then s1
         else
           (let cross = compute_crossing (env_monitors env) (entry_direction (the inverse))
                          (entry_offset (the inverse)) (perp_pos bc)
            in if \<not> has_target cross then s1
               else
                 (let overshoot = (if h then overshoot_x else overshoot_y)
                  in hand_back (cross_x cross + (if h then overshoot else 0))
                       (cross_y cross + (if h then 0 else overshoot)) s1)))"

section \<open>One frame\<close>

text \<open>Held keys: the first entry with the key's virtual code is refreshed or removed.\<close>

fun replace_first :: "('a \<Rightarrow> bool) \<Rightarrow> 'a \<Rightarrow> 'a list \<Rightarrow> 'a list" where
  "replace_first P y [] = [y]"
| "replace_first P y (x # xs) = (if P x then y # xs else x # replace_first P y xs)"

fun erase_first :: "('a \<Rightarrow> bool) \<Rightarrow> 'a list \<Rightarrow> 'a list" where
  "erase_first P [] = []"
| "erase_first P (x # xs) = (if P x then xs else x # erase_first P xs)"

definition track_key :: "key_event \<Rightarrow> held_key list \<Rightarrow> held_key list" where
  "track_key k held =
     (if down k
      then replace_first (\<lambda>h. held_vk h = vk k)
             \<lparr>held_vk = vk k, held_scancode = scancode k, held_extended = extended k\<rparr> held
      else erase_first (\<lambda>h. held_vk h = vk k) held)"

definition activate :: "input_env \<Rightarrow> input_state \<Rightarrow> input_state" where
  "activate env s =
     (if is_active s then s
      else let (x, y) = (case env_cursor env of Some p \<Rightarrow> p | None \<Rightarrow> safe_point (env_monitors env))
           in s\<lparr>is_hook := snd (hook_install (env_hooks env) (is_hook s)), is_active := True, is_owned := True,
                is_x := x, is_y := y\<rparr>)"

definition pump_connected :: "input_env \<Rightarrow> connection_info \<Rightarrow> input_state \<Rightarrow> input_state" where
  "pump_connected env info s0 =
     (let s = activate env s0; (safe_x, safe_y) = safe_point (env_monitors env)
      in if \<not> is_owned s \<and> ci_monitors info = [] then hand_back safe_x safe_y s
         else
           (let (frame, hook) = hook_poll (is_hook s);
                s1 = s\<lparr>is_hook := hook, is_held := fold track_key (fr_keys frame) (is_held s)\<rparr>
            in if escape_combo_held (is_held s1) \<and> \<not> is_owned s1
               then (hand_back safe_x safe_y s1)\<lparr>is_disconnect := True\<rparr>
               else if is_owned s1 then handle_master_owned env info frame s1
               else handle_slave_owned env info frame s1))"

definition pump_input :: "input_env \<Rightarrow> input_state \<Rightarrow> input_state" where
  "pump_input env s =
     (if env_role env \<noteq> Master then s
      else case env_server env of
        None \<Rightarrow> (if is_active s then deactivate_hook s else s)
      | Some info \<Rightarrow>
          if ci_state info \<noteq> Connected then (if is_active s then deactivate_hook s else s)
          else pump_connected env info s)"

text \<open>A run: the system's events before each frame, and the frame.\<close>

definition input_frame_step :: "os_event list \<times> input_env \<Rightarrow> input_state \<Rightarrow> input_state" where
  "input_frame_step = (\<lambda>(es, env) s. pump_input env (s\<lparr>is_hook := snd (os_run es (is_hook s))\<rparr>))"

section \<open>Who has the input\<close>

definition input_ok :: "input_state \<Rightarrow> bool" where
  "input_ok s \<longleftrightarrow> (hk_suppress (is_hook s) \<longleftrightarrow> \<not> is_owned s) \<and> (\<not> is_owned s \<longrightarrow> is_active s) \<and>
     (hk_installed (is_hook s) \<longrightarrow> is_active s)"

lemmas hook_defs = hook_install_def hook_uninstall_def hook_suppress_def hook_resume_def hook_resume_at_def hook_poll_def

lemma send_input_message_fields [simp]:
  "is_hook (send_input_message ty p s) = is_hook s" "is_active (send_input_message ty p s) = is_active s"
  "is_owned (send_input_message ty p s) = is_owned s" "is_held (send_input_message ty p s) = is_held s"
  "is_x (send_input_message ty p s) = is_x s" "is_y (send_input_message ty p s) = is_y s"
  "is_handed_off (send_input_message ty p s) = is_handed_off s" "is_disconnect (send_input_message ty p s) = is_disconnect s"
  "is_sent (send_input_message ty p s) = is_sent s @ [(ty, p)]"
  by (simp_all add: send_input_message_def)

lemma fold_send:
  "fold (\<lambda>k. send_input_message ty (f k)) ks s = s\<lparr>is_sent := is_sent s @ map (\<lambda>k. (ty, f k)) ks\<rparr>"
  by (induction ks arbitrary: s) (simp_all add: send_input_message_def)

text \<open>The messages that release everything on the Slave.\<close>

definition release_messages :: "held_key list \<Rightarrow> (byte \<times> bytes) list" where
  "release_messages held =
     map (\<lambda>k. (kMsgKey, encode_key (key_up k))) held @ [(kMsgModifierSync, encode_modifier_sync 0)]"

lemma release_on_slave_eq: "release_held_keys_on_slave s = s\<lparr>is_sent := is_sent s @ release_messages (is_held s)\<rparr>"
  by (simp add: release_held_keys_on_slave_def fold_send send_modifier_sync_mask_def send_input_message_def
      release_messages_def)

lemma hand_back_eq:
  "hand_back x y s = s\<lparr>is_hook := hook_resume_at x y (is_hook s), is_owned := True, is_x := x, is_y := y,
     is_handed_off := True, is_sent := is_sent s @ release_messages (is_held s)\<rparr>"
  by (simp add: hand_back_def release_on_slave_eq)

lemma os_run_flags [simp]:
  "hk_installed (snd (os_run es h)) = hk_installed h" "hk_suppress (snd (os_run es h)) = hk_suppress h"
proof -
  have "hk_installed (snd (os_run es h)) = hk_installed h \<and> hk_suppress (snd (os_run es h)) = hk_suppress h"
  proof (induction es arbitrary: h)
    case (Cons e es)
    obtain b h1 where s: "os_step e h = (b, h1)" by fastforce
    obtain p h2 where "os_run es h1 = (p, h2)" by fastforce
    with s os_step_flags [of e h] Cons.IH [of h1] show ?case by (simp add: Let_def)
  qed simp
  then show "hk_installed (snd (os_run es h)) = hk_installed h" "hk_suppress (snd (os_run es h)) = hk_suppress h"
    by simp_all
qed

lemma handle_master_cases:
  obtains (stay) "is_owned (handle_master_owned env info frame s) = is_owned s"
      "is_hook (handle_master_owned env info frame s) = is_hook s"
      "is_sent (handle_master_owned env info frame s) = is_sent s"
      "is_active (handle_master_owned env info frame s) = is_active s"
      "is_held (handle_master_owned env info frame s) = is_held s"
    | (cross) x y where "ci_monitors info \<noteq> []" "is_owned (handle_master_owned env info frame s) = False"
      "is_hook (handle_master_owned env info frame s) = hook_suppress (is_hook s)"
      "is_sent (handle_master_owned env info frame s) = is_sent s @
         [(kMsgMouseAbsolute, encode_mouse_absolute (x, y)), (kMsgModifierSync, encode_modifier_sync (env_modifiers env))]"
      "is_active (handle_master_owned env info frame s) = is_active s"
      "is_held (handle_master_owned env info frame s) = is_held s"
proof -
  let ?r = "handle_master_owned env info frame s"
  have "(is_owned ?r = is_owned s \<and> is_hook ?r = is_hook s \<and> is_sent ?r = is_sent s \<and>
      is_active ?r = is_active s \<and> is_held ?r = is_held s) \<or>
    (\<exists>x y. ci_monitors info \<noteq> [] \<and> \<not> is_owned ?r \<and> is_hook ?r = hook_suppress (is_hook s) \<and>
      is_sent ?r = is_sent s @ [(kMsgMouseAbsolute, encode_mouse_absolute (x, y)),
        (kMsgModifierSync, encode_modifier_sync (env_modifiers env))] \<and>
      is_active ?r = is_active s \<and> is_held ?r = is_held s)"
    unfolding handle_master_owned_def Let_def
    by (auto simp: release_held_keys_locally_def send_modifier_sync_mask_def split: option.split)
  with stay cross show thesis by auto
qed

text \<open>While the Slave owns the input, a frame forwards its events and possibly hands back.\<close>

lemma handle_slave_rule:
  assumes "\<And>px py x y. P (s\<lparr>is_handed_off := False, is_sent := is_sent s @ forwarded px py frame, is_x := x, is_y := y\<rparr>)"
    and "\<And>px py x y bx bl. P (hand_back bx bl
           (s\<lparr>is_handed_off := False, is_sent := is_sent s @ forwarded px py frame, is_x := x, is_y := y\<rparr>))"
  shows "P (handle_slave_owned env info frame s)"
  unfolding handle_slave_owned_def Let_def by (simp only: if_split assms simp_thms)

lemma input_ok_connected:
  assumes "input_ok s"
  shows "input_ok (pump_connected env info s) \<and> is_active (pump_connected env info s) \<and>
    (\<not> is_owned (pump_connected env info s) \<longrightarrow> ci_monitors info \<noteq> [])"
proof -
  let ?s = "activate env s"
  have s: "input_ok ?s" "is_active ?s"
    using assms by (auto simp: activate_def input_ok_def hook_defs split: prod.split)
  obtain fr hk where p: "hook_poll (is_hook ?s) = (fr, hk)" by fastforce
  obtain sx sy where sp: "safe_point (env_monitors env) = (sx, sy)" by fastforce
  let ?s1 = "?s\<lparr>is_hook := hk, is_held := fold track_key (fr_keys fr) (is_held ?s)\<rparr>"
  have s1: "input_ok ?s1" "is_active ?s1" using s p by (auto simp: input_ok_def hook_defs)
  have ret: "input_ok (hand_back x y t) \<and> is_active (hand_back x y t) \<and> is_owned (hand_back x y t)"
    if "input_ok t" "is_active t" for x y t
    using that by (auto simp: hand_back_eq input_ok_def hook_defs)
  consider "\<not> is_owned ?s \<and> ci_monitors info = []" | "escape_combo_held (is_held ?s1) \<and> \<not> is_owned ?s1 \<and> ci_monitors info \<noteq> []"
    | "is_owned ?s1" | "\<not> is_owned ?s1 \<and> ci_monitors info \<noteq> [] \<and> \<not> escape_combo_held (is_held ?s1)" by auto
  then show ?thesis
  proof cases
    case 1
    then show ?thesis using ret [OF s] sp by (simp add: pump_connected_def Let_def)
  next
    case 2
    then show ?thesis
      using ret [OF s1] sp p by (simp add: pump_connected_def Let_def input_ok_def)
  next
    case 3
    then have r: "pump_connected env info s = handle_master_owned env info fr ?s1"
      using p sp by (simp add: pump_connected_def Let_def)
    show ?thesis
      unfolding r using s1 3 by (cases rule: handle_master_cases [of env info fr ?s1]) (auto simp: input_ok_def hook_defs)
  next
    case 4
    then have r: "pump_connected env info s = handle_slave_owned env info fr ?s1"
      using p sp by (simp add: pump_connected_def Let_def)
    show ?thesis
      unfolding r
    proof (rule handle_slave_rule)
      fix px py x y bx bl
      let ?t = "?s1\<lparr>is_handed_off := False, is_sent := is_sent ?s1 @ forwarded px py fr, is_x := x, is_y := y\<rparr>"
      have t: "input_ok ?t" "is_active ?t" using s1 by (simp_all add: input_ok_def)
      then show "input_ok ?t \<and> is_active ?t \<and> (\<not> is_owned ?t \<longrightarrow> ci_monitors info \<noteq> [])"
        using 4 by simp
      show "input_ok (hand_back bx bl ?t) \<and> is_active (hand_back bx bl ?t) \<and>
          (\<not> is_owned (hand_back bx bl ?t) \<longrightarrow> ci_monitors info \<noteq> [])"
        using ret [OF t] by simp
    qed
  qed
qed

lemma input_ok_pump:
  assumes "input_ok s"
  shows "input_ok (pump_input env s)"
  using assms input_ok_connected [of s env]
  by (auto simp: pump_input_def deactivate_hook_def input_ok_def hook_defs split: option.split)

lemma input_ok_run:
  "input_ok s \<Longrightarrow> input_ok (fold input_frame_step fs s)"
proof (induction fs arbitrary: s)
  case (Cons f fs)
  obtain es env where f: "f = (es, env)" by fastforce
  have "input_ok (s\<lparr>is_hook := snd (os_run es (is_hook s))\<rparr>)"
    using Cons.prems by (simp add: input_ok_def)
  then have "input_ok (input_frame_step f s)" by (simp add: f input_frame_step_def input_ok_pump)
  with Cons.IH show ?case by simp
qed simp

lemma input_ok_init: "input_ok input_init"
  by (simp add: input_ok_def input_init_def hook_new_def)

text \<open>
  C5. The Master's user never loses the input to nobody: after any sequence of frames and system events,
  local input is suppressed exactly while the Slave owns it; then the last frame saw an established
  connection to a Slave with at least one monitor. After a frame without a connection the hooks are
  gone and the Master owns the input.
\<close>

theorem input_never_lost:
  assumes "s = fold input_frame_step (fs @ [(es, env)]) input_init" "env_role env = Master"
  shows "(hk_suppress (is_hook s) \<longleftrightarrow> \<not> is_owned s) \<and>
    (if (\<exists>info. env_server env = Some info \<and> ci_state info = Connected)
     then is_active s \<and> (hk_suppress (is_hook s) \<longrightarrow> ci_monitors (the (env_server env)) \<noteq> [])
     else is_owned s \<and> \<not> is_active s \<and> \<not> hk_installed (is_hook s))"
proof -
  let ?p = "fold input_frame_step fs input_init"
  let ?q = "?p\<lparr>is_hook := snd (os_run es (is_hook ?p))\<rparr>"
  have q: "input_ok ?q" using input_ok_run [OF input_ok_init, of fs] by (simp add: input_ok_def)
  have s: "s = pump_input env ?q" using assms(1) by (simp add: input_frame_step_def)
  have "input_ok s" unfolding s by (rule input_ok_pump [OF q])
  moreover have "is_active s \<and> (\<not> is_owned s \<longrightarrow> ci_monitors info \<noteq> [])"
    if "env_server env = Some info" "ci_state info = Connected" for info
    using that assms(2) input_ok_connected [OF q, of env info] by (simp add: s pump_input_def)
  moreover have "is_owned s \<and> \<not> is_active s \<and> \<not> hk_installed (is_hook s)"
    if "\<nexists>info. env_server env = Some info \<and> ci_state info = Connected"
    using that assms(2) q
    by (auto simp: s pump_input_def deactivate_hook_def input_ok_def hook_defs split: option.splits)
  ultimately show ?thesis by (auto simp: input_ok_def)
qed

text \<open>
  A Slave to the right of the Master: the pointer crosses, a key goes down on the Slave, the pointer
  comes back.
\<close>

definition demo_peer :: connection_info where
  "demo_peer = no_connection\<lparr>ci_state := Connected, ci_peer := 7, ci_monitors := [hd_monitor]\<rparr>"

definition demo_env :: input_env where
  "demo_env = \<lparr>env_role = Master, env_server = Some demo_peer, env_monitors = [hd_monitor],
     env_arrangement = \<lparr>sa_entries = [(7, \<lparr>entry_device = 7, entry_direction = Right, entry_offset = 0\<rparr>)],
       sa_file = [], sa_writable = True\<rparr>,
     env_cursor = Some (1900, 500), env_modifiers = 0, env_hooks = True, env_junk = Left\<rparr>"

definition demo_move :: "int \<Rightarrow> int \<Rightarrow> os_event" where
  "demo_move x y = Mouse WmMove \<lparr>ms_x = x, ms_y = y, ms_high = 0, ms_injected = False\<rparr>"

definition demo_key :: key_event where
  "demo_key = \<lparr>vk = 0x41, scancode = 30, down = True, extended = False\<rparr>"

definition demo_frames :: "(os_event list \<times> input_env) list" where
  "demo_frames = [([], demo_env), ([demo_move 30 0], demo_env), ([Keyboard demo_key False], demo_env),
     ([RawDelta (- 40) 0], demo_env)]"

theorem input_never_lost_witness:
  "let s = fold input_frame_step (take 3 demo_frames) input_init
   in hk_suppress (is_hook s) \<and> \<not> is_owned s \<and> is_active s \<and> is_x s = 10 \<and> length (is_sent s) = 4"
proof -
  let ?s = "fold input_frame_step (take 3 demo_frames) input_init"
  have fs: "take 3 demo_frames = take 2 demo_frames @ [([Keyboard demo_key False], demo_env)]"
    by (simp add: demo_frames_def)
  have env: "env_role demo_env = Master" "env_server demo_env = Some demo_peer" "ci_state demo_peer = Connected"
    by (simp_all add: demo_env_def demo_peer_def)
  have "\<not> is_owned ?s \<and> is_x ?s = 10 \<and> length (is_sent ?s) = 4" by code_simp
  moreover have "(hk_suppress (is_hook ?s) \<longleftrightarrow> \<not> is_owned ?s) \<and> is_active ?s"
    using input_never_lost [of ?s "take 2 demo_frames" "[Keyboard demo_key False]" demo_env] env
    unfolding fs by simp
  ultimately show ?thesis by (simp add: Let_def)
qed

end
