(* ===== verification/Sockets.thy ===== *)
theory Sockets
  imports Prelude
begin

text \<open>
  The byte-stream helpers of \<^verbatim>\<open>src/discovery/platform_socket.cpp\<close> and \<open>read_exact\<close> of
  \<^verbatim>\<open>src/discovery/secure_channel.cpp\<close>. What the operating system does is the input: the events of
  a connected socket are a list (bytes arriving, nothing arriving for some milliseconds, the peer
  closing), and the results of \<^verbatim>\<open>send\<close> are a list of the byte counts it accepts.
\<close>

section \<open>The socket\<close>

datatype net_event = Arrive bytes | Idle nat | Hangup

text \<open>
  \<open>sk_clock\<close> is the steady clock in milliseconds; \<open>sk_timeout\<close> the receive timeout of the socket; an
  empty event list means that nothing more will ever arrive.
\<close>

record sock =
  sk_clock :: int
  sk_timeout :: nat
  sk_events :: "net_event list"
  sk_sends :: "int list"
  sk_out :: bytes

datatype recv_result = Got bytes | Eof | NoData

text \<open>\<^verbatim>\<open>recv\<close> of at most \<open>n\<close> bytes. A call with nothing to deliver fails after the receive timeout,
  one tick of the clock at the least.\<close>

fun recv_events :: "nat \<Rightarrow> nat \<Rightarrow> int \<Rightarrow> net_event list \<Rightarrow> recv_result \<times> int \<times> net_event list" where
  "recv_events n timeout clock [] = (NoData, clock + int (max 1 timeout), [])"
| "recv_events n timeout clock (Arrive bs # es) =
     (if bs = [] then recv_events n timeout clock es
      else if length bs \<le> n then (Got bs, clock, es)
      else (Got (take n bs), clock, Arrive (drop n bs) # es))"
| "recv_events n timeout clock (Idle d # es) = (NoData, clock + int d, es)"
| "recv_events n timeout clock (Hangup # es) = (Eof, clock, Hangup # es)"

definition os_recv :: "nat \<Rightarrow> sock \<Rightarrow> recv_result \<times> sock" where
  "os_recv n s =
     (let (r, clock, es) = recv_events n (sk_timeout s) (sk_clock s) (sk_events s)
      in (r, s\<lparr>sk_clock := clock, sk_events := es\<rparr>))"

text \<open>\<^verbatim>\<open>wait_readable\<close>: a \<^verbatim>\<open>select\<close> of at most \<open>n\<close> milliseconds. A closed peer makes the socket
  readable too.\<close>

fun wait_events :: "nat \<Rightarrow> int \<Rightarrow> net_event list \<Rightarrow> bool \<times> int \<times> net_event list" where
  "wait_events n clock [] = (False, clock + int n, [])"
| "wait_events n clock (Arrive bs # es) =
     (if bs = [] then wait_events n clock es else (True, clock, Arrive bs # es))"
| "wait_events n clock (Idle d # es) =
     (if d \<le> n then wait_events (n - d) (clock + int d) es
      else (False, clock + int n, Idle (d - n) # es))"
| "wait_events n clock (Hangup # es) = (True, clock, Hangup # es)"

definition wait_readable :: "nat \<Rightarrow> sock \<Rightarrow> bool \<times> sock" where
  "wait_readable n s =
     (let (r, clock, es) = wait_events n (sk_clock s) (sk_events s)
      in (r, s\<lparr>sk_clock := clock, sk_events := es\<rparr>))"

text \<open>The bytes the peer's side of the connection still has for us.\<close>

fun stream_of :: "net_event list \<Rightarrow> bytes" where
  "stream_of [] = []"
| "stream_of (Arrive bs # es) = bs @ stream_of es"
| "stream_of (Idle d # es) = stream_of es"
| "stream_of (Hangup # es) = []"

abbreviation incoming :: "sock \<Rightarrow> bytes" where
  "incoming s \<equiv> stream_of (sk_events s)"

section \<open>Reading a whole frame\<close>

datatype read_status = ReadOk | ReadClosed | ReadDeadline

fun event_size :: "net_event \<Rightarrow> nat" where
  "event_size (Arrive bs) = Suc (length bs)"
| "event_size e = 1"

abbreviation events_size :: "net_event list \<Rightarrow> nat" where
  "events_size es \<equiv> sum_list (map event_size es)"

lemma recv_shrinks:
  assumes "recv_events n t c es = (r, c', es')" "r \<noteq> Eof" "0 < n"
  shows "events_size es' < events_size es \<or> events_size es' \<le> events_size es \<and> c < c'"
  using assms by (induction n t c es rule: recv_events.induct) (fastforce split: if_splits)+

lemma recv_clock: "recv_events n t c es = (r, c', es') \<Longrightarrow> c \<le> c' \<and> (r \<noteq> NoData \<longrightarrow> c' = c)"
  by (induction n t c es rule: recv_events.induct) (auto split: if_splits)

text \<open>
  The loop shared by \<open>read_exact\<close> and \<open>recv_all\<close>: \<open>n\<close> bytes are still missing. The loop ends because
  every round consumes an event or moves the clock towards the deadline.
\<close>

function read_loop :: "nat \<Rightarrow> int \<Rightarrow> sock \<Rightarrow> read_status \<times> bytes \<times> sock" where
  "read_loop n deadline s =
     (if n = 0 then (ReadOk, [], s)
      else if sk_clock s \<ge> deadline then (ReadDeadline, [], s)
      else case os_recv n s of
        (Got bs, s') \<Rightarrow> (let (r, rest, s'') = read_loop (n - length bs) deadline s' in (r, bs @ rest, s''))
      | (Eof, s') \<Rightarrow> (ReadClosed, [], s')
      | (NoData, s') \<Rightarrow> read_loop n deadline s')"
  by pat_completeness auto

termination
proof (relation "inv_image (less_than <*lex*> less_than)
    (\<lambda>(n, deadline, s). (events_size (sk_events s), nat (deadline - sk_clock s)))", goal_cases)
  case 1
  then show ?case by auto
next
  case (2 n deadline s r s' bs)
  then obtain c es where e: "recv_events n (sk_timeout s) (sk_clock s) (sk_events s) = (Got bs, c, es)"
    "s' = s\<lparr>sk_clock := c, sk_events := es\<rparr>"
    by (auto simp: os_recv_def Let_def split: prod.splits)
  from recv_shrinks [OF e(1)] recv_clock [OF e(1)] 2(1) e(2) show ?case by auto
next
  case (3 n deadline s r s')
  then obtain c es where e: "recv_events n (sk_timeout s) (sk_clock s) (sk_events s) = (NoData, c, es)"
    "s' = s\<lparr>sk_clock := c, sk_events := es\<rparr>"
    by (auto simp: os_recv_def Let_def split: prod.splits)
  from recv_shrinks [OF e(1)] 3(1,2) e(2) show ?case by auto
qed

declare read_loop.simps [simp del]

definition read_exact :: "nat \<Rightarrow> int \<Rightarrow> sock \<Rightarrow> read_status \<times> bytes \<times> sock" where
  "read_exact len deadline s = read_loop len deadline s"

definition recv_all :: "nat \<Rightarrow> int \<Rightarrow> sock \<Rightarrow> bytes option \<times> sock" where
  "recv_all len deadline s =
     (case read_loop len deadline s of
        (ReadOk, bs, s') \<Rightarrow> (Some bs, s')
      | (_, _, s') \<Rightarrow> (None, s'))"

lemma recv_events_stream:
  "recv_events n t c es = (r, c', es') \<Longrightarrow>
   stream_of es = (case r of Got bs \<Rightarrow> bs | _ \<Rightarrow> []) @ stream_of es' \<and>
   (\<forall>bs. r = Got bs \<longrightarrow> length bs \<le> n)"
  by (induction n t c es rule: recv_events.induct) (auto split: if_splits)

lemma os_recv_stream:
  assumes "os_recv n s = (r, s')"
  shows "incoming s = (case r of Got bs \<Rightarrow> bs | _ \<Rightarrow> []) @ incoming s'"
    "r = Got bs \<Longrightarrow> length bs \<le> n" "sk_out s' = sk_out s" "sk_sends s' = sk_sends s" "sk_timeout s' = sk_timeout s"
    "sk_clock s \<le> sk_clock s'"
  using assms recv_events_stream recv_clock
  by (auto simp: os_recv_def Let_def split: prod.splits)

lemma read_loop_stream:
  assumes "read_loop n deadline s = (r, bs, s')"
  shows "incoming s = bs @ incoming s' \<and> (r = ReadOk \<longrightarrow> length bs = n) \<and> length bs \<le> n \<and>
    sk_out s' = sk_out s \<and> sk_sends s' = sk_sends s \<and> sk_timeout s' = sk_timeout s \<and> sk_clock s \<le> sk_clock s'"
  using assms
proof (induction n deadline s arbitrary: bs rule: read_loop.induct)
  case (1 n deadline s)
  show ?case
  proof (cases "n = 0 \<or> sk_clock s \<ge> deadline")
    case True
    with "1.prems" show ?thesis by (subst (asm) read_loop.simps) (auto split: if_splits)
  next
    case False
    obtain x s1 where x: "os_recv n s = (x, s1)" by (cases "os_recv n s")
    note os = os_recv_stream [OF x]
    show ?thesis
    proof (cases x)
      case (Got b)
      with "1.prems" False x obtain rest where
        rest: "read_loop (n - length b) deadline s1 = (r, rest, s')" "bs = b @ rest"
        by (subst (asm) read_loop.simps) (auto split: prod.splits)
      from "1.IH"(1) [OF _ _ x [symmetric] Got rest(1)] False Got rest(2) os show ?thesis by auto
    next
      case Eof
      with "1.prems" False x os show ?thesis by (subst (asm) read_loop.simps) auto
    next
      case NoData
      with "1.prems" False x have "read_loop n deadline s1 = (r, bs, s')"
        by (subst (asm) read_loop.simps) auto
      from "1.IH"(2) [OF _ _ x [symmetric] NoData this] False NoData os show ?thesis by auto
    qed
  qed
qed

text \<open>Bytes that have already arrived are read without waiting.\<close>

fun arrived :: "net_event list \<Rightarrow> bytes" where
  "arrived (Arrive bs # es) = bs @ arrived es"
| "arrived es = []"

lemma recv_events_arrived:
  "0 < n \<Longrightarrow> arrived es \<noteq> [] \<Longrightarrow>
   \<exists>bs es'. recv_events n t c es = (Got bs, c, es') \<and> arrived es = bs @ arrived es' \<and> bs \<noteq> [] \<and> length bs \<le> n"
  by (induction n t c es rule: recv_events.induct) auto

lemma read_loop_arrived:
  assumes "n \<le> length (arrived (sk_events s))" "sk_clock s < deadline"
  shows "\<exists>bs s'. read_loop n deadline s = (ReadOk, bs, s') \<and> sk_clock s' = sk_clock s \<and>
    arrived (sk_events s) = bs @ arrived (sk_events s') \<and> length bs = n"
  using assms
proof (induction n arbitrary: s rule: less_induct)
  case (less n)
  show ?case
  proof (cases "n = 0")
    case True
    then show ?thesis by (subst read_loop.simps) auto
  next
    case False
    then have "arrived (sk_events s) \<noteq> []" using less.prems(1) by auto
    with False obtain b es where b: "recv_events n (sk_timeout s) (sk_clock s) (sk_events s) = (Got b, sk_clock s, es)"
      "arrived (sk_events s) = b @ arrived es" "b \<noteq> []" "length b \<le> n"
      using recv_events_arrived [of n "sk_events s" "sk_timeout s" "sk_clock s"] by blast
    let ?s = "s\<lparr>sk_clock := sk_clock s, sk_events := es\<rparr>"
    have "n - length b < n" using False b(3) by simp
    moreover have "n - length b \<le> length (arrived es)" using less.prems(1) b(2) by simp
    ultimately obtain bs s' where
      "read_loop (n - length b) deadline ?s = (ReadOk, bs, s')" "sk_clock s' = sk_clock s"
      "arrived es = bs @ arrived (sk_events s')" "length bs = n - length b"
      using less.IH [of "n - length b" ?s] less.prems(2) by auto
    with False less.prems b show ?thesis
      by (subst read_loop.simps) (simp add: os_recv_def)
  qed
qed

section \<open>Sending\<close>

text \<open>\<^verbatim>\<open>send\<close> accepts a prefix of what it is given, or fails; once the list of results is used up it
  accepts everything.\<close>

function send_all :: "bytes \<Rightarrow> sock \<Rightarrow> bool \<times> sock" where
  "send_all data s =
     (if data = [] then (True, s)
      else let n = (case sk_sends s of [] \<Rightarrow> int (length data) | r # _ \<Rightarrow> min r (int (length data)));
               s1 = s\<lparr>sk_sends := tl (sk_sends s)\<rparr>
        in if n \<le> 0 then (False, s1)
           else send_all (drop (nat n) data) (s1\<lparr>sk_out := sk_out s @ take (nat n) data\<rparr>))"
  by pat_completeness auto

termination
  by (relation "measure (\<lambda>(data, s). length data)") auto

declare send_all.simps [simp del]

lemma send_all_prefix:
  assumes "send_all data s = (ok, s')"
  shows "(\<exists>p q. data = p @ q \<and> sk_out s' = sk_out s @ p \<and> (ok \<longrightarrow> q = [])) \<and>
    sk_events s' = sk_events s \<and> sk_clock s' = sk_clock s \<and> sk_timeout s' = sk_timeout s"
  using assms
proof (induction data s rule: send_all.induct)
  case (1 data s)
  let ?n = "case sk_sends s of [] \<Rightarrow> int (length data) | r # _ \<Rightarrow> min r (int (length data))"
  show ?case
  proof (cases "data = [] \<or> ?n \<le> 0")
    case True
    with "1.prems" show ?thesis
      by (subst (asm) send_all.simps) (auto simp: Let_def split: if_splits)
  next
    case False
    let ?s = "s\<lparr>sk_sends := tl (sk_sends s), sk_out := sk_out s @ take (nat ?n) data\<rparr>"
    from "1.prems" False have rec: "send_all (drop (nat ?n) data) ?s = (ok, s')"
      by (subst (asm) send_all.simps) (simp add: Let_def)
    from "1.IH" [OF _ refl refl _ ] rec False obtain p q where
      "drop (nat ?n) data = p @ q" "sk_out s' = sk_out s @ take (nat ?n) data @ p" "ok \<longrightarrow> q = []"
      "sk_events s' = sk_events s" "sk_clock s' = sk_clock s" "sk_timeout s' = sk_timeout s"
      by auto
    moreover from this(1) have "data = (take (nat ?n) data @ p) @ q"
      by (metis append.assoc append_take_drop_id)
    ultimately show ?thesis by blast
  qed
qed

lemma send_all_ok: "send_all data s = (True, s') \<Longrightarrow> sk_out s' = sk_out s @ data"
  using send_all_prefix [of data s True s'] by auto

lemma send_all_empty_sends:
  "sk_sends s = [] \<Longrightarrow> send_all data s = (True, s\<lparr>sk_out := sk_out s @ data\<rparr>)"
  by (subst send_all.simps) (auto simp: Let_def send_all.simps)

text \<open>
  C37. Reading exactly \<open>n\<close> bytes always ends. It succeeds only with the next \<open>n\<close> bytes of the stream
  and leaves exactly the rest, however the bytes are split over the calls of \<^verbatim>\<open>recv\<close>; it never
  consumes more; and when \<open>n\<close> bytes have already arrived it succeeds at once.
\<close>

theorem read_exact_correct:
  assumes "read_exact n deadline s = (r, bs, s')"
  shows "incoming s = bs @ incoming s' \<and> (r = ReadOk \<longrightarrow> bs = take n (incoming s) \<and> length bs = n) \<and>
    length bs \<le> n \<and>
    (n \<le> length (arrived (sk_events s)) \<and> sk_clock s < deadline \<longrightarrow> r = ReadOk \<and> sk_clock s' = sk_clock s)"
  using read_loop_stream [OF assms [unfolded read_exact_def]] read_loop_arrived [of n s deadline] assms
  by (auto simp: read_exact_def)

theorem read_exact_correct_witness:
  "fst (read_exact 3 100 \<lparr>sk_clock = 0, sk_timeout = 200, sk_events = [Arrive [1, 2], Arrive [3, 4]],
      sk_sends = [], sk_out = []\<rparr>) = ReadOk"
proof -
  let ?s = "\<lparr>sk_clock = 0, sk_timeout = 200, sk_events = [Arrive [1, 2], Arrive [3, 4]], sk_sends = [], sk_out = []\<rparr>"
  obtain r bs s' where "read_exact 3 100 ?s = (r, bs, s')" by (cases "read_exact 3 100 ?s")
  with read_exact_correct [OF this] show ?thesis by simp
qed

end
