(* ===== verification/Noise.thy ===== *)
theory Noise
  imports Sockets "HOL-Library.Monad_Syntax"
begin

text \<open>
  The Noise IK handshake: \<^verbatim>\<open>src/discovery/noise_primitives.cpp\<close> and
  \<^verbatim>\<open>src/discovery/noise_ik.cpp\<close>. The functions of libsodium are the record \<open>crypto\<close>, a parameter of
  every definition that uses one; \<open>crypto_ok\<close> states what their documentation promises and the
  handshake relies on. A freshly generated key pair is an argument.
\<close>

section \<open>libsodium\<close>

record crypto =
  sha256 :: "bytes \<Rightarrow> bytes"
  hmac_sha256 :: "bytes \<Rightarrow> bytes \<Rightarrow> bytes"
  x25519 :: "bytes \<Rightarrow> bytes \<Rightarrow> bytes option"
  x25519_base :: "bytes \<Rightarrow> bytes"
  chacha_seal :: "bytes \<Rightarrow> bytes \<Rightarrow> bytes \<Rightarrow> bytes \<Rightarrow> bytes"
  chacha_open :: "bytes \<Rightarrow> bytes \<Rightarrow> bytes \<Rightarrow> bytes \<Rightarrow> bytes option"
  generichash :: "bytes \<Rightarrow> bytes"

definition crypto_ok :: "crypto \<Rightarrow> bool" where
  "crypto_ok c \<longleftrightarrow>
     (\<forall>a b. x25519 c a (x25519_base c b) = x25519 c b (x25519_base c a)) \<and>
     (\<forall>k n ad pt. chacha_open c k n ad (chacha_seal c k n ad pt) = Some pt) \<and>
     (\<forall>k n ad pt. length (chacha_seal c k n ad pt) = length pt + 16)"

section \<open>Primitives\<close>

record keypair =
  public_key :: bytes
  private_key :: bytes

text \<open>\<^verbatim>\<open>generate_keypair\<close> for a given random private key.\<close>

definition keypair_of :: "crypto \<Rightarrow> bytes \<Rightarrow> keypair" where
  "keypair_of c private = \<lparr>public_key = x25519_base c private, private_key = private\<rparr>"

record transport_keys =
  send_key :: bytes
  recv_key :: bytes

record symmetric_state =
  ss_h :: bytes
  ss_ck :: bytes
  ss_k :: bytes
  ss_has_key :: bool
  ss_n :: u64

definition hkdf2 :: "crypto \<Rightarrow> bytes \<Rightarrow> bytes \<Rightarrow> bytes \<times> bytes" where
  "hkdf2 c chaining_key ikm =
     (let temp_key = hmac_sha256 c chaining_key ikm;
          out1 = hmac_sha256 c temp_key [1];
          out2 = hmac_sha256 c temp_key (out1 @ [2])
      in (out1, out2))"

definition nonce_bytes :: "u64 \<Rightarrow> bytes" where
  "nonce_bytes nonce_counter = replicate 4 0 @ map (\<lambda>i. ucast (drop_bit (8 * i) nonce_counter)) [0..<8]"

definition dh :: "crypto \<Rightarrow> bytes \<Rightarrow> bytes \<Rightarrow> bytes option" where
  "dh c own_private peer_public = x25519 c own_private peer_public"

definition initialize_symmetric :: "crypto \<Rightarrow> bytes \<Rightarrow> symmetric_state" where
  "initialize_symmetric c protocol_name =
     (let h = (if length protocol_name \<le> 32
               then protocol_name @ replicate (32 - length protocol_name) 0
               else sha256 c protocol_name)
      in \<lparr>ss_h = h, ss_ck = h, ss_k = replicate 32 0, ss_has_key = False, ss_n = 0\<rparr>)"

definition mix_hash :: "crypto \<Rightarrow> bytes \<Rightarrow> symmetric_state \<Rightarrow> symmetric_state" where
  "mix_hash c data st = st\<lparr>ss_h := sha256 c (ss_h st @ data)\<rparr>"

definition mix_key :: "crypto \<Rightarrow> bytes \<Rightarrow> symmetric_state \<Rightarrow> symmetric_state" where
  "mix_key c input_key_material st =
     (let (new_ck, temp_k) = hkdf2 c (ss_ck st) input_key_material
      in st\<lparr>ss_ck := new_ck, ss_k := temp_k, ss_has_key := True, ss_n := 0\<rparr>)"

definition aead_encrypt :: "crypto \<Rightarrow> bytes \<Rightarrow> u64 \<Rightarrow> bytes \<Rightarrow> bytes \<Rightarrow> bytes" where
  "aead_encrypt c k n ad plaintext = chacha_seal c k (nonce_bytes n) ad plaintext"

definition aead_decrypt :: "crypto \<Rightarrow> bytes \<Rightarrow> u64 \<Rightarrow> bytes \<Rightarrow> bytes \<Rightarrow> bytes option" where
  "aead_decrypt c k n ad ciphertext = chacha_open c k (nonce_bytes n) ad ciphertext"

definition encrypt_and_hash :: "crypto \<Rightarrow> bytes \<Rightarrow> symmetric_state \<Rightarrow> bytes \<times> symmetric_state" where
  "encrypt_and_hash c plaintext st =
     (let (ct, st') = (if ss_has_key st
                       then (aead_encrypt c (ss_k st) (ss_n st) (ss_h st) plaintext, st\<lparr>ss_n := ss_n st + 1\<rparr>)
                       else (plaintext, st))
      in (ct, mix_hash c ct st'))"

definition decrypt_and_hash :: "crypto \<Rightarrow> bytes \<Rightarrow> symmetric_state \<Rightarrow> (bytes \<times> symmetric_state) option" where
  "decrypt_and_hash c ciphertext st =
     (if ss_has_key st
      then (case aead_decrypt c (ss_k st) (ss_n st) (ss_h st) ciphertext of
              None \<Rightarrow> None
            | Some out \<Rightarrow> Some (out, mix_hash c ciphertext (st\<lparr>ss_n := ss_n st + 1\<rparr>)))
      else Some (ciphertext, mix_hash c ciphertext st))"

definition split_keys :: "crypto \<Rightarrow> symmetric_state \<Rightarrow> bytes \<times> bytes" where
  "split_keys c st = hkdf2 c (ss_ck st) []"

section \<open>The IK handshake\<close>

definition kProtocolName :: bytes where
  "kProtocolName = bytes_of ''Noise_IK_25519_ChaChaPoly_SHA256''"

definition kMsg1Size :: nat where "kMsg1Size = 96"
definition kMsg2Size :: nat where "kMsg2Size = 48"

record ik_result =
  ik_keys :: transport_keys
  ik_peer_static :: bytes

text \<open>The initiator up to the first message (lines 21 to 44 of the source).\<close>

definition ik_initiator_start :: "crypto \<Rightarrow> keypair \<Rightarrow> bytes \<Rightarrow> keypair \<Rightarrow> (bytes \<times> symmetric_state) option" where
  "ik_initiator_start c own_static peer_static e =
     do {
       let st0 = mix_hash c peer_static (initialize_symmetric c kProtocolName);
       let st1 = mix_hash c (public_key e) st0;
       es \<leftarrow> dh c (private_key e) peer_static;
       let st2 = mix_key c es st1;
       let (ct_s, st3) = encrypt_and_hash c (public_key own_static) st2;
       ss \<leftarrow> dh c (private_key own_static) peer_static;
       let st4 = mix_key c ss st3;
       let (ct_payload, st5) = encrypt_and_hash c [] st4;
       Some (public_key e @ ct_s @ ct_payload, st5)
     }"

text \<open>The initiator from the second message on (lines 50 to 71).\<close>

definition ik_initiator_finish ::
    "crypto \<Rightarrow> keypair \<Rightarrow> bytes \<Rightarrow> keypair \<Rightarrow> symmetric_state \<Rightarrow> bytes \<Rightarrow> ik_result option" where
  "ik_initiator_finish c own_static peer_static e st msg2 =
     do {
       let re2 = take 32 msg2;
       let st1 = mix_hash c re2 st;
       ee \<leftarrow> dh c (private_key e) re2;
       let st2 = mix_key c ee st1;
       se \<leftarrow> dh c (private_key own_static) re2;
       let st3 = mix_key c se st2;
       (payload2, st4) \<leftarrow> decrypt_and_hash c (take 16 (drop 32 msg2)) st3;
       let (k1, k2) = split_keys c st4;
       Some \<lparr>ik_keys = \<lparr>send_key = k1, recv_key = k2\<rparr>, ik_peer_static = peer_static\<rparr>
     }"

text \<open>The responder between its two messages (lines 83 to 127).\<close>

definition ik_responder_reply :: "crypto \<Rightarrow> keypair \<Rightarrow> keypair \<Rightarrow> bytes \<Rightarrow> (bytes \<times> ik_result) option" where
  "ik_responder_reply c own_static e2 msg1 =
     do {
       let st0 = mix_hash c (public_key own_static) (initialize_symmetric c kProtocolName);
       let re = take 32 msg1;
       let st1 = mix_hash c re st0;
       es \<leftarrow> dh c (private_key own_static) re;
       let st2 = mix_key c es st1;
       (rs_bytes, st3) \<leftarrow> decrypt_and_hash c (take 48 (drop 32 msg1)) st2;
       if length rs_bytes \<noteq> 32 then None else do {
         ss \<leftarrow> dh c (private_key own_static) rs_bytes;
         let st4 = mix_key c ss st3;
         (payload1, st5) \<leftarrow> decrypt_and_hash c (take 16 (drop (32 + 48) msg1)) st4;
         let st6 = mix_hash c (public_key e2) st5;
         ee \<leftarrow> dh c (private_key e2) re;
         let st7 = mix_key c ee st6;
         se \<leftarrow> dh c (private_key e2) rs_bytes;
         let st8 = mix_key c se st7;
         let (ct2, st9) = encrypt_and_hash c [] st8;
         let (k1, k2) = split_keys c st9;
         Some (public_key e2 @ ct2,
               \<lparr>ik_keys = \<lparr>send_key = k2, recv_key = k1\<rparr>, ik_peer_static = rs_bytes\<rparr>)
       }
     }"

text \<open>\<open>None\<close> is a result with \<^verbatim>\<open>ok == false\<close>.\<close>

definition run_ik_initiator :: "crypto \<Rightarrow> keypair \<Rightarrow> bytes \<Rightarrow> keypair \<Rightarrow> int \<Rightarrow> sock \<Rightarrow> ik_result option \<times> sock" where
  "run_ik_initiator c own_static peer_static e deadline s =
     (case ik_initiator_start c own_static peer_static e of
        None \<Rightarrow> (None, s)
      | Some (msg1, st) \<Rightarrow>
          (case send_all msg1 s of
             (False, s1) \<Rightarrow> (None, s1)
           | (True, s1) \<Rightarrow>
               (case recv_all kMsg2Size deadline s1 of
                  (None, s2) \<Rightarrow> (None, s2)
                | (Some msg2, s2) \<Rightarrow> (ik_initiator_finish c own_static peer_static e st msg2, s2))))"

definition run_ik_responder :: "crypto \<Rightarrow> keypair \<Rightarrow> keypair \<Rightarrow> int \<Rightarrow> sock \<Rightarrow> ik_result option \<times> sock" where
  "run_ik_responder c own_static e2 deadline s =
     (case recv_all kMsg1Size deadline s of
        (None, s1) \<Rightarrow> (None, s1)
      | (Some msg1, s1) \<Rightarrow>
          (case ik_responder_reply c own_static e2 msg1 of
             None \<Rightarrow> (None, s1)
           | Some (msg2, r) \<Rightarrow>
               (case send_all msg2 s1 of
                  (False, s2) \<Rightarrow> (None, s2)
                | (True, s2) \<Rightarrow> (Some r, s2))))"

section \<open>Key agreement\<close>

lemma decrypt_encrypt:
  assumes "crypto_ok c" "encrypt_and_hash c plaintext st = (ct, st')"
  shows "decrypt_and_hash c ct st = Some (plaintext, st')"
  using assms
  by (auto simp: encrypt_and_hash_def decrypt_and_hash_def aead_encrypt_def aead_decrypt_def crypto_ok_def
      split: if_splits)

lemma length_encrypt:
  assumes "crypto_ok c" "encrypt_and_hash c plaintext st = (ct, st')" "ss_has_key st"
  shows "length ct = length plaintext + 16"
  using assms by (auto simp: encrypt_and_hash_def aead_encrypt_def crypto_ok_def)

lemma mix_key_has_key [simp]: "ss_has_key (mix_key c ikm st)"
  by (simp add: mix_key_def split: prod.split)

lemma dh_sym:
  "crypto_ok c \<Longrightarrow> dh c (private_key (keypair_of c a)) (public_key (keypair_of c b)) =
    dh c (private_key (keypair_of c b)) (public_key (keypair_of c a))"
  by (simp add: dh_def keypair_of_def crypto_ok_def)

text \<open>The messages of an honest run: what the responder answers and what the initiator concludes.\<close>

lemma ik_honest_run:
  assumes ok: "crypto_ok c"
    and keys: "i = keypair_of c si" "r = keypair_of c sr" "e = keypair_of c se" "e2 = keypair_of c se2"
    and len: "length (public_key i) = 32" "length (public_key e) = 32" "length (public_key e2) = 32"
    and dh: "dh c (private_key e) (public_key r) = Some es" "dh c (private_key i) (public_key r) = Some ss"
      "dh c (private_key e) (public_key e2) = Some ee" "dh c (private_key i) (public_key e2) = Some se'"
  obtains msg1 st msg2 k1 k2 where
    "ik_initiator_start c i (public_key r) e = Some (msg1, st)" "length msg1 = kMsg1Size"
    "ik_responder_reply c r e2 msg1 =
       Some (msg2, \<lparr>ik_keys = \<lparr>send_key = k2, recv_key = k1\<rparr>, ik_peer_static = public_key i\<rparr>)"
    "length msg2 = kMsg2Size"
    "ik_initiator_finish c i (public_key r) e st msg2 =
       Some \<lparr>ik_keys = \<lparr>send_key = k1, recv_key = k2\<rparr>, ik_peer_static = public_key r\<rparr>"
proof -
  define st1 where "st1 = mix_hash c (public_key e) (mix_hash c (public_key r) (initialize_symmetric c kProtocolName))"
  obtain ct_s st3 where s3: "encrypt_and_hash c (public_key i) (mix_key c es st1) = (ct_s, st3)" by fastforce
  obtain ct_p st5 where s5: "encrypt_and_hash c [] (mix_key c ss st3) = (ct_p, st5)" by fastforce
  define st8 where "st8 = mix_key c se' (mix_key c ee (mix_hash c (public_key e2) st5))"
  obtain ct2 st9 where s9: "encrypt_and_hash c [] st8 = (ct2, st9)" by fastforce
  obtain k1 k2 where k: "split_keys c st9 = (k1, k2)" by fastforce
  have lens: "length ct_s = 48" "length ct_p = 16" "length ct2 = 16"
    using length_encrypt [OF ok s3] length_encrypt [OF ok s5] length_encrypt [OF ok s9] len
    by (simp_all add: st8_def)
  have dh': "dh c (private_key r) (public_key e) = Some es" "dh c (private_key r) (public_key i) = Some ss"
    "dh c (private_key e2) (public_key e) = Some ee" "dh c (private_key e2) (public_key i) = Some se'"
    using dh dh_sym [OF ok] unfolding keys by metis+
  let ?msg1 = "public_key e @ ct_s @ ct_p"
  let ?msg2 = "public_key e2 @ ct2"
  have start: "ik_initiator_start c i (public_key r) e = Some (?msg1, st5)"
    unfolding ik_initiator_start_def using s3 s5 by (simp add: dh st1_def [symmetric] Let_def)
  have reply: "ik_responder_reply c r e2 ?msg1 =
      Some (?msg2, \<lparr>ik_keys = \<lparr>send_key = k2, recv_key = k1\<rparr>, ik_peer_static = public_key i\<rparr>)"
    unfolding ik_responder_reply_def using s3 s5 s9 k lens len
    by (simp add: dh' st1_def [symmetric] decrypt_encrypt [OF ok s3] decrypt_encrypt [OF ok s5]
        st8_def [symmetric] Let_def)
  have finish: "ik_initiator_finish c i (public_key r) e st5 ?msg2 =
      Some \<lparr>ik_keys = \<lparr>send_key = k1, recv_key = k2\<rparr>, ik_peer_static = public_key r\<rparr>"
    unfolding ik_initiator_finish_def using k lens len
    by (simp add: dh decrypt_encrypt [OF ok s9] st8_def [symmetric] Let_def)
  show thesis
    using that [OF start _ reply _ finish] lens len by (simp add: kMsg1Size_def kMsg2Size_def)
qed

lemma recv_all_arrived:
  assumes "arrived (sk_events s) = bs" "length bs = n" "sk_clock s < deadline"
  shows "\<exists>s'. recv_all n deadline s = (Some bs, s') \<and> sk_out s' = sk_out s \<and> sk_sends s' = sk_sends s"
proof -
  obtain b s' where r: "read_loop n deadline s = (ReadOk, b, s')"
    "arrived (sk_events s) = b @ arrived (sk_events s')" "length b = n"
    using read_loop_arrived [of n s deadline] assms(2,3) unfolding assms(1) by blast
  then have "b = bs" using assms(1,2) by simp
  with r(1) read_loop_stream [OF r(1)] show ?thesis by (simp add: recv_all_def)
qed

text \<open>
  C12. An honest handshake succeeds on both ends and agrees: when each side's first bytes are what the
  other one sent, both report success, each one's sending key is the other one's receiving key, the
  responder learns the initiator's static public key and the initiator the responder's.
\<close>

theorem ik_key_agreement:
  assumes "crypto_ok c"
    and "i = keypair_of c si" "r = keypair_of c sr" "e = keypair_of c se" "e2 = keypair_of c se2"
    and "length (public_key i) = 32" "length (public_key e) = 32" "length (public_key e2) = 32"
    and "dh c (private_key e) (public_key r) \<noteq> None" "dh c (private_key i) (public_key r) \<noteq> None"
    and "dh c (private_key e) (public_key e2) \<noteq> None" "dh c (private_key i) (public_key e2) \<noteq> None"
    and "run_ik_initiator c i (public_key r) e deadline ski = (ri, ski')"
    and "run_ik_responder c r e2 deadline skr = (rr, skr')"
    and "sk_sends ski = []" "sk_sends skr = []" "sk_out ski = []" "sk_out skr = []"
    and "sk_clock ski < deadline" "sk_clock skr < deadline"
    and "arrived (sk_events skr) = sk_out ski'" "arrived (sk_events ski) = sk_out skr'"
  shows "\<exists>k1 k2. ri = Some \<lparr>ik_keys = \<lparr>send_key = k1, recv_key = k2\<rparr>, ik_peer_static = public_key r\<rparr> \<and>
    rr = Some \<lparr>ik_keys = \<lparr>send_key = k2, recv_key = k1\<rparr>, ik_peer_static = public_key i\<rparr>"
proof -
  obtain es ss ee se' where dh: "dh c (private_key e) (public_key r) = Some es"
    "dh c (private_key i) (public_key r) = Some ss" "dh c (private_key e) (public_key e2) = Some ee"
    "dh c (private_key i) (public_key e2) = Some se'"
    using assms(9-12) by auto
  obtain msg1 st msg2 k1 k2 where
    start: "ik_initiator_start c i (public_key r) e = Some (msg1, st)" "length msg1 = kMsg1Size" and
    reply: "ik_responder_reply c r e2 msg1 =
       Some (msg2, \<lparr>ik_keys = \<lparr>send_key = k2, recv_key = k1\<rparr>, ik_peer_static = public_key i\<rparr>)"
      "length msg2 = kMsg2Size" and
    finish: "ik_initiator_finish c i (public_key r) e st msg2 =
       Some \<lparr>ik_keys = \<lparr>send_key = k1, recv_key = k2\<rparr>, ik_peer_static = public_key r\<rparr>"
    by (rule ik_honest_run [OF assms(1-8) dh])
  let ?s1 = "ski\<lparr>sk_out := msg1\<rparr>"
  have sent: "send_all msg1 ski = (True, ?s1)"
    using send_all_empty_sends [OF assms(15), of msg1] assms(17) by simp
  have "sk_out ski' = msg1"
  proof -
    obtain b s2 where r2: "recv_all kMsg2Size deadline ?s1 = (b, s2)" by fastforce
    then have "sk_out s2 = msg1"
      using read_loop_stream [of kMsg2Size deadline ?s1]
      by (auto simp: recv_all_def split: prod.splits read_status.splits)
    with r2 assms(13) start sent show ?thesis
      by (auto simp: run_ik_initiator_def split: option.splits)
  qed
  then have in1: "arrived (sk_events skr) = msg1" using assms(21) by simp
  from recv_all_arrived [OF this start(2) assms(20)] obtain s3 where
    r1: "recv_all kMsg1Size deadline skr = (Some msg1, s3)" "sk_out s3 = []" "sk_sends s3 = []"
    using assms(16,18) by auto
  then have rr: "rr = Some \<lparr>ik_keys = \<lparr>send_key = k2, recv_key = k1\<rparr>, ik_peer_static = public_key i\<rparr>"
    "sk_out skr' = msg2"
    using assms(14) reply send_all_empty_sends [of s3 msg2] by (auto simp: run_ik_responder_def)
  then have "arrived (sk_events ?s1) = msg2" using assms(22) by simp
  from recv_all_arrived [OF this reply(2), of deadline] obtain s2 where
    "recv_all kMsg2Size deadline ?s1 = (Some msg2, s2)" using assms(19) by auto
  then have "ri = Some \<lparr>ik_keys = \<lparr>send_key = k1, recv_key = k2\<rparr>, ik_peer_static = public_key r\<rparr>"
    using assms(13) start sent finish by (simp add: run_ik_initiator_def)
  with rr show ?thesis by blast
qed

text \<open>A concrete instance of the interface for the examples below: not secure, but lawful.\<close>

definition toy_crypto :: crypto where
  "toy_crypto = \<lparr>sha256 = (\<lambda>m. take 32 (m @ replicate 32 0)),
     hmac_sha256 = (\<lambda>k m. take 32 (k @ m @ replicate 32 0)),
     x25519 = (\<lambda>a b. Some (map2 (XOR) a b)), x25519_base = (\<lambda>a. a),
     chacha_seal = (\<lambda>k n ad pt. pt @ replicate 16 0),
     chacha_open = (\<lambda>k n ad ct. if length ct < 16 then None else Some (take (length ct - 16) ct)),
     generichash = (\<lambda>m. take 32 (m @ replicate 32 0))\<rparr>"

lemma toy_crypto_ok: "crypto_ok toy_crypto"
proof -
  have "map2 (XOR) a b = map2 (XOR) b (a :: bytes)" for a b
    by (induction a arbitrary: b) (auto simp: xor.commute split: list.split simp: zip_Cons1)
  then show ?thesis by (simp add: crypto_ok_def toy_crypto_def)
qed

theorem ik_key_agreement_witness:
  "\<exists>msg1 msg2 k1 k2.
     fst (run_ik_initiator toy_crypto (keypair_of toy_crypto (replicate 32 1)) (replicate 32 2)
       (keypair_of toy_crypto (replicate 32 3)) 5000
       \<lparr>sk_clock = 0, sk_timeout = 200, sk_events = [Arrive msg2], sk_sends = [], sk_out = []\<rparr>) =
     Some \<lparr>ik_keys = \<lparr>send_key = k1, recv_key = k2\<rparr>, ik_peer_static = replicate 32 2\<rparr> \<and>
     fst (run_ik_responder toy_crypto (keypair_of toy_crypto (replicate 32 2))
       (keypair_of toy_crypto (replicate 32 4)) 5000
       \<lparr>sk_clock = 0, sk_timeout = 200, sk_events = [Arrive msg1], sk_sends = [], sk_out = []\<rparr>) =
     Some \<lparr>ik_keys = \<lparr>send_key = k2, recv_key = k1\<rparr>, ik_peer_static = replicate 32 1\<rparr>"
proof -
  let ?k = "\<lambda>n. keypair_of toy_crypto (replicate 32 n)"
  let ?s = "\<lambda>m. \<lparr>sk_clock = 0, sk_timeout = 200, sk_events = [Arrive m], sk_sends = [], sk_out = []\<rparr>"
  have pub: "public_key (?k n) = replicate 32 n" for n by (simp add: keypair_of_def toy_crypto_def)
  have len: "length (public_key (?k n)) = 32" for n by (simp add: pub)
  have dhs: "dh toy_crypto a b = Some (map2 (XOR) a b)" for a b by (simp add: dh_def toy_crypto_def)
  obtain msg1 st msg2 k1 k2 where
    start: "ik_initiator_start toy_crypto (?k 1) (public_key (?k 2)) (?k 3) = Some (msg1, st)" "length msg1 = kMsg1Size" and
    reply: "ik_responder_reply toy_crypto (?k 2) (?k 4) msg1 =
       Some (msg2, \<lparr>ik_keys = \<lparr>send_key = k2, recv_key = k1\<rparr>, ik_peer_static = public_key (?k 1)\<rparr>)"
      "length msg2 = kMsg2Size" and
    "ik_initiator_finish toy_crypto (?k 1) (public_key (?k 2)) (?k 3) st msg2 =
       Some \<lparr>ik_keys = \<lparr>send_key = k1, recv_key = k2\<rparr>, ik_peer_static = public_key (?k 2)\<rparr>"
    by (rule ik_honest_run [OF toy_crypto_ok refl refl refl refl len len len dhs dhs dhs dhs])
  obtain ri si' where i: "run_ik_initiator toy_crypto (?k 1) (public_key (?k 2)) (?k 3) 5000 (?s msg2) = (ri, si')" by fastforce
  obtain rr sr' where r: "run_ik_responder toy_crypto (?k 2) (?k 4) 5000 (?s msg1) = (rr, sr')" by fastforce
  have "sk_out si' = msg1"
    using i start read_loop_stream [of kMsg2Size 5000 "(?s msg2)\<lparr>sk_out := msg1\<rparr>"]
    by (auto simp: run_ik_initiator_def send_all_empty_sends recv_all_def split: prod.splits read_status.splits)
  moreover have "sk_out sr' = msg2"
    using r reply recv_all_arrived [of "?s msg1" msg1 kMsg1Size 5000] start(2)
    by (auto simp: run_ik_responder_def send_all_empty_sends)
  ultimately have "\<exists>k1 k2. ri = Some \<lparr>ik_keys = \<lparr>send_key = k1, recv_key = k2\<rparr>, ik_peer_static = public_key (?k 2)\<rparr> \<and>
      rr = Some \<lparr>ik_keys = \<lparr>send_key = k2, recv_key = k1\<rparr>, ik_peer_static = public_key (?k 1)\<rparr>"
    by (intro ik_key_agreement [OF toy_crypto_ok refl refl refl refl _ _ _ _ _ _ _ i r]) (simp_all add: pub dhs)
  then obtain q1 q2 where
    "ri = Some \<lparr>ik_keys = \<lparr>send_key = q1, recv_key = q2\<rparr>, ik_peer_static = public_key (?k 2)\<rparr>"
    "rr = Some \<lparr>ik_keys = \<lparr>send_key = q2, recv_key = q1\<rparr>, ik_peer_static = public_key (?k 1)\<rparr>" by blast
  with i r have
    "fst (run_ik_initiator toy_crypto (?k 1) (replicate 32 2) (?k 3) 5000 (?s msg2)) =
       Some \<lparr>ik_keys = \<lparr>send_key = q1, recv_key = q2\<rparr>, ik_peer_static = replicate 32 2\<rparr>"
    "fst (run_ik_responder toy_crypto (?k 2) (?k 4) 5000 (?s msg1)) =
       Some \<lparr>ik_keys = \<lparr>send_key = q2, recv_key = q1\<rparr>, ik_peer_static = replicate 32 1\<rparr>"
    by (simp_all add: pub)
  then show ?thesis by blast
qed

text \<open>The protocol name has exactly 32 bytes, so the initial hash is the name itself.\<close>

lemma noise_name_not_hashed: "ss_h (initialize_symmetric c kProtocolName) = kProtocolName"
  by (simp add: initialize_symmetric_def kProtocolName_def Let_def)

section \<open>Nonces\<close>

lemma nonce_bytes_nth: "i < 8 \<Longrightarrow> nonce_bytes n ! (4 + i) = ucast (drop_bit (8 * i) n)"
  by (simp add: nonce_bytes_def nth_append)

lemma nonce_bytes_eq_iff: "nonce_bytes a = nonce_bytes b \<longleftrightarrow> a = b"
proof
  assume eq: "nonce_bytes a = nonce_bytes b"
  show "a = b"
  proof (rule bit_word_eqI)
    fix n assume "n < LENGTH(64)"
    then have n: "n div 8 < 8" by simp
    have "(ucast (drop_bit (8 * (n div 8)) a) :: byte) = ucast (drop_bit (8 * (n div 8)) b)"
      using eq nonce_bytes_nth [OF n] by metis
    then have "bit (ucast (drop_bit (8 * (n div 8)) a) :: byte) (n mod 8) =
        bit (ucast (drop_bit (8 * (n div 8)) b) :: byte) (n mod 8)" by simp
    then show "bit a n = bit b n" by (simp add: bit_simps)
  qed
qed simp

end
