(* ===== verification/SecureChannel.thy ===== *)
theory SecureChannel
  imports Noise
begin

text \<open>
  \<^verbatim>\<open>src/discovery/secure_channel.cpp\<close>: length-prefixed encrypted frames over the connected socket,
  with one nonce counter per direction.
\<close>

section \<open>State and operations\<close>

definition kFrameTimeout :: int where "kFrameTimeout = 3000"
definition kMaxFrameLen :: u32 where "kMaxFrameLen = push_bit 20 8"

record channel =
  ch_sock :: sock
  ch_keys :: transport_keys
  ch_send_nonce :: u64
  ch_recv_nonce :: u64

definition channel_new :: "sock \<Rightarrow> transport_keys \<Rightarrow> channel" where
  "channel_new s keys = \<lparr>ch_sock = s, ch_keys = keys, ch_send_nonce = 0, ch_recv_nonce = 0\<rparr>"

datatype recv_outcome = RTimeout | RClosed | RError | ROk byte bytes

definition channel_send :: "crypto \<Rightarrow> byte \<Rightarrow> bytes \<Rightarrow> channel \<Rightarrow> bool \<times> channel" where
  "channel_send c msg_type payload ch =
     (let plaintext = msg_type # payload;
          ciphertext = aead_encrypt c (send_key (ch_keys ch)) (ch_send_nonce ch) [] plaintext;
          ch1 = ch\<lparr>ch_send_nonce := ch_send_nonce ch + 1\<rparr>;
          ct_len = of_nat (length ciphertext) :: u32;
          (ok1, s1) = send_all (write_be32 ct_len) (ch_sock ch1)
      in if ok1 then (let (ok2, s2) = send_all ciphertext s1 in (ok2, ch1\<lparr>ch_sock := s2\<rparr>))
         else (False, ch1\<lparr>ch_sock := s1\<rparr>))"

definition channel_receive :: "crypto \<Rightarrow> int \<Rightarrow> channel \<Rightarrow> recv_outcome \<times> channel" where
  "channel_receive c deadline ch =
     (let now = sk_clock (ch_sock ch);
          wait_ms = (if deadline > now then nat (deadline - now) else 0);
          (readable, s1) = wait_readable wait_ms (ch_sock ch)
      in if \<not> readable then (RTimeout, ch\<lparr>ch_sock := s1\<rparr>)
         else let frame_deadline = sk_clock s1 + kFrameTimeout in
           case read_exact 4 frame_deadline s1 of
             (ReadClosed, _, s2) \<Rightarrow> (RClosed, ch\<lparr>ch_sock := s2\<rparr>)
           | (ReadDeadline, _, s2) \<Rightarrow> (RError, ch\<lparr>ch_sock := s2\<rparr>)
           | (ReadOk, len_buf, s2) \<Rightarrow>
               (let ct_len = read_be32 len_buf in
                if ct_len = 0 \<or> ct_len > kMaxFrameLen then (RError, ch\<lparr>ch_sock := s2\<rparr>)
                else case read_exact (unat ct_len) frame_deadline s2 of
                  (ReadClosed, _, s3) \<Rightarrow> (RClosed, ch\<lparr>ch_sock := s3\<rparr>)
                | (ReadDeadline, _, s3) \<Rightarrow> (RError, ch\<lparr>ch_sock := s3\<rparr>)
                | (ReadOk, ciphertext, s3) \<Rightarrow>
                    (case aead_decrypt c (recv_key (ch_keys ch)) (ch_recv_nonce ch) [] ciphertext of
                       None \<Rightarrow> (RError, ch\<lparr>ch_sock := s3\<rparr>)
                     | Some plaintext \<Rightarrow>
                         (let ch1 = ch\<lparr>ch_sock := s3, ch_recv_nonce := ch_recv_nonce ch + 1\<rparr> in
                          case plaintext of
                            [] \<Rightarrow> (RError, ch1)
                          | ty # payload \<Rightarrow> (ROk ty payload, ch1)))))"

section \<open>The byte stream of a sequence of messages\<close>

definition frame :: "crypto \<Rightarrow> bytes \<Rightarrow> u64 \<Rightarrow> byte \<times> bytes \<Rightarrow> bytes" where
  "frame c k n m =
     (let ct = aead_encrypt c k n [] (fst m # snd m) in write_be32 (of_nat (length ct)) @ ct)"

fun frames :: "crypto \<Rightarrow> bytes \<Rightarrow> u64 \<Rightarrow> (byte \<times> bytes) list \<Rightarrow> bytes" where
  "frames c k n [] = []"
| "frames c k n (m # ms) = frame c k n m @ frames c k (n + 1) ms"

fun send_msgs :: "crypto \<Rightarrow> (byte \<times> bytes) list \<Rightarrow> channel \<Rightarrow> bool \<times> channel" where
  "send_msgs c [] ch = (True, ch)"
| "send_msgs c ((ty, payload) # ms) ch =
     (case channel_send c ty payload ch of
        (False, ch') \<Rightarrow> (False, ch')
      | (True, ch') \<Rightarrow> send_msgs c ms ch')"

text \<open>A receiving loop: one \<open>receive\<close> per deadline, until the channel reports a close or an error.\<close>

fun receive_run :: "crypto \<Rightarrow> int list \<Rightarrow> channel \<Rightarrow> (byte \<times> bytes) list" where
  "receive_run c [] ch = []"
| "receive_run c (d # ds) ch =
     (case channel_receive c d ch of
        (ROk ty payload, ch') \<Rightarrow> (ty, payload) # receive_run c ds ch'
      | (RTimeout, ch') \<Rightarrow> receive_run c ds ch'
      | (RClosed, _) \<Rightarrow> []
      | (RError, _) \<Rightarrow> [])"

lemma channel_send_frame:
  assumes "channel_send c ty payload ch = (True, ch')"
  shows "sk_out (ch_sock ch') = sk_out (ch_sock ch) @ frame c (send_key (ch_keys ch)) (ch_send_nonce ch) (ty, payload)"
    "ch_keys ch' = ch_keys ch" "ch_send_nonce ch' = ch_send_nonce ch + 1"
  using assms by (auto simp: channel_send_def frame_def Let_def dest!: send_all_ok split: prod.splits if_splits)

lemma send_msgs_frames:
  "send_msgs c ms ch = (True, ch') \<Longrightarrow>
   sk_out (ch_sock ch') = sk_out (ch_sock ch) @ frames c (send_key (ch_keys ch)) (ch_send_nonce ch) ms"
proof (induction c ms ch rule: send_msgs.induct)
  case (2 c ty payload ms ch)
  obtain ok ch1 where one: "channel_send c ty payload ch = (ok, ch1)" by fastforce
  with 2 have ok: "ok" by (cases ok) auto
  with 2 one have rest: "send_msgs c ms ch1 = (True, ch')" by simp
  note fr = channel_send_frame [OF one [unfolded eqTrueI [OF ok]]]
  from 2(1) [OF _ _ rest] one ok fr show ?case by simp
qed simp

definition sane_size :: "byte \<times> bytes \<Rightarrow> bool" where
  "sane_size m \<longleftrightarrow> length (snd m) + 17 < 2 ^ 32"

lemma length_ct: "crypto_ok c \<Longrightarrow> length (aead_encrypt c k n ad pt) = length pt + 16"
  by (simp add: crypto_ok_def aead_encrypt_def)

lemma ct_len_exact:
  assumes "crypto_ok c" "sane_size m"
  shows "unat (of_nat (length (aead_encrypt c k n [] (fst m # snd m))) :: u32) = length (snd m) + 17"
  unfolding length_ct [OF assms(1)] unat_of_nat using assms(2) by (simp add: sane_size_def)

lemma aead_roundtrip: "crypto_ok c \<Longrightarrow> aead_decrypt c k n ad (aead_encrypt c k n ad pt) = Some pt"
  by (simp add: crypto_ok_def aead_encrypt_def aead_decrypt_def)

text \<open>The stream read so far and still to come is a prefix of the sender's.\<close>

lemma wait_events_stream: "wait_events n t es = (r, t', es') \<Longrightarrow> stream_of es' = stream_of es"
  by (induction n t es rule: wait_events.induct) (auto split: if_splits)

lemma wait_readable_stream: "wait_readable n s = (r, s') \<Longrightarrow> incoming s' = incoming s"
  by (auto simp: wait_readable_def Let_def wait_events_stream split: prod.splits)

lemma channel_receive_ok:
  assumes "crypto_ok c" "channel_receive c d ch = (ROk ty payload, ch')"
    and "incoming (ch_sock ch) @ z = frames c (recv_key (ch_keys ch)) (ch_recv_nonce ch) ms"
    and "list_all sane_size ms"
  obtains ms' where "ms = (ty, payload) # ms'"
    "incoming (ch_sock ch') @ z = frames c (recv_key (ch_keys ch')) (ch_recv_nonce ch') ms'"
    "ch_keys ch' = ch_keys ch"
proof -
  from assms(2) obtain s1 len_buf s2 ct s3 where
    w: "wait_readable (if d > sk_clock (ch_sock ch) then nat (d - sk_clock (ch_sock ch)) else 0) (ch_sock ch) = (True, s1)" and
    hdr: "read_exact 4 (sk_clock s1 + kFrameTimeout) s1 = (ReadOk, len_buf, s2)" and
    body: "read_exact (unat (read_be32 len_buf)) (sk_clock s1 + kFrameTimeout) s2 = (ReadOk, ct, s3)" and
    dec: "aead_decrypt c (recv_key (ch_keys ch)) (ch_recv_nonce ch) [] ct = Some (ty # payload)" and
    ch': "ch' = ch\<lparr>ch_sock := s3, ch_recv_nonce := ch_recv_nonce ch + 1\<rparr>"
    unfolding channel_receive_def Let_def
    by (auto split: prod.splits if_splits read_status.splits option.splits list.splits)
  let ?k = "recv_key (ch_keys ch)" and ?n = "ch_recv_nonce ch"
  have stream: "incoming (ch_sock ch) = len_buf @ ct @ incoming s3" "length len_buf = 4"
    "length ct = unat (read_be32 len_buf)"
    using wait_readable_stream [OF w] read_loop_stream [OF hdr [unfolded read_exact_def]]
      read_loop_stream [OF body [unfolded read_exact_def]] by auto
  from assms(3) stream(1,2) obtain m ms' where ms: "ms = m # ms'"
    by (cases ms) auto
  let ?ct = "aead_encrypt c ?k ?n [] (fst m # snd m)"
  have all: "len_buf @ ct @ incoming s3 @ z = write_be32 (of_nat (length ?ct)) @ ?ct @ frames c ?k (?n + 1) ms'"
    using assms(3) stream(1) by (simp add: ms frame_def Let_def)
  then have h: "len_buf = write_be32 (of_nat (length ?ct))" and
    rest: "ct @ incoming s3 @ z = ?ct @ frames c ?k (?n + 1) ms'"
    using stream(2) by (simp_all add: append_eq_append_conv)
  have "length ct = length ?ct"
    using stream(3) ct_len_exact [OF assms(1), of m] assms(4)
    unfolding h read_write_be32_Nil by (simp add: ms length_ct [OF assms(1)])
  with rest have "ct = ?ct" "incoming s3 @ z = frames c ?k (?n + 1) ms'" by simp_all
  moreover from this(1) dec aead_roundtrip [OF assms(1)] have "fst m # snd m = ty # payload" by simp
  ultimately show thesis using that [of ms'] ms ch' by (cases m) simp
qed

lemma channel_receive_other:
  assumes "channel_receive c d ch = (RTimeout, ch')"
  shows "ch_keys ch' = ch_keys ch" "ch_recv_nonce ch' = ch_recv_nonce ch"
    "incoming (ch_sock ch') = incoming (ch_sock ch)"
proof -
  have "\<exists>n s1. wait_readable n (ch_sock ch) = (False, s1) \<and> ch' = ch\<lparr>ch_sock := s1\<rparr>"
    using assms unfolding channel_receive_def Let_def
    by (auto split: prod.splits if_splits read_status.splits option.splits list.splits)
  then show "ch_keys ch' = ch_keys ch" "ch_recv_nonce ch' = ch_recv_nonce ch"
    "incoming (ch_sock ch') = incoming (ch_sock ch)"
    by (auto dest: wait_readable_stream)
qed

lemma receive_run_prefix:
  assumes "crypto_ok c" "list_all sane_size ms"
    and "incoming (ch_sock ch) @ z = frames c (recv_key (ch_keys ch)) (ch_recv_nonce ch) ms"
  shows "\<exists>rest. ms = receive_run c ds ch @ rest"
  using assms(2,3)
proof (induction ds arbitrary: ch ms)
  case (Cons d ds)
  obtain r ch' where r: "channel_receive c d ch = (r, ch')" by fastforce
  show ?case
  proof (cases r)
    case (ROk ty payload)
    with channel_receive_ok [OF assms(1) _ Cons.prems(2,1)] r obtain ms' where
      ms': "ms = (ty, payload) # ms'" "incoming (ch_sock ch') @ z = frames c (recv_key (ch_keys ch')) (ch_recv_nonce ch') ms'"
      by metis
    with Cons.prems(1) Cons.IH [OF _ ms'(2)] r ROk show ?thesis by auto
  next
    case RTimeout
    with r channel_receive_other [of c d ch ch'] Cons.prems Cons.IH [of ms ch'] show ?thesis by simp
  qed (use r in auto)
qed simp

text \<open>
  C1. In-order delivery. If the receiver's key is the sender's, both counters agree, and the bytes that
  ever arrive are a prefix of the bytes that were sent, then however they are split and delayed, and
  whenever the receiver polls, the messages it gets are a prefix of the messages sent: none is lost
  in between, reordered, duplicated or altered.
\<close>

theorem channel_delivers_in_order:
  assumes "crypto_ok c" "list_all sane_size ms"
    and "send_msgs c ms snd_ch = (True, snd_ch')" "sk_out (ch_sock snd_ch) = []"
    and "recv_key (ch_keys rcv_ch) = send_key (ch_keys snd_ch)" "ch_recv_nonce rcv_ch = ch_send_nonce snd_ch"
    and "sk_out (ch_sock snd_ch') = incoming (ch_sock rcv_ch) @ undelivered"
  shows "\<exists>rest. ms = receive_run c deadlines rcv_ch @ rest"
  using send_msgs_frames [OF assms(3)] assms(4-7)
  by (intro receive_run_prefix [OF assms(1,2), where z = undelivered]) simp

section \<open>Progress\<close>

lemma wait_events_arrived: "arrived es \<noteq> [] \<Longrightarrow> \<exists>es'. wait_events n t es = (True, t, es') \<and> arrived es' = arrived es"
  by (induction n t es rule: wait_events.induct) auto

text \<open>What the receiver makes of a frame that has arrived completely.\<close>

lemma channel_receive_arrived:
  assumes "arrived (sk_events (ch_sock ch)) = write_be32 (of_nat (length ct)) @ ct @ later"
    and "length ct < 2 ^ 32" "ct \<noteq> []"
  shows "if length ct \<le> unat kMaxFrameLen
    then \<exists>s'. arrived (sk_events s') = later \<and>
      channel_receive c d ch =
        (case aead_decrypt c (recv_key (ch_keys ch)) (ch_recv_nonce ch) [] ct of
           None \<Rightarrow> (RError, ch\<lparr>ch_sock := s'\<rparr>)
         | Some [] \<Rightarrow> (RError, ch\<lparr>ch_sock := s', ch_recv_nonce := ch_recv_nonce ch + 1\<rparr>)
         | Some (ty # payload) \<Rightarrow>
             (ROk ty payload, ch\<lparr>ch_sock := s', ch_recv_nonce := ch_recv_nonce ch + 1\<rparr>))
    else \<exists>s'. arrived (sk_events s') = ct @ later \<and> channel_receive c d ch = (RError, ch\<lparr>ch_sock := s'\<rparr>)"
proof -
  let ?w = "if d > sk_clock (ch_sock ch) then nat (d - sk_clock (ch_sock ch)) else 0"
  have "arrived (sk_events (ch_sock ch)) \<noteq> []" using assms(1,3) by auto
  from wait_events_arrived [OF this, of ?w "sk_clock (ch_sock ch)"] obtain s1 where
    w: "wait_readable ?w (ch_sock ch) = (True, s1)" "sk_clock s1 = sk_clock (ch_sock ch)"
      "arrived (sk_events s1) = write_be32 (of_nat (length ct)) @ ct @ later"
    using assms(1) by (auto simp: wait_readable_def)
  let ?dl = "sk_clock s1 + kFrameTimeout"
  have "4 \<le> length (arrived (sk_events s1))" "sk_clock s1 < ?dl" unfolding w(3) by (simp_all add: kFrameTimeout_def)
  from read_loop_arrived [OF this] obtain hdr s2 where
    h: "read_exact 4 ?dl s1 = (ReadOk, hdr, s2)" "sk_clock s2 = sk_clock s1" "length hdr = 4"
      "hdr @ arrived (sk_events s2) = write_be32 (of_nat (length ct)) @ ct @ later"
    unfolding w(3) read_exact_def by metis
  then have hdr: "hdr = write_be32 (of_nat (length ct))" "arrived (sk_events s2) = ct @ later"
    by (simp_all add: append_eq_append_conv)
  have len: "unat (of_nat (length ct) :: u32) = length ct"
    using assms(2) by (simp add: unat_of_nat)
  have "length ct \<le> length (arrived (sk_events s2))" "sk_clock s2 < ?dl"
    using h(2) unfolding hdr(2) by (simp_all add: kFrameTimeout_def)
  from read_loop_arrived [OF this] obtain ct' s3 where
    b: "read_exact (length ct) ?dl s2 = (ReadOk, ct', s3)" "length ct' = length ct"
      "ct' @ arrived (sk_events s3) = ct @ later"
    unfolding hdr(2) read_exact_def by metis
  then have body: "ct' = ct" "arrived (sk_events s3) = later" by simp_all
  have nz: "(of_nat (length ct) :: u32) \<noteq> 0" using len assms(3) by auto
  have big: "(of_nat (length ct) :: u32) > kMaxFrameLen \<longleftrightarrow> \<not> length ct \<le> unat kMaxFrameLen"
    unfolding word_less_nat_alt len by auto
  show ?thesis
  proof (cases "length ct \<le> unat kMaxFrameLen")
    case True
    with nz big show ?thesis
      using w(1) h(1) b(1) body len
      by (auto simp: channel_receive_def Let_def hdr(1) intro!: exI [of _ s3] split: option.split list.split)
  next
    case False
    with big show ?thesis
      using w(1) h(1) hdr(2) by (auto simp: channel_receive_def Let_def hdr(1))
  qed
qed

text \<open>
  A message of at most 8 MiB, tag included, whose frame has arrived completely is returned at once,
  and the channel is then ready for the next one; a longer message is an error for the receiver.
\<close>

theorem channel_delivers_arrived:
  assumes "crypto_ok c" "sane_size m"
    and "arrived (sk_events (ch_sock ch)) = frame c (recv_key (ch_keys ch)) (ch_recv_nonce ch) m @ later"
  shows "if length (snd m) + 17 \<le> unat kMaxFrameLen
    then \<exists>ch'. channel_receive c d ch = (ROk (fst m) (snd m), ch') \<and>
      arrived (sk_events (ch_sock ch')) = later \<and> ch_recv_nonce ch' = ch_recv_nonce ch + 1 \<and> ch_keys ch' = ch_keys ch
    else fst (channel_receive c d ch) = RError"
proof -
  let ?ct = "aead_encrypt c (recv_key (ch_keys ch)) (ch_recv_nonce ch) [] (fst m # snd m)"
  have lct: "length ?ct = length (snd m) + 17" by (simp add: length_ct [OF assms(1)])
  have a: "arrived (sk_events (ch_sock ch)) = write_be32 (of_nat (length ?ct)) @ ?ct @ later"
    using assms(3) by (simp add: frame_def Let_def)
  have "length ?ct < 2 ^ 32" "?ct \<noteq> []" using assms(2) lct by (auto simp: sane_size_def)
  from channel_receive_arrived [OF a this, of c d] show ?thesis
    by (auto simp: lct aead_roundtrip [OF assms(1)] split: if_splits)
qed

text \<open>Both theorems at a concrete session: a heartbeat and a key message over a lossless network.\<close>

definition demo_keys :: transport_keys where
  "demo_keys = \<lparr>send_key = replicate 32 7, recv_key = replicate 32 7\<rparr>"

definition demo_sock :: "net_event list \<Rightarrow> sock" where
  "demo_sock es = \<lparr>sk_clock = 0, sk_timeout = 200, sk_events = es, sk_sends = [], sk_out = []\<rparr>"

lemma demo_send:
  "\<exists>ch'. send_msgs c ms (channel_new (demo_sock []) demo_keys) = (True, ch') \<and>
     sk_out (ch_sock ch') = frames c (replicate 32 7) 0 ms"
proof -
  have "sk_sends (ch_sock ch) = [] \<Longrightarrow> \<exists>ch'. send_msgs c ms ch = (True, ch')" for ch
    by (induction c ms ch rule: send_msgs.induct)
      (auto simp: channel_send_def Let_def send_all_empty_sends)
  then obtain ch' where "send_msgs c ms (channel_new (demo_sock []) demo_keys) = (True, ch')"
    by (metis channel.select_convs(1) channel_new_def demo_sock_def sock.select_convs(4))
  with send_msgs_frames [OF this] show ?thesis by (auto simp: channel_new_def demo_sock_def demo_keys_def)
qed

theorem channel_delivers_in_order_witness:
  "\<exists>rest. [(10, []), (5, [1])] =
     receive_run toy_crypto [100, 200]
       (channel_new (demo_sock [Arrive (frames toy_crypto (replicate 32 7) 0 [(10, []), (5, [1])])]) demo_keys) @ rest"
proof -
  obtain ch' where s: "send_msgs toy_crypto [(10, []), (5, [1])] (channel_new (demo_sock []) demo_keys) = (True, ch')"
    "sk_out (ch_sock ch') = frames toy_crypto (replicate 32 7) 0 [(10, []), (5, [1])]"
    using demo_send by metis
  have "list_all sane_size [(10, []), (5, [1])]" by (simp add: sane_size_def)
  then show ?thesis
    by (rule channel_delivers_in_order [OF toy_crypto_ok _ s(1), where undelivered = "[]"])
      (use s(2) in \<open>simp_all add: channel_new_def demo_sock_def demo_keys_def\<close>)
qed

theorem channel_delivers_arrived_witness:
  "\<exists>ch'. channel_receive toy_crypto 200
     (channel_new (demo_sock [Arrive (frame toy_crypto (replicate 32 7) 0 (10, []))]) demo_keys) = (ROk 10 [], ch')"
proof -
  have "sane_size (10, [])" by (simp add: sane_size_def)
  from channel_delivers_arrived [OF toy_crypto_ok this, of
      "channel_new (demo_sock [Arrive (frame toy_crypto (replicate 32 7) 0 (10, []))]) demo_keys" "[]" 200]
  show ?thesis by (auto simp: channel_new_def demo_sock_def demo_keys_def kMaxFrameLen_def)
qed

end
