(* ===== verification/Session.thy ===== *)
theory Session
  imports SecureChannel Connection
begin

text \<open>
  What the two receive loops have in common: \<^verbatim>\<open>TcpServer::run\<close> (\<^verbatim>\<open>src/discovery/tcp_server.cpp\<close>) and
  \<^verbatim>\<open>TcpClient::run_once\<close> (\<^verbatim>\<open>src/discovery/tcp_client.cpp\<close>) keep the same local variables, answer
  pings, measure the round trip, keep the newest clipboard message and send heartbeats the same way.
  The steps both share are defined here once; the loops themselves are in \<open>TcpServer\<close> and
  \<open>TcpClient\<close>. The steady clock is the one of the socket: it moves while the thread waits for bytes.
\<close>

section \<open>State\<close>

definition kHandshakeTimeout :: int where "kHandshakeTimeout = 3000"
definition kHeartbeatInterval :: int where "kHeartbeatInterval = 1000"
definition kPingProbeTimeout :: int where "kPingProbeTimeout = 5000"

record session =
  se_channel :: channel
  se_info :: connection_info
  se_clipboard :: "clipboard_message option"
  se_last_heard :: int
  se_last_heartbeat :: int
  se_last_ping :: int
  se_next_seq :: u32
  se_in_flight :: "u32 option"
  se_ping_sent_at :: int

abbreviation se_clock :: "'a session_scheme \<Rightarrow> int" where
  "se_clock s \<equiv> sk_clock (ch_sock (se_channel s))"

abbreviation se_incoming :: "'a session_scheme \<Rightarrow> bytes" where
  "se_incoming s \<equiv> incoming (ch_sock (se_channel s))"

text \<open>
  What other threads do to a session before one iteration of its loop: the flags they leave, the
  heartbeat timeout in force (Master), the messages they send over the active channel, whether they
  take the pending clipboard message, and the monitors this machine has by then (Slave).
\<close>

record loop_input =
  li_running :: bool
  li_disconnect :: bool
  li_timeout :: int
  li_sends :: "(byte \<times> bytes) list"
  li_take :: bool
  li_monitors :: "monitor_info list"

section \<open>Steps\<close>

text \<open>The session threads ignore the result of \<^verbatim>\<open>channel.send\<close>.\<close>

definition session_send :: "crypto \<Rightarrow> byte \<Rightarrow> bytes \<Rightarrow> 'a session_scheme \<Rightarrow> 'a session_scheme" where
  "session_send c msg_type payload s = s\<lparr>se_channel := snd (channel_send c msg_type payload (se_channel s))\<rparr>"

definition take_pending_clipboard :: "'a session_scheme \<Rightarrow> clipboard_message option \<times> 'a session_scheme" where
  "take_pending_clipboard s = (se_clipboard s, s\<lparr>se_clipboard := None\<rparr>)"

definition ui_actions :: "crypto \<Rightarrow> loop_input \<Rightarrow> 'a session_scheme \<Rightarrow> 'a session_scheme" where
  "ui_actions c i s =
     (let s1 = fold (\<lambda>(ty, payload). session_send c ty payload) (li_sends i) s
      in if li_take i then snd (take_pending_clipboard s1) else s1)"

text \<open>The state a loop starts with, at the current time.\<close>

definition session_start :: "channel \<Rightarrow> connection_info \<Rightarrow> clipboard_message option \<Rightarrow> session" where
  "session_start ch info pending =
     (let now = sk_clock (ch_sock ch) in
      \<lparr>se_channel = ch, se_info = info, se_clipboard = pending, se_last_heard = now,
       se_last_heartbeat = now, se_last_ping = now, se_next_seq = 0, se_in_flight = None,
       se_ping_sent_at = 0\<rparr>)"

text \<open>One poll of at most 200 ms. Everything but silence counts as a sign of life.\<close>

definition session_receive :: "crypto \<Rightarrow> 'a session_scheme \<Rightarrow> recv_outcome \<times> 'a session_scheme" where
  "session_receive c s =
     (let (r, ch) = channel_receive c (se_clock s + 200) (se_channel s);
          s1 = s\<lparr>se_channel := ch\<rparr>
      in case r of
           RClosed \<Rightarrow> (r, s1)
         | RTimeout \<Rightarrow> (r, s1)
         | _ \<Rightarrow> (r, s1\<lparr>se_last_heard := se_clock s1\<rparr>))"

definition on_ping :: "crypto \<Rightarrow> bytes \<Rightarrow> 'a session_scheme \<Rightarrow> 'a session_scheme" where
  "on_ping c payload s =
     (case decode_ping_seq payload of
        None \<Rightarrow> s
      | Some seq \<Rightarrow> session_send c kMsgPong (encode_ping_seq seq) s)"

definition on_pong :: "bytes \<Rightarrow> 'a session_scheme \<Rightarrow> 'a session_scheme" where
  "on_pong payload s =
     (case (decode_ping_seq payload, se_in_flight s) of
        (Some seq, Some q) \<Rightarrow>
          if seq = q
          then s\<lparr>se_info := (se_info s)\<lparr>ci_rtt := se_clock s - se_ping_sent_at s\<rparr>, se_in_flight := None\<rparr>
          else s
      | _ \<Rightarrow> s)"

definition on_clipboard :: "byte \<Rightarrow> bytes \<Rightarrow> 'a session_scheme \<Rightarrow> 'a session_scheme" where
  "on_clipboard msg_type payload s =
     s\<lparr>se_clipboard := Some \<lparr>clip_type = (if msg_type = kMsgClipboardText then ClipText else ClipJpeg),
                            clip_data = payload\<rparr>\<rparr>"

definition send_heartbeat :: "crypto \<Rightarrow> 'a session_scheme \<Rightarrow> 'a session_scheme" where
  "send_heartbeat c s =
     (if se_clock s - se_last_heartbeat s \<ge> kHeartbeatInterval
      then (session_send c kMsgHeartbeat [] s)\<lparr>se_last_heartbeat := se_clock s\<rparr> else s)"

definition abandon_probe :: "'a session_scheme \<Rightarrow> 'a session_scheme" where
  "abandon_probe s =
     (if se_in_flight s \<noteq> None \<and> se_clock s - se_ping_sent_at s \<ge> kPingProbeTimeout
      then s\<lparr>se_in_flight := None\<rparr> else s)"

definition send_ping :: "crypto \<Rightarrow> 'a session_scheme \<Rightarrow> 'a session_scheme" where
  "send_ping c s =
     (if se_in_flight s = None \<and> se_clock s - se_last_ping s \<ge> kHeartbeatInterval
      then (session_send c kMsgPing (encode_ping_seq (se_next_seq s)) s)
             \<lparr>se_in_flight := Some (se_next_seq s), se_ping_sent_at := se_clock s,
              se_next_seq := se_next_seq s + 1, se_last_ping := se_clock s\<rparr>
      else s)"

definition keep_alive :: "crypto \<Rightarrow> 'a session_scheme \<Rightarrow> 'a session_scheme" where
  "keep_alive c s = send_ping c (abandon_probe (send_heartbeat c s))"

section \<open>The loop around the steps\<close>

text \<open>
  \<open>run_loop step go\<close> iterates \<open>step\<close> as long as the flags allow it and the step does not leave the
  loop. \<open>Running\<close>: the inputs are used up and the loop is still at work; \<open>Stopped\<close>: the flags ended it,
  and the input that did is still the first one; \<open>PeerGone\<close>: the step left it.
\<close>

datatype loop_end = Running | Stopped | PeerGone

fun run_loop :: "(loop_input \<Rightarrow> 's \<Rightarrow> bool \<times> 's) \<Rightarrow> (loop_input \<Rightarrow> bool) \<Rightarrow> loop_input list \<Rightarrow> 's \<Rightarrow>
    loop_end \<times> loop_input list \<times> 's" where
  "run_loop step go [] s = (Running, [], s)"
| "run_loop step go (i # is) s =
     (if \<not> go i then (Stopped, i # is, s)
      else case step i s of
        (False, s') \<Rightarrow> (PeerGone, is, s')
      | (True, s') \<Rightarrow> run_loop step go is s')"

section \<open>Sending and receiving in a session\<close>

named_theorems session_simps

lemma channel_send_frame_fields:
  "sk_clock (ch_sock (snd (channel_send c ty p ch))) = sk_clock (ch_sock ch) \<and>
   sk_events (ch_sock (snd (channel_send c ty p ch))) = sk_events (ch_sock ch) \<and>
   ch_keys (snd (channel_send c ty p ch)) = ch_keys ch \<and>
   ch_recv_nonce (snd (channel_send c ty p ch)) = ch_recv_nonce ch"
proof -
  let ?ct = "aead_encrypt c (send_key (ch_keys ch)) (ch_send_nonce ch) [] (ty # p)"
  obtain ok1 s1 where a: "send_all (write_be32 (of_nat (length ?ct))) (ch_sock ch) = (ok1, s1)" by fastforce
  obtain ok2 s2 where b: "send_all ?ct s1 = (ok2, s2)" by fastforce
  from send_all_prefix [OF a] send_all_prefix [OF b] a b show ?thesis
    by (cases ok1) (simp_all add: channel_send_def Let_def)
qed

lemma session_send_fields [simp, session_simps]:
  "se_clock (session_send c ty p s) = se_clock s"
  "sk_events (ch_sock (se_channel (session_send c ty p s))) = sk_events (ch_sock (se_channel s))"
  "ch_keys (se_channel (session_send c ty p s)) = ch_keys (se_channel s)"
  "ch_recv_nonce (se_channel (session_send c ty p s)) = ch_recv_nonce (se_channel s)"
  "se_info (session_send c ty p s) = se_info s"
  "se_clipboard (session_send c ty p s) = se_clipboard s"
  "se_last_heard (session_send c ty p s) = se_last_heard s"
  "se_last_heartbeat (session_send c ty p s) = se_last_heartbeat s"
  "se_last_ping (session_send c ty p s) = se_last_ping s"
  "se_next_seq (session_send c ty p s) = se_next_seq s"
  "se_in_flight (session_send c ty p s) = se_in_flight s"
  "se_ping_sent_at (session_send c ty p s) = se_ping_sent_at s"
  using channel_send_frame_fields [of c ty p "se_channel s"] by (simp_all add: session_send_def)

text \<open>Two states that differ at most in what was sent and in the pending clipboard message.\<close>

definition same_receiver :: "'a session_scheme \<Rightarrow> 'a session_scheme \<Rightarrow> bool" where
  "same_receiver s s' \<longleftrightarrow>
     se_clock s' = se_clock s \<and> sk_events (ch_sock (se_channel s')) = sk_events (ch_sock (se_channel s)) \<and>
     ch_keys (se_channel s') = ch_keys (se_channel s) \<and> ch_recv_nonce (se_channel s') = ch_recv_nonce (se_channel s) \<and>
     se_info s' = se_info s \<and> se_last_heard s' = se_last_heard s \<and> se_last_heartbeat s' = se_last_heartbeat s \<and>
     se_last_ping s' = se_last_ping s \<and> se_next_seq s' = se_next_seq s \<and> se_in_flight s' = se_in_flight s \<and>
     se_ping_sent_at s' = se_ping_sent_at s"

lemma same_receiver_fold: "same_receiver s (fold (\<lambda>(ty, p). session_send c ty p) ms s)"
proof (induction ms arbitrary: s)
  case (Cons m ms)
  then show ?case
    by (cases m) (simp add: same_receiver_def)
qed (simp add: same_receiver_def)

lemma fold_send_clipboard: "se_clipboard (fold (\<lambda>(ty, p). session_send c ty p) ms s) = se_clipboard s"
  by (induction ms arbitrary: s) auto

lemma ui_actions_receiver: "same_receiver s (ui_actions c i s)"
  using same_receiver_fold [of s c "li_sends i"]
  by (simp add: ui_actions_def take_pending_clipboard_def Let_def same_receiver_def)

lemma ui_actions_clipboard: "se_clipboard (ui_actions c i s) \<in> {se_clipboard s, None}"
  by (simp add: ui_actions_def take_pending_clipboard_def Let_def fold_send_clipboard)

lemma wait_readable_clock: "wait_readable n s = (r, s') \<Longrightarrow> sk_clock s \<le> sk_clock s'"
proof -
  have "wait_events n t es = (b, t', es') \<Longrightarrow> t \<le> t'" for n t es b t' es'
    by (induction n t es rule: wait_events.induct) (auto split: if_splits)
  then show "wait_readable n s = (r, s') \<Longrightarrow> ?thesis"
    by (fastforce simp: wait_readable_def Let_def split: prod.splits)
qed

lemma channel_receive_clock:
  assumes "channel_receive c d ch = (r, ch')"
  shows "sk_clock (ch_sock ch) \<le> sk_clock (ch_sock ch')"
proof -
  let ?w = "if d > sk_clock (ch_sock ch) then nat (d - sk_clock (ch_sock ch)) else 0"
  obtain b s1 where w: "wait_readable ?w (ch_sock ch) = (b, s1)" by fastforce
  let ?dl = "sk_clock s1 + kFrameTimeout"
  obtain r2 h s2 where h: "read_exact 4 ?dl s1 = (r2, h, s2)" using prod_cases3 by blast
  obtain r3 ct s3 where b: "read_exact (unat (read_be32 h)) ?dl s2 = (r3, ct, s3)" using prod_cases3 by blast
  have "sk_clock (ch_sock ch) \<le> sk_clock s1" "sk_clock s1 \<le> sk_clock s2" "sk_clock s2 \<le> sk_clock s3"
    using wait_readable_clock [OF w] read_loop_stream [OF h [unfolded read_exact_def]]
      read_loop_stream [OF b [unfolded read_exact_def]] by auto
  with assms w h b show ?thesis
    unfolding channel_receive_def Let_def
    by (auto split: if_splits read_status.splits option.splits list.splits)
qed

text \<open>When nothing is left to arrive, a poll finds the peer gone or waits exactly until its deadline.\<close>

lemma wait_events_silent:
  assumes "stream_of es = []" "wait_events n t es = (b, t', es')"
  shows "stream_of es' = [] \<and> (b \<longrightarrow> (\<exists>r. es' = Hangup # r) \<and> t' \<le> t + int n) \<and> (\<not> b \<longrightarrow> t' = t + int n)"
  using assms
  by (induction n t es rule: wait_events.induct) (auto split: if_splits)

lemma channel_receive_silent:
  assumes "incoming (ch_sock ch) = []" "sk_clock (ch_sock ch) < d" "channel_receive c d ch = (r, ch')"
  shows "r = RClosed \<and> sk_clock (ch_sock ch') \<le> d \<or>
    r = RTimeout \<and> sk_clock (ch_sock ch') = d \<and> incoming (ch_sock ch') = []"
proof -
  let ?s = "ch_sock ch"
  obtain b t' es' where w: "wait_events (nat (d - sk_clock ?s)) (sk_clock ?s) (sk_events ?s) = (b, t', es')"
    using prod_cases3 by blast
  note silent = wait_events_silent [OF assms(1) w]
  show ?thesis
  proof (cases b)
    case True
    with silent obtain rest where es': "es' = Hangup # rest" by auto
    have "read_exact 4 (t' + kFrameTimeout) (?s\<lparr>sk_clock := t', sk_events := es'\<rparr>) =
        (ReadClosed, [], ?s\<lparr>sk_clock := t', sk_events := es'\<rparr>)"
      unfolding read_exact_def es' by (subst read_loop.simps) (simp add: kFrameTimeout_def os_recv_def)
    with assms w True silent show ?thesis
      by (auto simp: channel_receive_def Let_def wait_readable_def)
  next
    case False
    with assms w silent show ?thesis
      by (auto simp: channel_receive_def Let_def wait_readable_def)
  qed
qed

section \<open>The invariant of a session\<close>

text \<open>Every recorded time is in the past, the ping in flight is the one sent last, and the round
  trip is unknown or not negative.\<close>

definition session_ok :: "'a session_scheme \<Rightarrow> bool" where
  "session_ok s \<longleftrightarrow>
     se_last_heard s \<le> se_clock s \<and> se_last_heartbeat s \<le> se_clock s \<and> se_last_ping s \<le> se_clock s \<and>
     (\<forall>q. se_in_flight s = Some q \<longrightarrow> q + 1 = se_next_seq s \<and> se_ping_sent_at s = se_last_ping s) \<and>
     (ci_rtt (se_info s) = - 1 \<or> 0 \<le> ci_rtt (se_info s))"

text \<open>What holds at the end of every completed iteration: the peer was heard within the timeout, the
  last heartbeat is younger than its interval, and a ping is on its way or one was sent within the
  interval; a ping in flight is younger than the probe timeout.\<close>

definition session_fresh :: "int \<Rightarrow> 'a session_scheme \<Rightarrow> bool" where
  "session_fresh timeout s \<longleftrightarrow>
     se_clock s - se_last_heard s < timeout \<and> se_clock s - se_last_heartbeat s < kHeartbeatInterval \<and>
     (if se_in_flight s = None then se_clock s - se_last_ping s < kHeartbeatInterval
      else se_clock s - se_ping_sent_at s < kPingProbeTimeout)"

lemma session_ok_start: "ci_rtt info = - 1 \<Longrightarrow> session_ok (session_start ch info pending)"
  by (simp add: session_ok_def session_start_def Let_def)

lemma session_ok_same: "same_receiver s s' \<Longrightarrow> session_ok s \<Longrightarrow> session_ok s'"
  by (simp add: same_receiver_def session_ok_def)

lemma session_ok_receive:
  assumes "session_ok s" "session_receive c s = (r, s')"
  shows "session_ok s'"
proof -
  obtain r' ch where r: "channel_receive c (se_clock s + 200) (se_channel s) = (r', ch)" by fastforce
  with channel_receive_clock [OF r] assms show ?thesis
    by (cases r') (auto simp: session_receive_def Let_def session_ok_def)
qed

lemma session_ok_handlers [intro]:
  "session_ok s \<Longrightarrow> session_ok (on_ping c payload s)"
  "session_ok s \<Longrightarrow> session_ok (on_pong payload s)"
  "session_ok s \<Longrightarrow> session_ok (on_clipboard ty payload s)"
  "session_ok s \<Longrightarrow> session_ok (session_send c ty payload s)"
  by (auto simp: session_ok_def on_ping_def on_pong_def on_clipboard_def split: option.splits)

lemma session_ok_info:
  "session_ok s \<Longrightarrow> ci_rtt info = ci_rtt (se_info s) \<Longrightarrow> session_ok (s\<lparr>se_info := info\<rparr>)"
  by (simp add: session_ok_def)

lemma send_heartbeat_fields [simp]:
  "se_clock (send_heartbeat c s) = se_clock s" "se_in_flight (send_heartbeat c s) = se_in_flight s"
  "se_ping_sent_at (send_heartbeat c s) = se_ping_sent_at s" "se_last_heard (send_heartbeat c s) = se_last_heard s"
  "se_last_ping (send_heartbeat c s) = se_last_ping s" "se_next_seq (send_heartbeat c s) = se_next_seq s"
  "se_info (send_heartbeat c s) = se_info s" "se_clipboard (send_heartbeat c s) = se_clipboard s"
  "sk_events (ch_sock (se_channel (send_heartbeat c s))) = sk_events (ch_sock (se_channel s))"
  "ch_keys (se_channel (send_heartbeat c s)) = ch_keys (se_channel s)"
  "ch_recv_nonce (se_channel (send_heartbeat c s)) = ch_recv_nonce (se_channel s)"
  by (simp_all add: send_heartbeat_def)

lemma keep_alive_fields [simp]:
  "se_clock (keep_alive c s) = se_clock s" "se_last_heard (keep_alive c s) = se_last_heard s"
  "se_info (keep_alive c s) = se_info s" "se_clipboard (keep_alive c s) = se_clipboard s"
  "sk_events (ch_sock (se_channel (keep_alive c s))) = sk_events (ch_sock (se_channel s))"
  "ch_keys (se_channel (keep_alive c s)) = ch_keys (se_channel s)"
  "ch_recv_nonce (se_channel (keep_alive c s)) = ch_recv_nonce (se_channel s)"
  by (simp_all add: keep_alive_def send_ping_def abandon_probe_def)

lemma keep_alive_fresh:
  assumes "session_ok s" "se_clock s - se_last_heard s < timeout"
  shows "session_ok (keep_alive c s) \<and> session_fresh timeout (keep_alive c s)"
proof -
  let ?h = "send_heartbeat c s"
  have h: "session_ok ?h" "se_clock ?h - se_last_heartbeat ?h < kHeartbeatInterval"
    using assms(1) by (auto simp: session_ok_def send_heartbeat_def kHeartbeatInterval_def)
  let ?a = "abandon_probe ?h"
  have a: "session_ok ?a" "se_clock ?a - se_last_heartbeat ?a < kHeartbeatInterval"
    "se_clock ?a - se_last_heard ?a < timeout"
    "se_in_flight ?a \<noteq> None \<Longrightarrow> se_clock ?a - se_ping_sent_at ?a < kPingProbeTimeout"
    using h assms(2) by (auto simp: session_ok_def abandon_probe_def)
  have "session_ok (send_ping c ?a)"
    using a(1) by (auto simp: session_ok_def send_ping_def)
  moreover have "session_fresh timeout (send_ping c ?a)"
    using a by (auto simp: session_fresh_def send_ping_def kPingProbeTimeout_def kHeartbeatInterval_def)
  ultimately show ?thesis by (simp add: keep_alive_def)
qed

section \<open>Frames that cannot be decrypted\<close>

text \<open>A complete frame, within the size limit, that does not open under the number the receiver expects.\<close>

definition bad_frame :: "crypto \<Rightarrow> bytes \<Rightarrow> u64 \<Rightarrow> bytes \<Rightarrow> bool" where
  "bad_frame c k n b \<longleftrightarrow>
     (\<exists>ct. b = write_be32 (of_nat (length ct)) @ ct \<and> ct \<noteq> [] \<and> length ct \<le> unat kMaxFrameLen \<and>
           aead_decrypt c k n [] ct = None)"

lemma channel_receive_bad:
  assumes "arrived (sk_events (ch_sock ch)) = b @ later"
    and "bad_frame c (recv_key (ch_keys ch)) (ch_recv_nonce ch) b"
  obtains s' where "channel_receive c d ch = (RError, ch\<lparr>ch_sock := s'\<rparr>)" "arrived (sk_events s') = later"
proof -
  from assms(2) obtain ct where ct: "b = write_be32 (of_nat (length ct)) @ ct" "ct \<noteq> []"
    "length ct \<le> unat kMaxFrameLen" "aead_decrypt c (recv_key (ch_keys ch)) (ch_recv_nonce ch) [] ct = None"
    by (auto simp: bad_frame_def)
  have "length ct < 2 ^ 32" using ct(3) by (simp add: kMaxFrameLen_def)
  from channel_receive_arrived [OF _ this ct(2), of ch later c d] assms(1) ct that show thesis by auto
qed

text \<open>A cipher that binds a ciphertext to its nonce, as an authenticated one does.\<close>

definition nonce_bound :: "crypto \<Rightarrow> bool" where
  "nonce_bound c \<longleftrightarrow>
     (\<forall>k m n ad pt. length m = 12 \<and> length n = 12 \<and> m \<noteq> n \<longrightarrow> chacha_open c k n ad (chacha_seal c k m ad pt) = None)"

lemma length_nonce_bytes [simp]: "length (nonce_bytes n) = 12"
  by (simp add: nonce_bytes_def)

lemma later_frame_bad:
  assumes "crypto_ok c" "nonce_bound c" "length (snd m) + 17 \<le> unat kMaxFrameLen" "i \<noteq> n"
  shows "bad_frame c k n (frame c k i m)"
proof -
  let ?ct = "aead_encrypt c k i [] (fst m # snd m)"
  have l: "length ?ct = length (snd m) + 17" by (simp add: length_ct [OF assms(1)])
  moreover have "aead_decrypt c k n [] ?ct = None"
    using assms(2,4) by (simp add: nonce_bound_def aead_encrypt_def aead_decrypt_def nonce_bytes_eq_iff)
  ultimately show ?thesis
    using assms(3) unfolding bad_frame_def by (intro exI [of _ ?ct]) (auto simp: frame_def Let_def)
qed

section \<open>The contract of a session loop\<close>

text \<open>
  What the theorems about a session need to know of one iteration: it keeps the invariant and ends
  fresh, a silent poll only lets time pass, and a frame that cannot be decrypted is skipped but counts
  as a sign of life.
\<close>

locale session_loop =
  fixes c :: crypto
    and step :: "loop_input \<Rightarrow> 'a session_scheme \<Rightarrow> bool \<times> 'a session_scheme"
    and limit :: "loop_input \<Rightarrow> int"
  assumes step_ok: "session_ok s \<Longrightarrow> step i s = (cont, s') \<Longrightarrow>
      session_ok s' \<and> (cont \<longrightarrow> session_fresh (limit i) s')"
    and step_silent: "se_incoming s = [] \<Longrightarrow> step i s = (cont, s') \<Longrightarrow>
      (if cont then se_incoming s' = [] \<and> se_last_heard s' = se_last_heard s \<and> se_clock s' = se_clock s + 200
       else se_clock s' \<le> se_clock s + 200)"
    and step_error: "channel_receive c (se_clock s + 200) (se_channel (ui_actions c i s)) = (RError, ch) \<Longrightarrow>
      0 < limit i \<Longrightarrow> \<exists>s'. step i s = (True, s') \<and> se_info s' = se_info s \<and>
        se_clipboard s' \<in> {se_clipboard s, None} \<and> se_last_heard s' = se_clock s' \<and>
        sk_events (ch_sock (se_channel s')) = sk_events (ch_sock ch) \<and>
        ch_keys (se_channel s') = ch_keys ch \<and> ch_recv_nonce (se_channel s') = ch_recv_nonce ch"
begin

lemma loop_ok:
  assumes "session_ok s" "run_loop step go is s = (e, rest, s')"
  shows "session_ok s' \<and> (e = Running \<and> is \<noteq> [] \<longrightarrow> session_fresh (limit (last is)) s')"
  using assms
proof (induction "is" arbitrary: s)
  case (Cons i "is")
  obtain cont s1 where st: "step i s = (cont, s1)" by fastforce
  note ok = step_ok [OF Cons.prems(1) st]
  from Cons.prems st ok Cons.IH [of s1] show ?case
    by (cases "go i"; cases cont; cases "is = []") auto
qed simp

lemma loop_silent:
  assumes "session_ok s" "se_incoming s = []" "list_all (\<lambda>i. go i \<and> limit i = timeout) is"
    and "se_last_heard s + timeout \<le> se_clock s + 200 * int (length is)" "is \<noteq> []"
    and "run_loop step go is s = (e, rest, s')"
  shows "e = PeerGone \<and> se_clock s' \<le> max (se_clock s) (se_last_heard s + timeout) + 200"
  using assms
proof (induction "is" arbitrary: s)
  case (Cons i "is")
  obtain cont s1 where st: "step i s = (cont, s1)" by fastforce
  note silent = step_silent [OF Cons.prems(2) st] and ok = step_ok [OF Cons.prems(1) st]
  show ?case
  proof (cases cont)
    case True
    with silent have s1: "se_incoming s1 = []" "se_last_heard s1 = se_last_heard s" "se_clock s1 = se_clock s + 200"
      by auto
    from ok True Cons.prems(3) have fresh: "se_clock s1 - se_last_heard s1 < timeout"
      by (simp add: session_fresh_def)
    have ne: "is \<noteq> []" using fresh s1 Cons.prems(4) by auto
    have "e = PeerGone \<and> se_clock s' \<le> max (se_clock s1) (se_last_heard s1 + timeout) + 200"
      by (rule Cons.IH) (use ok s1 ne Cons.prems st True in auto)
    with fresh s1 show ?thesis by auto
  next
    case False
    with silent st Cons.prems show ?thesis by auto
  qed
qed simp

lemma loop_wedged:
  assumes "arrived (sk_events (ch_sock (se_channel s))) = concat bs @ later"
    and "list_all (bad_frame c (recv_key (ch_keys (se_channel s))) (ch_recv_nonce (se_channel s))) bs"
    and "list_all (\<lambda>i. go i \<and> 0 < limit i) is" "length is = length bs"
    and "run_loop step go is s = (e, rest, s')"
  shows "e = Running \<and> se_info s' = se_info s \<and> se_clipboard s' \<in> {se_clipboard s, None} \<and>
    ch_recv_nonce (se_channel s') = ch_recv_nonce (se_channel s) \<and> arrived (sk_events (ch_sock (se_channel s'))) = later"
  using assms
proof (induction "is" arbitrary: s bs)
  case (Cons i "is")
  then obtain b bs' where bs: "bs = b # bs'" by (cases bs) auto
  let ?s = "ui_actions c i s"
  have same: "same_receiver s ?s" by (rule ui_actions_receiver)
  have "arrived (sk_events (ch_sock (se_channel ?s))) = b @ (concat bs' @ later)"
    "bad_frame c (recv_key (ch_keys (se_channel ?s))) (ch_recv_nonce (se_channel ?s)) b"
    using Cons.prems(1,2) same unfolding bs same_receiver_def by simp_all
  from channel_receive_bad [OF this, of "se_clock s + 200"] obtain sk where
    r: "channel_receive c (se_clock s + 200) (se_channel ?s) = (RError, (se_channel ?s)\<lparr>ch_sock := sk\<rparr>)"
      "arrived (sk_events sk) = concat bs' @ later" by blast
  have "0 < limit i" using Cons.prems(3) by simp
  from step_error [OF r(1) this] obtain s1 where
    st: "step i s = (True, s1)" "se_info s1 = se_info s" "se_clipboard s1 \<in> {se_clipboard s, None}"
      "sk_events (ch_sock (se_channel s1)) = sk_events sk" "ch_keys (se_channel s1) = ch_keys (se_channel ?s)"
      "ch_recv_nonce (se_channel s1) = ch_recv_nonce (se_channel ?s)" by auto
  have keep: "ch_keys (se_channel s1) = ch_keys (se_channel s)" "ch_recv_nonce (se_channel s1) = ch_recv_nonce (se_channel s)"
    using st(5,6) same by (simp_all add: same_receiver_def)
  have "e = Running \<and> se_info s' = se_info s1 \<and> se_clipboard s' \<in> {se_clipboard s1, None} \<and>
    ch_recv_nonce (se_channel s') = ch_recv_nonce (se_channel s1) \<and> arrived (sk_events (ch_sock (se_channel s'))) = later"
    by (rule Cons.IH [of s1 bs']) (use Cons.prems bs st(1,4) r(2) keep in auto)
  with st(2,3) keep show ?case by auto
qed simp

end

text \<open>An uneventful iteration, for examples.\<close>

definition demo_input :: loop_input where
  "demo_input = \<lparr>li_running = True, li_disconnect = False, li_timeout = 10000, li_sends = [], li_take = False,
     li_monitors = []\<rparr>"

end
