(* ===== verification/KnownPeers.thy ===== *)
theory KnownPeers
  imports Persistence
begin

text \<open>
  The trust store of \<^verbatim>\<open>src/discovery/known_peers.cpp\<close>: device id to static public key, kept in memory
  and written to a text file after every change.
\<close>

section \<open>State and operations\<close>

text \<open>\<open>kp_file\<close> is the content of the file (empty when there is none) and \<open>kp_writable\<close> whether
  opening it for writing succeeds; a failed save leaves the old content.\<close>

record known_peers =
  kp_peers :: "(u64 \<times> bytes) list"
  kp_file :: string
  kp_writable :: bool

definition known_line :: "string \<Rightarrow> (u64 \<times> bytes) option" where
  "known_line line =
     (let (device_id, st1) = read_hex64 (open_text line); (pub_hex, st2) = read_word st1 in
      case (device_id, pub_hex) of
        (Some i, Some w) \<Rightarrow> map_option (Pair i) (from_hex w)
      | _ \<Rightarrow> None)"

definition known_parse :: "string \<Rightarrow> (u64 \<times> bytes) list" where
  "known_parse text =
     fold (\<lambda>line m. case known_line line of None \<Rightarrow> m | Some (i, k) \<Rightarrow> omap_put i k m) (lines_of text) []"

definition known_render :: "(u64 \<times> bytes) list \<Rightarrow> string" where
  "known_render m = concat (map (\<lambda>(i, k). show_hex i @ '' '' @ to_hex k @ [newline]) m)"

definition known_load :: "string \<Rightarrow> bool \<Rightarrow> known_peers" where
  "known_load text writable = \<lparr>kp_peers = known_parse text, kp_file = text, kp_writable = writable\<rparr>"

definition known_save :: "known_peers \<Rightarrow> known_peers" where
  "known_save kp = (if kp_writable kp then kp\<lparr>kp_file := known_render (kp_peers kp)\<rparr> else kp)"

definition is_known :: "u64 \<Rightarrow> known_peers \<Rightarrow> bool" where
  "is_known i kp \<longleftrightarrow> map_of (kp_peers kp) i \<noteq> None"

definition get_pubkey :: "u64 \<Rightarrow> known_peers \<Rightarrow> bytes option" where
  "get_pubkey i kp = map_of (kp_peers kp) i"

definition remember :: "u64 \<Rightarrow> bytes \<Rightarrow> known_peers \<Rightarrow> known_peers" where
  "remember i pubkey kp = known_save (kp\<lparr>kp_peers := omap_put i pubkey (kp_peers kp)\<rparr>)"

definition forget :: "u64 \<Rightarrow> known_peers \<Rightarrow> known_peers" where
  "forget i kp = known_save (kp\<lparr>kp_peers := omap_del i (kp_peers kp)\<rparr>)"

definition known_list :: "known_peers \<Rightarrow> (u64 \<times> bytes) list" where
  "known_list kp = kp_peers kp"

lemma get_pubkey_remember:
  "omap_ok (kp_peers kp) \<Longrightarrow> get_pubkey i (remember j k kp) = (if i = j then Some k else get_pubkey i kp)"
  unfolding get_pubkey_def remember_def known_save_def by (simp del: map_of_eq_Some_iff)

lemma omap_ok_remember: "omap_ok (kp_peers kp) \<Longrightarrow> omap_ok (kp_peers (remember i k kp))"
  by (simp add: remember_def known_save_def)

section \<open>The file format is read back\<close>

definition key32 :: "u64 \<times> bytes \<Rightarrow> bool" where
  "key32 e \<longleftrightarrow> length (snd e) = 32"

lemma known_line_render:
  assumes "length k = 32"
  shows "known_line (show_hex i @ '' '' @ to_hex k) = Some (i, k)"
proof -
  have "to_hex k \<noteq> []" using length_to_hex [of k] assms by auto
  then have "read_word \<lparr>is_text = to_hex k @ [], is_ok = True\<rparr> = (Some (to_hex k), \<lparr>is_text = [], is_ok = True\<rparr>)"
    by (rule read_word_token) (simp_all add: to_hex_chars)
  then show ?thesis
    using read_show_hex [of "'' '' @ to_hex k" i] from_to_hex [OF assms]
    by (simp add: known_line_def open_text_def)
qed

lemma known_lines:
  assumes "newline \<notin> set l"
  shows "lines_of (l @ [newline] @ r) = l # lines_of r"
  using lines_of_line [OF assms, of r] by simp

lemma known_parse_render_from:
  assumes "list_all key32 es"
  shows "fold (\<lambda>line m. case known_line line of None \<Rightarrow> m | Some (i, k) \<Rightarrow> omap_put i k m)
    (lines_of (known_render es)) m = fold (\<lambda>(i, k). omap_put i k) es m"
  using assms
proof (induction es arbitrary: m)
  case Nil
  then show ?case by (simp add: known_render_def)
next
  case (Cons e es)
  obtain i k where e: "e = (i, k)" by (cases e)
  have len: "length k = 32" using Cons.prems by (simp add: e key32_def)
  have "newline \<notin> set (show_hex i @ '' '' @ to_hex k)" using to_hex_chars [of newline k] by auto
  from known_lines [OF this, of "known_render es"]
  have "lines_of (known_render (e # es)) = (show_hex i @ '' '' @ to_hex k) # lines_of (known_render es)"
    by (simp add: known_render_def e)
  with Cons known_line_render [OF len, of i] show ?case by (simp add: e)
qed

interpretation known_store: persistent_store known_parse known_render key32
  by unfold_locales (simp add: known_parse_def known_parse_render_from)

section \<open>Histories\<close>

datatype known_op = KRemember u64 bytes | KForget u64 | KRestart

text \<open>A restart loads the file again.\<close>

fun known_step :: "known_op \<Rightarrow> known_peers \<Rightarrow> known_peers" where
  "known_step (KRemember i k) kp = remember i k kp"
| "known_step (KForget i) kp = forget i kp"
| "known_step KRestart kp = known_load (kp_file kp) (kp_writable kp)"

text \<open>The specification: a partial function that restarts do not touch.\<close>

fun known_spec :: "known_op \<Rightarrow> (u64 \<rightharpoonup> bytes) \<Rightarrow> (u64 \<rightharpoonup> bytes)" where
  "known_spec (KRemember i k) m = m(i \<mapsto> k)"
| "known_spec (KForget i) m = m(i := None)"
| "known_spec KRestart m = m"

definition known_ok :: "known_peers \<Rightarrow> bool" where
  "known_ok kp \<longleftrightarrow> omap_ok (kp_peers kp) \<and> list_all key32 (kp_peers kp) \<and> kp_writable kp \<and>
     map_of (known_parse (kp_file kp)) = map_of (kp_peers kp)"

lemma list_all_put: "list_all P m \<Longrightarrow> P (k, v) \<Longrightarrow> list_all P (omap_put k v m)"
  by (induction m) auto

lemma list_all_del: "list_all P m \<Longrightarrow> list_all P (omap_del k m)"
  by (auto simp: list_all_iff omap_del_def)

lemma known_save_ok:
  assumes "omap_ok (kp_peers kp)" "list_all key32 (kp_peers kp)" "kp_writable kp"
  shows "known_ok (known_save kp)"
  using assms known_store.reload [OF assms(2)] by (simp add: known_ok_def known_save_def)

lemma list_all_fold_put: "list_all P m \<Longrightarrow> list_all P es \<Longrightarrow> list_all P (fold (\<lambda>(k, v). omap_put k v) es m)"
  by (induction es arbitrary: m) (auto simp: list_all_put)

lemma from_hex_length: "from_hex h = Some k \<Longrightarrow> length k = 32"
proof -
  have "hex_pairs n s = Some k \<Longrightarrow> length k = n" for n s
    by (induction n s arbitrary: k rule: hex_pairs.induct) (auto split: option.splits)
  then show "from_hex h = Some k \<Longrightarrow> length k = 32" by (simp add: from_hex_def split: if_splits)
qed

lemma known_parse_ok: "omap_ok (known_parse t)" "list_all key32 (known_parse t)"
proof -
  have "omap_ok (fold (\<lambda>line m. case known_line line of None \<Rightarrow> m | Some (i, k) \<Rightarrow> omap_put i k m) ls m) \<and>
      list_all key32 (fold (\<lambda>line m. case known_line line of None \<Rightarrow> m | Some (i, k) \<Rightarrow> omap_put i k m) ls m)"
    if "omap_ok m" "list_all key32 m" for ls m
    using that
  proof (induction ls arbitrary: m)
    case (Cons l ls)
    have "known_line l = Some (i, k) \<Longrightarrow> key32 (i, k)" for i k
      by (auto simp: known_line_def key32_def from_hex_length Let_def split: prod.splits option.splits)
    then show ?case using Cons by (auto simp: list_all_put split: option.split)
  qed simp
  from this [of "[]"] show "omap_ok (known_parse t)" "list_all key32 (known_parse t)"
    by (simp_all add: known_parse_def)
qed

lemma known_step_refines:
  assumes "known_ok kp" "\<And>i k. ev = KRemember i k \<Longrightarrow> length k = 32"
  shows "known_ok (known_step ev kp) \<and> map_of (kp_peers (known_step ev kp)) = known_spec ev (map_of (kp_peers kp))"
proof (cases ev)
  case (KRemember i k)
  have "known_ok (known_save (kp\<lparr>kp_peers := omap_put i k (kp_peers kp)\<rparr>))"
    using assms KRemember by (intro known_save_ok) (auto simp: known_ok_def list_all_put key32_def)
  then show ?thesis using assms KRemember by (simp add: remember_def known_save_def known_ok_def)
next
  case (KForget i)
  have "known_ok (known_save (kp\<lparr>kp_peers := omap_del i (kp_peers kp)\<rparr>))"
    using assms by (intro known_save_ok) (auto simp: known_ok_def list_all_del)
  then show ?thesis using assms KForget by (simp add: forget_def known_save_def known_ok_def)
next
  case KRestart
  then show ?thesis using assms known_parse_ok by (simp add: known_load_def known_ok_def)
qed

text \<open>
  C25. The trust store behaves as a persistent map: after any history of remember, forget and program
  restarts, looking a device up gives the key last remembered for it and not forgotten since; the
  restarts have no influence.
\<close>

theorem known_peers_persistent:
  assumes "\<forall>ev \<in> set es. \<forall>i k. ev = KRemember i k \<longrightarrow> length k = 32"
  shows "get_pubkey i (fold known_step es (known_load [] True)) = fold known_spec es Map.empty i"
proof -
  have "known_ok (fold known_step es kp) \<and>
      map_of (kp_peers (fold known_step es kp)) = fold known_spec es (map_of (kp_peers kp))" if "known_ok kp" for kp
    using assms that
  proof (induction es arbitrary: kp)
    case (Cons e es)
    have "known_ok (known_step e kp) \<and> map_of (kp_peers (known_step e kp)) = known_spec e (map_of (kp_peers kp))"
      using Cons.prems by (intro known_step_refines) auto
    with Cons show ?case by simp
  qed simp
  from this [of "known_load [] True"] show ?thesis
    by (simp add: known_load_def known_ok_def known_parse_def get_pubkey_def)
qed

theorem known_peers_persistent_witness:
  "get_pubkey 7 (fold known_step [KRemember 7 (replicate 32 255), KRestart, KRemember 9 (replicate 32 1), KForget 9,
     KRestart] (known_load [] True)) = Some (replicate 32 255)"
  using known_peers_persistent [of "[KRemember 7 (replicate 32 255), KRestart, KRemember 9 (replicate 32 1), KForget 9,
     KRestart]" 7] by simp

end
