(* ===== verification/Handshake.thy ===== *)
theory Handshake
  imports Session KnownPeers
begin

text \<open>
  What the two ends do before the encrypted session: the plain exchanges both perform (device ids,
  pairing flags, raw public keys), the fingerprint the users compare (\<^verbatim>\<open>src/discovery/pairing.cpp\<close>)
  and the Master's wait for its user's decision.
\<close>

section \<open>Pairing\<close>

definition kPairingApproved :: byte where "kPairingApproved = 1"
definition kPairingRejected :: byte where "kPairingRejected = 0"
definition kPairingApprovalTimeout :: int where "kPairingApprovalTimeout = 120000"

definition compute_fingerprint :: "crypto \<Rightarrow> bytes \<Rightarrow> bytes \<Rightarrow> string" where
  "compute_fingerprint c initiator_pubkey responder_pubkey =
     to_hex (take 3 (sha256 c (take 32 initiator_pubkey @ take 32 responder_pubkey)))"

text \<open>\<^verbatim>\<open>send_all(mine) && recv_all(n bytes)\<close> with a deadline of one handshake timeout from now.\<close>

definition exchange :: "bytes \<Rightarrow> nat \<Rightarrow> sock \<Rightarrow> bytes option \<times> sock" where
  "exchange mine n s =
     (let deadline = sk_clock s + kHandshakeTimeout in
      case send_all mine s of
        (False, s1) \<Rightarrow> (None, s1)
      | (True, s1) \<Rightarrow> recv_all n deadline s1)"

text \<open>Whether the two ends agree that pairing is needed: each one asks for it when it does not trust
  the other, and either one's wish is enough.\<close>

definition wants_pairing :: "bytes option \<Rightarrow> byte" where
  "wants_pairing trusted = (if trusted \<noteq> None then 0 else 1)"

definition need_pairing :: "bytes option \<Rightarrow> byte \<Rightarrow> bool" where
  "need_pairing trusted peer_wants \<longleftrightarrow> trusted = None \<or> peer_wants \<noteq> 0"

section \<open>Time passing without reading\<close>

fun elapse :: "nat \<Rightarrow> net_event list \<Rightarrow> net_event list" where
  "elapse n (Idle d # es) = (if d \<le> n then elapse (n - d) es else Idle (d - n) # es)"
| "elapse n (Arrive bs # es) = Arrive bs # elapse n es"
| "elapse n (Hangup # es) = Hangup # es"
| "elapse n [] = []"

definition sleep_until :: "int \<Rightarrow> sock \<Rightarrow> sock" where
  "sleep_until t s = s\<lparr>sk_clock := max t (sk_clock s), sk_events := elapse (nat (t - sk_clock s)) (sk_events s)\<rparr>"

lemma stream_elapse [simp]: "stream_of (elapse n es) = stream_of es"
  by (induction n es rule: elapse.induct) auto

section \<open>The user's decision\<close>

datatype pairing_decision = Pending | Approved | Rejected

text \<open>
  The clicks of the user are a list of times and decisions in the order they happen. A wait that
  starts at \<open>since\<close> first stores \<open>Pending\<close>; what it loads at time \<open>t\<close> is the last click after that.
\<close>

definition loaded_decision :: "(int \<times> pairing_decision) list \<Rightarrow> int \<Rightarrow> int \<Rightarrow> pairing_decision" where
  "loaded_decision clicks since t =
     (case filter (\<lambda>(u, _). since < u \<and> u \<le> t) clicks of
        [] \<Rightarrow> Pending
      | xs \<Rightarrow> snd (last xs))"

text \<open>The polling loop: every 100 ms, while the server is running and the deadline is not reached.\<close>

function await_decision :: "(int \<Rightarrow> bool) \<Rightarrow> (int \<Rightarrow> pairing_decision) \<Rightarrow> int \<Rightarrow> int \<Rightarrow> pairing_decision \<times> int" where
  "await_decision running loaded deadline now =
     (if running now \<and> now < deadline
      then (if loaded now \<noteq> Pending then (loaded now, now)
            else await_decision running loaded deadline (now + 100))
      else (Pending, now))"
  by pat_completeness auto

termination
  by (relation "measure (\<lambda>(_, _, deadline, now). nat (deadline - now))") auto

declare await_decision.simps [simp del]

lemma await_decision_result:
  assumes "await_decision running loaded deadline now = (d, t)"
  shows "now \<le> t \<and> t \<le> max now (deadline + 99) \<and> (d \<noteq> Pending \<longrightarrow> t < deadline \<and> running t \<and> loaded t = d)"
  using assms
proof (induction running loaded deadline now rule: await_decision.induct)
  case (1 running loaded deadline now)
  show ?case
  proof (cases "running now \<and> now < deadline \<and> loaded now = Pending")
    case True
    with "1.prems" have "await_decision running loaded deadline (now + 100) = (d, t)"
      by (subst (asm) await_decision.simps) simp
    with "1.IH" True show ?thesis by fastforce
  next
    case False
    with "1.prems" show ?thesis by (subst (asm) await_decision.simps) (auto split: if_splits)
  qed
qed

lemma loaded_decision_click:
  assumes "loaded_decision clicks since t = d" "d \<noteq> Pending"
  shows "\<exists>u. (u, d) \<in> set clicks \<and> since < u \<and> u \<le> t"
proof -
  let ?xs = "filter (\<lambda>(u, _). since < u \<and> u \<le> t) clicks"
  from assms have "?xs \<noteq> []" "d = snd (last ?xs)"
    by (auto simp: loaded_decision_def split: list.splits)
  then have "last ?xs \<in> set ?xs" using last_in_set by blast
  with \<open>d = _\<close> show ?thesis by (cases "last ?xs") auto
qed

section \<open>Exchanges with a peer whose bytes have arrived\<close>

lemma recv_all_arrived_later:
  assumes "arrived (sk_events s) = bs @ later" "length bs = n" "sk_clock s < deadline"
  shows "\<exists>s'. recv_all n deadline s = (Some bs, s') \<and> arrived (sk_events s') = later \<and> sk_out s' = sk_out s \<and>
    sk_sends s' = sk_sends s \<and> sk_clock s' = sk_clock s"
proof -
  obtain b s' where r: "read_loop n deadline s = (ReadOk, b, s')" "sk_clock s' = sk_clock s"
    "arrived (sk_events s) = b @ arrived (sk_events s')" "length b = n"
    using read_loop_arrived [of n s deadline] assms(2,3) unfolding assms(1) by auto
  then have "b = bs" "arrived (sk_events s') = later" using assms(1,2) by simp_all
  with r read_loop_stream [OF r(1)] show ?thesis by (simp add: recv_all_def)
qed

lemma exchange_arrived:
  assumes "arrived (sk_events s) = bs @ later" "length bs = n" "sk_sends s = []"
  shows "\<exists>s'. exchange mine n s = (Some bs, s') \<and> arrived (sk_events s') = later \<and> sk_out s' = sk_out s @ mine \<and>
    sk_sends s' = [] \<and> sk_clock s' = sk_clock s"
proof -
  let ?s = "s\<lparr>sk_out := sk_out s @ mine\<rparr>"
  have "arrived (sk_events ?s) = bs @ later" "sk_clock ?s < sk_clock s + kHandshakeTimeout"
    using assms(1) by (simp_all add: kHandshakeTimeout_def)
  from recv_all_arrived_later [OF this(1) assms(2) this(2)] assms(3) show ?thesis
    by (simp add: exchange_def send_all_empty_sends)
qed

lemma responder_arrived:
  assumes "arrived (sk_events s) = msg1 @ later" "length msg1 = kMsg1Size" "sk_sends s = []" "sk_clock s < deadline"
    and "ik_responder_reply c r e2 msg1 = Some (msg2, result)"
  shows "\<exists>s'. run_ik_responder c r e2 deadline s = (Some result, s') \<and> arrived (sk_events s') = later \<and>
    sk_out s' = sk_out s @ msg2 \<and> sk_sends s' = [] \<and> sk_clock s' = sk_clock s"
proof -
  from recv_all_arrived_later [OF assms(1,2,4)] obtain s1 where
    s1: "recv_all kMsg1Size deadline s = (Some msg1, s1)" "arrived (sk_events s1) = later" "sk_out s1 = sk_out s"
      "sk_sends s1 = []" "sk_clock s1 = sk_clock s" using assms(3) by auto
  with assms(5) show ?thesis by (simp add: run_ik_responder_def send_all_empty_sends)
qed

lemma initiator_arrived:
  assumes "ik_initiator_start c i peer_static e = Some (msg1, st)"
    and "arrived (sk_events s) = msg2 @ later" "length msg2 = kMsg2Size" "sk_sends s = []" "sk_clock s < deadline"
    and "ik_initiator_finish c i peer_static e st msg2 = Some result"
  shows "\<exists>s'. run_ik_initiator c i peer_static e deadline s = (Some result, s') \<and> arrived (sk_events s') = later \<and>
    sk_out s' = sk_out s @ msg1 \<and> sk_sends s' = [] \<and> sk_clock s' = sk_clock s"
proof -
  let ?s = "s\<lparr>sk_out := sk_out s @ msg1\<rparr>"
  have "arrived (sk_events ?s) = msg2 @ later" "sk_clock ?s < deadline" using assms(2,5) by simp_all
  from recv_all_arrived_later [OF this(1) assms(3) this(2)] assms(1,4,6) show ?thesis
    by (auto simp: run_ik_initiator_def send_all_empty_sends)
qed

section \<open>A cipher for examples\<close>

text \<open>Like \<open>toy_crypto\<close>, but the tag is the nonce, so that a ciphertext opens under its own nonce only.\<close>

definition strict_crypto :: crypto where
  "strict_crypto = toy_crypto
     \<lparr>chacha_seal := (\<lambda>k n ad pt. pt @ take 16 (n @ replicate 16 0)),
      chacha_open := (\<lambda>k n ad ct.
        if length ct < 16 \<or> drop (length ct - 16) ct \<noteq> take 16 (n @ replicate 16 0) then None
        else Some (take (length ct - 16) ct))\<rparr>"

lemma strict_crypto_ok: "crypto_ok strict_crypto"
  using toy_crypto_ok by (auto simp: crypto_ok_def strict_crypto_def)

lemma strict_crypto_nonce_bound: "nonce_bound strict_crypto"
  by (simp add: nonce_bound_def strict_crypto_def)

end
