(* ===== verification/Inject.thy ===== *)
theory Inject
  imports InputProtocol
begin

text \<open>
  Input injection on Linux, the second half of \<^verbatim>\<open>src/input/inject.cpp\<close>: two virtual devices created
  on first use, the translation of Windows scancodes to Linux key codes and the shadow of the held
  modifiers. The events written to a device are collected in a list; the numbers of the event and key
  codes are those of the Linux input ABI (\<^verbatim>\<open>linux/input-event-codes.h\<close>).
\<close>

section \<open>Codes\<close>

definition EV_SYN :: nat where "EV_SYN = 0"
definition EV_KEY :: nat where "EV_KEY = 1"
definition EV_REL :: nat where "EV_REL = 2"
definition EV_ABS :: nat where "EV_ABS = 3"

abbreviation (input) "KEY_LEFTCTRL \<equiv> 29 :: nat"
abbreviation (input) "KEY_LEFTSHIFT \<equiv> 42 :: nat"
abbreviation (input) "KEY_RIGHTSHIFT \<equiv> 54 :: nat"
abbreviation (input) "KEY_LEFTALT \<equiv> 56 :: nat"
abbreviation (input) "KEY_RIGHTCTRL \<equiv> 97 :: nat"
abbreviation (input) "KEY_RIGHTALT \<equiv> 100 :: nat"
abbreviation (input) "KEY_LEFTMETA \<equiv> 125 :: nat"
abbreviation (input) "KEY_RIGHTMETA \<equiv> 126 :: nat"

definition translate_extended_scancode :: "u32 \<Rightarrow> nat option" where
  "translate_extended_scancode sc =
     map_of [(0x1C, 96), (0x1D, KEY_RIGHTCTRL), (0x35, 98), (0x38, KEY_RIGHTALT), (0x47, 102), (0x48, 103),
             (0x49, 104), (0x4B, 105), (0x4D, 106), (0x4F, 107), (0x50, 108), (0x51, 109), (0x52, 110),
             (0x53, 111), (0x5B, KEY_LEFTMETA), (0x5C, KEY_RIGHTMETA), (0x5D, 127)] sc"

definition modifier_bit :: "nat \<Rightarrow> nat option" where
  "modifier_bit code =
     (if code = KEY_LEFTSHIFT \<or> code = KEY_RIGHTSHIFT then Some 0
      else if code = KEY_LEFTCTRL \<or> code = KEY_RIGHTCTRL then Some 1
      else if code = KEY_LEFTALT \<or> code = KEY_RIGHTALT then Some 2
      else if code = KEY_LEFTMETA \<or> code = KEY_RIGHTMETA then Some 3
      else None)"

definition key_code :: "u32 \<Rightarrow> bool \<Rightarrow> nat option" where
  "key_code sc ext =
     (if ext then translate_extended_scancode sc
      else if 1 \<le> sc \<and> sc \<le> 88 then Some (unat sc) else None)"

section \<open>State and operations\<close>

datatype uinput_event = Ev nat nat int

text \<open>\<open>in_available\<close>: whether the system lets us create a virtual device (it may change over time).\<close>

record inject =
  in_available :: bool
  in_keyboard :: bool
  in_mouse :: bool
  in_modifiers :: byte
  in_keys :: "uinput_event list"
  in_pointer :: "uinput_event list"

definition inject_init :: inject where
  "inject_init = \<lparr>in_available = True, in_keyboard = False, in_mouse = False, in_modifiers = 0, in_keys = [], in_pointer = []\<rparr>"

definition ensure_keyboard_dev :: "inject \<Rightarrow> inject" where
  "ensure_keyboard_dev st = (if in_keyboard st then st else st\<lparr>in_keyboard := in_available st\<rparr>)"

definition ensure_mouse_dev :: "inject \<Rightarrow> inject" where
  "ensure_mouse_dev st = (if in_mouse st then st else st\<lparr>in_mouse := in_available st\<rparr>)"

text \<open>\<^verbatim>\<open>emit\<close> writes nothing when there is no device.\<close>

definition emit_key :: "uinput_event list \<Rightarrow> inject \<Rightarrow> inject" where
  "emit_key evs st = (if in_keyboard st then st\<lparr>in_keys := in_keys st @ evs\<rparr> else st)"

definition emit_pointer :: "uinput_event list \<Rightarrow> inject \<Rightarrow> inject" where
  "emit_pointer evs st = (if in_mouse st then st\<lparr>in_pointer := in_pointer st @ evs\<rparr> else st)"

definition sync_report :: "uinput_event list" where
  "sync_report = [Ev EV_SYN 0 0]"

definition inject_mouse_absolute :: "int \<Rightarrow> int \<Rightarrow> inject \<Rightarrow> inject" where
  "inject_mouse_absolute x y st = emit_pointer ([Ev EV_ABS 0 x, Ev EV_ABS 1 y] @ sync_report) (ensure_mouse_dev st)"

definition button_code :: "byte \<Rightarrow> nat option" where
  "button_code button = (if button \<le> 4 then Some ([0x110, 0x111, 0x112, 0x113, 0x114] ! unat button) else None)"

definition inject_mouse_button :: "byte \<Rightarrow> bool \<Rightarrow> inject \<Rightarrow> inject" where
  "inject_mouse_button button pressed st =
     (let st1 = ensure_mouse_dev st in
      case button_code button of
        None \<Rightarrow> st1
      | Some code \<Rightarrow> emit_pointer ([Ev EV_KEY code (if pressed then 1 else 0)] @ sync_report) st1)"

text \<open>\<^verbatim>\<open>delta / 120\<close> truncates towards zero.\<close>

definition inject_mouse_wheel :: "int \<Rightarrow> inject \<Rightarrow> inject" where
  "inject_mouse_wheel delta st =
     emit_pointer ([Ev EV_REL 8 (if delta < 0 then - ((- delta) div 120) else delta div 120)] @ sync_report)
       (ensure_mouse_dev st)"

definition set_bit_to :: "nat \<Rightarrow> bool \<Rightarrow> byte \<Rightarrow> byte" where
  "set_bit_to b on w = (if on then w OR push_bit b 1 else w AND NOT (push_bit b 1))"

definition inject_key :: "u32 \<Rightarrow> u32 \<Rightarrow> bool \<Rightarrow> bool \<Rightarrow> inject \<Rightarrow> inject" where
  "inject_key virtual_key sc pressed ext st =
     (let st1 = ensure_keyboard_dev st in
      case key_code sc ext of
        None \<Rightarrow> st1
      | Some code \<Rightarrow>
          (let st2 = emit_key ([Ev EV_KEY code (if pressed then 1 else 0)] @ sync_report) st1
           in case modifier_bit code of
                None \<Rightarrow> st2
              | Some b \<Rightarrow> st2\<lparr>in_modifiers := set_bit_to b pressed (in_modifiers st2)\<rparr>))"

definition kModifiers :: "(nat \<times> nat) list" where
  "kModifiers = [(KEY_LEFTSHIFT, 0), (KEY_LEFTCTRL, 1), (KEY_LEFTALT, 2), (KEY_LEFTMETA, 3)]"

text \<open>The loop over the four modifiers; the flag is \<^verbatim>\<open>changed\<close>.\<close>

fun set_modifiers_loop :: "byte \<Rightarrow> (nat \<times> nat) list \<Rightarrow> bool \<times> inject \<Rightarrow> bool \<times> inject" where
  "set_modifiers_loop mask_bits [] r = r"
| "set_modifiers_loop mask_bits ((code, b) # ms) (changed, st) =
     (let want_down = bit mask_bits b; is_down = bit (in_modifiers st) b in
      if want_down = is_down then set_modifiers_loop mask_bits ms (changed, st)
      else set_modifiers_loop mask_bits ms
             (True, (emit_key [Ev EV_KEY code (if want_down then 1 else 0)] st)
                      \<lparr>in_modifiers := set_bit_to b want_down (in_modifiers st)\<rparr>))"

definition set_modifiers :: "byte \<Rightarrow> inject \<Rightarrow> inject" where
  "set_modifiers mask_bits st =
     (let (changed, st1) = set_modifiers_loop mask_bits kModifiers (False, ensure_keyboard_dev st)
      in if changed then emit_key sync_report st1 else st1)"

section \<open>What the kernel sees\<close>

text \<open>The keys held down on the virtual keyboard after a sequence of events.\<close>

fun hold :: "uinput_event \<Rightarrow> nat set \<Rightarrow> nat set" where
  "hold (Ev ty code v) held = (if ty = EV_KEY then (if v = 0 then held - {code} else insert code held) else held)"

definition held_keys :: "inject \<Rightarrow> nat set" where
  "held_keys st = fold hold (in_keys st) {}"

datatype inject_op = IKey u32 u32 bool bool | IMods byte

fun inject_step :: "inject_op \<Rightarrow> inject \<Rightarrow> inject" where
  "inject_step (IKey v s pressed ext) st = inject_key v s pressed ext st"
| "inject_step (IMods m) st = set_modifiers m st"

text \<open>A key of the right-hand modifiers.\<close>

fun right_modifier :: "inject_op \<Rightarrow> bool" where
  "right_modifier (IKey v s pressed ext) \<longleftrightarrow>
     key_code s ext \<in> {Some KEY_RIGHTSHIFT, Some KEY_RIGHTCTRL, Some KEY_RIGHTALT, Some KEY_RIGHTMETA}"
| "right_modifier (IMods m) \<longleftrightarrow> False"

text \<open>The shadow is right: the device exists and a left-hand modifier is held exactly if its bit is set.\<close>

definition shadow_ok :: "inject \<Rightarrow> bool" where
  "shadow_ok st \<longleftrightarrow> in_available st \<and> (\<not> in_keyboard st \<longrightarrow> in_keys st = [] \<and> in_modifiers st = 0) \<and>
     (\<forall>(code, b) \<in> set kModifiers. code \<in> held_keys st \<longleftrightarrow> bit (in_modifiers st) b)"

lemma bit_set_bit_to: "b < 8 \<Longrightarrow> bit (set_bit_to b on w) n = (if n = b then on else bit (w :: byte) n)"
  using bit_imp_le_length [of w n] by (auto simp: set_bit_to_def bit_simps)

lemma held_keys_emit [simp]:
  "in_keyboard st \<Longrightarrow> held_keys (emit_key evs st) = fold hold evs (held_keys st)"
  by (simp add: held_keys_def emit_key_def)

lemma held_keys_cong [simp]: "held_keys (st\<lparr>in_modifiers := m\<rparr>) = held_keys st"
  "held_keys (st\<lparr>in_keyboard := k\<rparr>) = held_keys st"
  by (simp_all add: held_keys_def)

lemma fold_sync [simp]: "fold hold sync_report held = held"
  by (simp add: sync_report_def EV_SYN_def EV_KEY_def)

lemma ensure_keyboard [simp]:
  "in_available st \<Longrightarrow> in_keyboard (ensure_keyboard_dev st)"
  "held_keys (ensure_keyboard_dev st) = held_keys st" "in_modifiers (ensure_keyboard_dev st) = in_modifiers st"
  "in_available (ensure_keyboard_dev st) = in_available st"
  by (simp_all add: ensure_keyboard_dev_def)

lemma emit_key_fields [simp]:
  "in_available (emit_key evs st) = in_available st" "in_keyboard (emit_key evs st) = in_keyboard st"
  "in_modifiers (emit_key evs st) = in_modifiers st"
  by (simp_all add: emit_key_def)

lemma shadow_ok_key:
  assumes "shadow_ok st" "\<not> right_modifier (IKey v s pressed ext)"
  shows "shadow_ok (inject_key v s pressed ext st)"
proof (cases "key_code s ext")
  case None
  with assms show ?thesis by (auto simp: inject_key_def shadow_ok_def)
next
  case (Some code)
  let ?st = "ensure_keyboard_dev st"
  have "\<forall>(code, b) \<in> set kModifiers. code \<in> held_keys ?st \<longleftrightarrow> bit (in_modifiers ?st) b" "in_keyboard ?st" "in_available ?st"
    using assms(1) by (simp_all add: shadow_ok_def)
  moreover have "code \<notin> {KEY_RIGHTSHIFT, KEY_RIGHTCTRL, KEY_RIGHTALT, KEY_RIGHTMETA}"
    using assms(2) Some by simp
  ultimately show ?thesis
    by (auto simp: inject_key_def Some modifier_bit_def shadow_ok_def kModifiers_def bit_set_bit_to EV_KEY_def)
qed

text \<open>The loop sets the modifiers it goes over and leaves the others as they were.\<close>

lemma set_modifiers_loop_sets:
  assumes "in_keyboard st" "distinct (map fst ms)" "distinct (map snd ms)" "\<forall>(code, b) \<in> set ms. b < 8"
    and "\<forall>(code, b) \<in> set ms. code \<in> held_keys st \<longleftrightarrow> bit (in_modifiers st) b"
    and "set_modifiers_loop m ms (ch, st) = (ch', st')"
  shows "in_keyboard st' \<and> in_available st' = in_available st \<and>
    (\<forall>(code, b) \<in> set ms. (code \<in> held_keys st' \<longleftrightarrow> bit m b) \<and> (bit (in_modifiers st') b \<longleftrightarrow> bit m b)) \<and>
    (\<forall>code. code \<notin> fst ` set ms \<longrightarrow> (code \<in> held_keys st' \<longleftrightarrow> code \<in> held_keys st)) \<and>
    (\<forall>b. b \<notin> snd ` set ms \<longrightarrow> (bit (in_modifiers st') b \<longleftrightarrow> bit (in_modifiers st) b))"
  using assms
proof (induction ms arbitrary: ch st)
  case (Cons x ms)
  obtain code b where x: "x = (code, b)" by fastforce
  define st1 where "st1 = (if bit m b = bit (in_modifiers st) b then st
    else (emit_key [Ev EV_KEY code (if bit m b then 1 else 0)] st)\<lparr>in_modifiers := set_bit_to b (bit m b) (in_modifiers st)\<rparr>)"
  have b: "b < 8" "code \<in> held_keys st \<longleftrightarrow> bit (in_modifiers st) b" using Cons.prems(4,5) x by auto
  have st: "in_keyboard st1" "in_available st1 = in_available st"
    "code \<in> held_keys st1 \<longleftrightarrow> bit m b" "bit (in_modifiers st1) b \<longleftrightarrow> bit m b"
    "\<And>k. k \<noteq> code \<Longrightarrow> k \<in> held_keys st1 \<longleftrightarrow> k \<in> held_keys st"
    "\<And>n. n \<noteq> b \<Longrightarrow> bit (in_modifiers st1) n \<longleftrightarrow> bit (in_modifiers st) n"
    using Cons.prems(1) b by (auto simp: st1_def EV_KEY_def bit_set_bit_to)
  have nin: "code \<notin> fst ` set ms" "b \<notin> snd ` set ms" using Cons.prems(2,3) x by auto
  from Cons.prems(6) x obtain ch1 where rec: "set_modifiers_loop m ms (ch1, st1) = (ch', st')"
    by (auto simp: st1_def Let_def split: if_splits)
  have same: "\<forall>(k, n) \<in> set ms. k \<in> held_keys st1 \<longleftrightarrow> bit (in_modifiers st1) n"
  proof (intro ballI, clarify)
    fix k n assume kn: "(k, n) \<in> set ms"
    with nin have "k \<noteq> code" "n \<noteq> b" by force+
    with st(5,6) Cons.prems(5) kn x show "k \<in> held_keys st1 \<longleftrightarrow> bit (in_modifiers st1) n" by auto
  qed
  have ih: "in_keyboard st' \<and> in_available st' = in_available st1 \<and>
    (\<forall>(code, b) \<in> set ms. (code \<in> held_keys st' \<longleftrightarrow> bit m b) \<and> (bit (in_modifiers st') b \<longleftrightarrow> bit m b)) \<and>
    (\<forall>code. code \<notin> fst ` set ms \<longrightarrow> (code \<in> held_keys st' \<longleftrightarrow> code \<in> held_keys st1)) \<and>
    (\<forall>b. b \<notin> snd ` set ms \<longrightarrow> (bit (in_modifiers st') b \<longleftrightarrow> bit (in_modifiers st1) b))"
    by (rule Cons.IH [OF st(1) _ _ _ same rec]) (use Cons.prems x in auto)
  have "code \<in> held_keys st' \<longleftrightarrow> bit m b" "bit (in_modifiers st') b \<longleftrightarrow> bit m b"
    using ih nin st(3,4) by blast+
  moreover have "k \<notin> fst ` set (x # ms) \<Longrightarrow> k \<in> held_keys st' \<longleftrightarrow> k \<in> held_keys st" for k
    using ih st(5) x by simp
  moreover have "n \<notin> snd ` set (x # ms) \<Longrightarrow> bit (in_modifiers st') n \<longleftrightarrow> bit (in_modifiers st) n" for n
    using ih st(6) x by simp
  ultimately show ?case using ih st(2) x by simp
qed auto

lemma set_modifiers_sets:
  assumes "shadow_ok st"
  shows "shadow_ok (set_modifiers m st) \<and>
    (\<forall>(code, b) \<in> set kModifiers. code \<in> held_keys (set_modifiers m st) \<longleftrightarrow> bit m b) \<and>
    (\<forall>code. code \<notin> fst ` set kModifiers \<longrightarrow> (code \<in> held_keys (set_modifiers m st) \<longleftrightarrow> code \<in> held_keys st))"
proof -
  obtain ch st' where l: "set_modifiers_loop m kModifiers (False, ensure_keyboard_dev st) = (ch, st')" by fastforce
  have "in_keyboard (ensure_keyboard_dev st)"
    "\<forall>(code, b) \<in> set kModifiers. code \<in> held_keys (ensure_keyboard_dev st) \<longleftrightarrow> bit (in_modifiers (ensure_keyboard_dev st)) b"
    using assms by (simp_all add: shadow_ok_def)
  note loop = set_modifiers_loop_sets [OF this(1) _ _ _ this(2) l]
  have st': "in_keyboard st'" "in_available st' = in_available st"
    "\<forall>(code, b) \<in> set kModifiers. (code \<in> held_keys st' \<longleftrightarrow> bit m b) \<and> (bit (in_modifiers st') b \<longleftrightarrow> bit m b)"
    "\<forall>code. code \<notin> fst ` set kModifiers \<longrightarrow> (code \<in> held_keys st' \<longleftrightarrow> code \<in> held_keys st)"
    using loop by (simp_all add: kModifiers_def)
  let ?st = "set_modifiers m st"
  have "in_keyboard ?st" "in_available ?st = in_available st" "held_keys ?st = held_keys st'"
    "in_modifiers ?st = in_modifiers st'"
    using l st'(1,2) by (simp_all add: set_modifiers_def)
  with st' assms show ?thesis by (fastforce simp: shadow_ok_def)
qed

lemma shadow_ok_run:
  "shadow_ok st \<Longrightarrow> list_all (\<lambda>op. \<not> right_modifier op) ops \<Longrightarrow> shadow_ok (fold inject_step ops st)"
proof (induction ops arbitrary: st)
  case (Cons op ops)
  then have "shadow_ok (inject_step op st)"
    by (cases op) (auto simp del: right_modifier.simps(1) intro: shadow_ok_key simp: set_modifiers_sets)
  with Cons show ?case by simp
qed simp

lemma shadow_ok_init: "shadow_ok inject_init"
  by (simp add: shadow_ok_def inject_init_def held_keys_def kModifiers_def)

text \<open>
  C27. Ownership handoff leaves no modifier stuck: whatever keys other than the right-hand modifiers were
  injected before, and whatever modifier states were forced, after \<^verbatim>\<open>set_modifiers(mask)\<close> each of
  Shift, Ctrl, Alt and Meta is held exactly if its bit of the mask is set, and every other key is as it
  was.
\<close>

theorem modifiers_forced:
  assumes "list_all (\<lambda>op. \<not> right_modifier op) ops" "st = fold inject_step ops inject_init"
  shows "(\<forall>(code, b) \<in> set kModifiers. code \<in> held_keys (set_modifiers m st) \<longleftrightarrow> bit m b) \<and>
    (\<forall>code. code \<notin> fst ` set kModifiers \<longrightarrow> (code \<in> held_keys (set_modifiers m st) \<longleftrightarrow> code \<in> held_keys st))"
  using set_modifiers_sets [of st m] shadow_ok_run [OF shadow_ok_init assms(1)] assms(2) by simp

theorem modifiers_forced_witness:
  "KEY_LEFTSHIFT \<notin> held_keys (set_modifiers 2 (fold inject_step [IKey 0xA0 42 True False, IKey 0x41 30 True False] inject_init)) \<and>
   KEY_LEFTCTRL \<in> held_keys (set_modifiers 2 (fold inject_step [IKey 0xA0 42 True False, IKey 0x41 30 True False] inject_init)) \<and>
   30 \<in> held_keys (set_modifiers 2 (fold inject_step [IKey 0xA0 42 True False, IKey 0x41 30 True False] inject_init))"
proof -
  let ?ops = "[IKey 0xA0 42 True False, IKey 0x41 30 True False]"
  have nr: "list_all (\<lambda>op. \<not> right_modifier op) ?ops" by (simp add: key_code_def)
  have "30 \<in> held_keys (fold inject_step ?ops inject_init)"
    by (simp add: inject_key_def key_code_def modifier_bit_def inject_init_def ensure_keyboard_dev_def emit_key_def
        held_keys_def EV_KEY_def sync_report_def EV_SYN_def)
  with modifiers_forced [OF nr refl, of 2] show ?thesis
    by (simp add: kModifiers_def)
qed

lemma set_modifiers_keeps_other:
  assumes "code \<notin> fst ` set kModifiers" "code \<in> held_keys st"
  shows "code \<in> held_keys (set_modifiers m st)"
proof -
  have loop: "code \<in> held_keys st'" if "set_modifiers_loop m ms (ch, s) = (ch', st')" "code \<notin> fst ` set ms" "code \<in> held_keys s"
    for ms ch s ch' st'
    using that
    by (induction m ms "(ch, s)" arbitrary: ch s rule: set_modifiers_loop.induct)
      (auto simp: Let_def emit_key_def held_keys_def EV_KEY_def split: if_splits)
  obtain ch st' where l: "set_modifiers_loop m kModifiers (False, ensure_keyboard_dev st) = (ch, st')" by fastforce
  from loop [OF l assms(1)] assms(2) have "code \<in> held_keys st'" by simp
  then show ?thesis
    using l by (auto simp: set_modifiers_def emit_key_def held_keys_def sync_report_def EV_SYN_def EV_KEY_def)
qed

text \<open>
  The right-hand modifiers escape: once the right Shift key was pressed, \<^verbatim>\<open>set_modifiers\<close> never
  releases it, whatever the mask, although the shadow then says that Shift is up.
\<close>

theorem right_shift_stays_held:
  "KEY_RIGHTSHIFT \<in> held_keys (set_modifiers m (inject_key v 54 True False inject_init)) \<and>
   \<not> bit (in_modifiers (set_modifiers 0 (inject_key v 54 True False inject_init))) 0"
proof
  have st: "inject_key v 54 True False inject_init =
      inject_init\<lparr>in_keyboard := True, in_keys := [Ev EV_KEY 54 1, Ev EV_SYN 0 0], in_modifiers := 1\<rparr>"
    by (simp add: inject_key_def key_code_def modifier_bit_def inject_init_def ensure_keyboard_dev_def emit_key_def
        sync_report_def set_bit_to_def)
  then show "KEY_RIGHTSHIFT \<in> held_keys (set_modifiers m (inject_key v 54 True False inject_init))"
    by (intro set_modifiers_keeps_other) (auto simp: kModifiers_def held_keys_def EV_KEY_def EV_SYN_def)
  show "\<not> bit (in_modifiers (set_modifiers 0 (inject_key v 54 True False inject_init))) 0"
    unfolding st
    by (simp add: set_modifiers_def kModifiers_def ensure_keyboard_dev_def Let_def set_bit_to_def)
qed

end
