(* ===== verification/TcpClient.thy ===== *)
theory TcpClient
  imports Handshake Inject
begin

text \<open>
  The Slave's end of the connection, \<^verbatim>\<open>src/discovery/tcp_client.cpp\<close>: one attempt from connecting to
  disconnecting (\<open>run_once\<close>), the dispatch of input messages to the injector, and the loop that retries
  with a growing delay until it gives up (\<open>run\<close>).
\<close>

section \<open>Injection of received input\<close>

definition dispatch_input_message :: "byte \<Rightarrow> bytes \<Rightarrow> inject \<Rightarrow> inject" where
  "dispatch_input_message msg_type payload st =
     (if msg_type = kMsgMouseAbsolute
      then (case decode_mouse_absolute payload of None \<Rightarrow> st | Some (x, y) \<Rightarrow> inject_mouse_absolute x y st)
      else if msg_type = kMsgMouseButton
      then (case decode_mouse_button payload of None \<Rightarrow> st | Some (button, pressed) \<Rightarrow> inject_mouse_button button pressed st)
      else if msg_type = kMsgMouseWheel
      then (case decode_mouse_wheel payload of None \<Rightarrow> st | Some delta \<Rightarrow> inject_mouse_wheel delta st)
      else if msg_type = kMsgKey
      then (case decode_key payload of
              None \<Rightarrow> st
            | Some k \<Rightarrow> inject_key (key_event.vk k) (key_event.scancode k) (key_event.down k) (key_event.extended k) st)
      else if msg_type = kMsgModifierSync
      then (case decode_modifier_sync payload of None \<Rightarrow> st | Some m \<Rightarrow> set_modifiers m st)
      else st)"

section \<open>State\<close>

record client =
  cl_device_id :: u64
  cl_static :: keypair
  cl_known :: known_peers
  cl_peer_ip :: bytes
  cl_give_up :: int
  cl_status :: connection_info
  cl_clipboard :: "clipboard_message option"
  cl_inject :: inject

text \<open>\<^verbatim>\<open>TcpClient::AttemptOutcome\<close>.\<close>

datatype attempt_outcome = RetryFast | RetryBackoff | GiveUp

text \<open>
  What the system and the other threads contribute to one attempt: whether the socket is created, what
  the non-blocking connect reports and how long it takes, the connection itself, the ephemeral key of
  the handshake, the monitors at the start of the session, the inputs of its loop, and \<^verbatim>\<open>running_\<close>
  over time.
\<close>

record connect_report =
  co_immediate :: bool
  co_in_progress :: bool
  co_writable :: bool
  co_error :: int

record attempt =
  at_socket_ok :: bool
  at_connect :: connect_report
  at_connect_ms :: nat
  at_sock :: sock
  at_ephemeral :: keypair
  at_monitors :: "monitor_info list"
  at_inputs :: "loop_input list"
  at_running :: "int \<Rightarrow> bool"

definition connect_with_timeout :: "connect_report \<Rightarrow> bool" where
  "connect_with_timeout r =
     (if \<not> co_immediate r \<and> \<not> co_in_progress r then False
      else if \<not> co_immediate r then (if \<not> co_writable r then False else co_error r = 0)
      else True)"

section \<open>Before the session\<close>

text \<open>Pairing: the raw key exchange and the wait for the Master's decision.\<close>

definition client_pair :: "crypto \<Rightarrow> u64 \<Rightarrow> client \<Rightarrow> sock \<Rightarrow> (attempt_outcome + bytes) \<times> client \<times> sock" where
  "client_pair c peer cl s =
     (case exchange (public_key (cl_static cl)) 32 s of
        (None, s1) \<Rightarrow> (Inl RetryBackoff, cl, s1)
      | (Some peer_raw, s1) \<Rightarrow>
          (let fingerprint = compute_fingerprint c (public_key (cl_static cl)) peer_raw;
               cl1 = cl\<lparr>cl_status := connection_at Pairing peer (cl_peer_ip cl) fingerprint\<rparr>
           in case recv_all 1 (sk_clock s1 + kPairingApprovalTimeout) s1 of
                (None, s2) \<Rightarrow> (Inl RetryBackoff, cl1, s2)
              | (Some decision, s2) \<Rightarrow>
                  if hd decision \<noteq> kPairingApproved then (Inl GiveUp, cl1, s2)
                  else (Inr peer_raw, cl1\<lparr>cl_known := remember peer peer_raw (cl_known cl1)\<rparr>, s2)))"

definition client_authenticate ::
    "crypto \<Rightarrow> attempt \<Rightarrow> u64 \<Rightarrow> bytes \<Rightarrow> client \<Rightarrow> sock \<Rightarrow> (attempt_outcome + u64 \<times> ik_result) \<times> client \<times> sock" where
  "client_authenticate c a peer rs cl s =
     (case run_ik_initiator c (cl_static cl) rs (at_ephemeral a) (sk_clock s + kHandshakeTimeout) s of
        (None, s1) \<Rightarrow> (Inl RetryBackoff, cl, s1)
      | (Some ik, s1) \<Rightarrow> (Inr (peer, ik), cl, s1))"

definition client_handshake ::
    "crypto \<Rightarrow> attempt \<Rightarrow> client \<Rightarrow> sock \<Rightarrow> (attempt_outcome + u64 \<times> ik_result) \<times> client \<times> sock" where
  "client_handshake c a cl s =
     (case exchange (encode_device_id (cl_device_id cl)) 8 s of
        (None, s1) \<Rightarrow> (Inl RetryBackoff, cl, s1)
      | (Some peer_bytes, s1) \<Rightarrow>
          (let peer = decode_device_id peer_bytes;
               rs = get_pubkey peer (cl_known cl)
           in case exchange [wants_pairing rs] 1 s1 of
                (None, s2) \<Rightarrow> (Inl RetryBackoff, cl, s2)
              | (Some flag, s2) \<Rightarrow>
                  (if need_pairing rs (hd flag)
                   then (case client_pair c peer cl s2 of
                           (Inl outcome, cl1, s3) \<Rightarrow> (Inl outcome, cl1, s3)
                         | (Inr peer_raw, cl1, s3) \<Rightarrow> client_authenticate c a peer peer_raw cl1 s3)
                   else client_authenticate c a peer (the rs) cl s2)))"

section \<open>The session\<close>

record client_session = session +
  cs_last_check :: int
  cs_sent_monitors :: "monitor_info list"
  cs_inject :: inject

definition client_handle :: "crypto \<Rightarrow> byte \<Rightarrow> bytes \<Rightarrow> client_session \<Rightarrow> client_session" where
  "client_handle c msg_type payload s =
     (if msg_type = kMsgAudioPort
      then (case decode_audio_port payload of
              None \<Rightarrow> s
            | Some port \<Rightarrow> s\<lparr>se_info := (se_info s)\<lparr>ci_audio_port := port\<rparr>\<rparr>)
      else if msg_type = kMsgAudioControl
      then (case decode_audio_settings payload of
              None \<Rightarrow> s
            | Some (send_enabled, rate, depth) \<Rightarrow>
                s\<lparr>se_info := (se_info s)
                    \<lparr>ci_requested_enabled := send_enabled, ci_requested_rate := rate, ci_requested_depth := depth,
                     ci_control_received := True, ci_control_seq := ci_control_seq (se_info s) + 1\<rparr>\<rparr>)
      else if msg_type = kMsgGoAway then s\<lparr>se_info := (se_info s)\<lparr>ci_go_away := True\<rparr>\<rparr>
      else if msg_type = kMsgPing then on_ping c payload s
      else if msg_type = kMsgPong then on_pong payload s
      else if msg_type = kMsgClipboardText \<or> msg_type = kMsgClipboardImage then on_clipboard msg_type payload s
      else if msg_type \<noteq> kMsgHeartbeat
      then s\<lparr>cs_inject := dispatch_input_message msg_type payload (cs_inject s)\<rparr>
      else s)"

text \<open>The monitors are compared once per second and sent when they changed.\<close>

definition recheck_monitors :: "crypto \<Rightarrow> loop_input \<Rightarrow> client_session \<Rightarrow> client_session" where
  "recheck_monitors c i s =
     (if se_clock s - cs_last_check s \<ge> kHeartbeatInterval
      then (let s1 = (if li_monitors i \<noteq> cs_sent_monitors s
                      then (session_send c kMsgMonitorList (encode_monitor_list (li_monitors i)) s)
                             \<lparr>cs_sent_monitors := li_monitors i\<rparr>
                      else s)
            in s1\<lparr>cs_last_check := se_clock s\<rparr>)
      else s)"

definition client_iteration :: "crypto \<Rightarrow> int \<Rightarrow> loop_input \<Rightarrow> client_session \<Rightarrow> bool \<times> client_session" where
  "client_iteration c give_up_after i s =
     (case session_receive c (ui_actions c i s) of
        (RClosed, s1) \<Rightarrow> (False, s1)
      | (r, s1) \<Rightarrow>
          (let s2 = (case r of ROk msg_type payload \<Rightarrow> client_handle c msg_type payload s1 | _ \<Rightarrow> s1)
           in if se_clock s2 - se_last_heard s2 \<ge> give_up_after then (False, s2)
              else (True, recheck_monitors c i (keep_alive c s2))))"

definition client_loop :: "crypto \<Rightarrow> int \<Rightarrow> loop_input list \<Rightarrow> client_session \<Rightarrow> loop_end \<times> loop_input list \<times> client_session" where
  "client_loop c give_up_after = run_loop (client_iteration c give_up_after) li_running"

text \<open>The session starts with the monitor list.\<close>

definition client_session_start :: "crypto \<Rightarrow> attempt \<Rightarrow> u64 \<Rightarrow> ik_result \<Rightarrow> client \<Rightarrow> sock \<Rightarrow> client_session" where
  "client_session_start c a peer ik cl s =
     (let info = (connection_at Connected peer (cl_peer_ip cl) [])\<lparr>ci_audio_key := send_key (ik_keys ik)\<rparr>;
          base = session_start (channel_new s (ik_keys ik)) info (cl_clipboard cl)
      in session_send c kMsgMonitorList (encode_monitor_list (at_monitors a))
           (session.extend base
              (client_session.fields (sk_clock s) (at_monitors a) (cl_inject cl))))"

section \<open>One attempt\<close>

definition failed :: "client \<Rightarrow> client" where
  "failed cl = cl\<lparr>cl_status := (cl_status cl)\<lparr>ci_state := Failed\<rparr>\<rparr>"

text \<open>The outcome, the client afterwards and the time at the end of the attempt.\<close>

definition run_once :: "crypto \<Rightarrow> attempt \<Rightarrow> int \<Rightarrow> client \<Rightarrow> attempt_outcome \<times> client \<times> int" where
  "run_once c a now cl =
     (let cl0 = cl\<lparr>cl_status := connection_at Connecting 0 (cl_peer_ip cl) []\<rparr>;
          t1 = now + int (at_connect_ms a)
      in if \<not> at_socket_ok a then (RetryBackoff, failed cl0, now)
         else if \<not> connect_with_timeout (at_connect a) then (RetryBackoff, failed cl0, t1)
         else case client_handshake c a cl0 ((at_sock a)\<lparr>sk_clock := t1, sk_timeout := 200\<rparr>) of
           (Inl outcome, cl1, s) \<Rightarrow> (outcome, failed cl1, sk_clock s)
         | (Inr (peer, ik), cl1, s) \<Rightarrow>
             (let (e, rest, s1) = client_loop c (cl_give_up cl1) (at_inputs a) (client_session_start c a peer ik cl1 s)
              in (RetryFast,
                  failed (cl1\<lparr>cl_status := se_info s1, cl_clipboard := se_clipboard s1, cl_inject := cs_inject s1\<rparr>),
                  se_clock s1)))"

section \<open>Retrying\<close>

definition kInitialBackoff :: int where "kInitialBackoff = 1000"
definition kMaxBackoff :: int where "kMaxBackoff = 10000"
definition kBackoffPollInterval :: int where "kBackoffPollInterval = 200"

text \<open>The delay in slices; the result is the time when it ends.\<close>

function sleep_slices :: "(int \<Rightarrow> bool) \<Rightarrow> int \<Rightarrow> int \<Rightarrow> int \<Rightarrow> int" where
  "sleep_slices running deadline remaining now =
     (if remaining > 0 \<and> running now
      then (if now \<ge> deadline then now
            else let step = min remaining (min kBackoffPollInterval (deadline - now))
                 in sleep_slices running deadline (remaining - step) (now + step))
      else now)"
  by pat_completeness auto

termination
  by (relation "measure (\<lambda>(_, _, remaining, _). nat remaining)") (auto simp: kBackoffPollInterval_def)

declare sleep_slices.simps [simp del]

text \<open>
  The loop of \<^verbatim>\<open>run\<close>. Its result lists the attempts that were made, each with its start, its outcome and
  its end; the attempts the environment offers may outnumber them.
\<close>

fun retry_loop :: "crypto \<Rightarrow> attempt list \<Rightarrow> int \<Rightarrow> int \<Rightarrow> int \<Rightarrow> client \<Rightarrow>
    (int \<times> attempt_outcome \<times> int) list \<times> client" where
  "retry_loop c [] backoff deadline now cl = ([], cl)"
| "retry_loop c (a # as) backoff deadline now cl =
     (if \<not> at_running a now then ([], cl)
      else
        let (outcome, cl1, t) = run_once c a now cl;
            entry = (now, outcome, t);
            fast = (outcome = RetryFast);
            deadline1 = (if fast then t + cl_give_up cl1 else deadline);
            backoff1 = (if fast then kInitialBackoff else backoff);
            t1 = sleep_slices (at_running a) deadline1 backoff1 t
        in if outcome = GiveUp \<or> \<not> at_running a t then ([entry], cl1)
           else if \<not> fast \<and> t \<ge> deadline1 then ([entry], cl1)
           else if t1 \<ge> deadline1 then ([entry], cl1)
           else let (rest, cl2) = retry_loop c as (if fast then backoff1 else min (backoff1 * 2) kMaxBackoff) deadline1 t1 cl1
                in (entry # rest, cl2))"

definition client_run :: "crypto \<Rightarrow> attempt list \<Rightarrow> int \<Rightarrow> client \<Rightarrow> (int \<times> attempt_outcome \<times> int) list \<times> client" where
  "client_run c as now cl = retry_loop c as kInitialBackoff (now + cl_give_up cl) now cl"

text \<open>\<^verbatim>\<open>send_message\<close>: only while a channel is active.\<close>

definition send_message :: "crypto \<Rightarrow> byte \<Rightarrow> bytes \<Rightarrow> channel option \<Rightarrow> bool \<times> channel option" where
  "send_message c msg_type payload active =
     (case active of
        None \<Rightarrow> (False, None)
      | Some ch \<Rightarrow> (let (ok, ch') = channel_send c msg_type payload ch in (ok, Some ch')))"

section \<open>The session meets the contract\<close>

lemma ok_client_handle: "session_ok s \<Longrightarrow> session_ok (client_handle c ty payload s)"
  by (auto simp: client_handle_def session_ok_def on_ping_def on_pong_def on_clipboard_def split: option.split)

lemma recheck_monitors_fields [simp]:
  "se_clock (recheck_monitors c i s) = se_clock s"
  "sk_events (ch_sock (se_channel (recheck_monitors c i s))) = sk_events (ch_sock (se_channel s))"
  "ch_keys (se_channel (recheck_monitors c i s)) = ch_keys (se_channel s)"
  "ch_recv_nonce (se_channel (recheck_monitors c i s)) = ch_recv_nonce (se_channel s)"
  "se_info (recheck_monitors c i s) = se_info s" "se_clipboard (recheck_monitors c i s) = se_clipboard s"
  "se_last_heard (recheck_monitors c i s) = se_last_heard s"
  "session_ok (recheck_monitors c i s) = session_ok s"
  "session_fresh t (recheck_monitors c i s) = session_fresh t s"
  by (simp_all add: recheck_monitors_def session_ok_def session_fresh_def Let_def del: not_None_eq)

lemma client_iteration_ok:
  assumes "session_ok s" "client_iteration c g i s = (cont, s')"
  shows "session_ok s' \<and> (cont \<longrightarrow> session_fresh g s')"
proof -
  obtain r s1 where r: "session_receive c (ui_actions c i s) = (r, s1)" by fastforce
  have ok1: "session_ok s1"
    using session_ok_receive [OF session_ok_same [OF ui_actions_receiver assms(1)] r] .
  let ?s2 = "case r of ROk ty payload \<Rightarrow> client_handle c ty payload s1 | _ \<Rightarrow> s1"
  have ok2: "session_ok ?s2" using ok1 by (auto simp: ok_client_handle split: recv_outcome.split)
  show ?thesis
  proof (cases "r = RClosed \<or> se_clock ?s2 - se_last_heard ?s2 \<ge> g")
    case True
    then show ?thesis
      using assms(2) r ok1 ok2 by (cases r) (auto simp: client_iteration_def Let_def split: if_splits)
  next
    case False
    then have "cont" "s' = recheck_monitors c i (keep_alive c ?s2)"
      using assms(2) r by (cases r; auto simp: client_iteration_def Let_def)+
    with keep_alive_fresh [OF ok2, of g c] False show ?thesis by simp
  qed
qed

lemma client_iteration_silent:
  assumes "se_incoming s = []" "client_iteration c g i s = (cont, s')"
  shows "if cont then se_incoming s' = [] \<and> se_last_heard s' = se_last_heard s \<and> se_clock s' = se_clock s + 200
    else se_clock s' \<le> se_clock s + 200"
proof -
  let ?s = "ui_actions c i s"
  have same: "same_receiver s ?s" by (rule ui_actions_receiver)
  obtain r ch where r: "channel_receive c (se_clock ?s + 200) (se_channel ?s) = (r, ch)" by fastforce
  have "se_incoming ?s = []" using assms(1) same by (simp add: same_receiver_def)
  from channel_receive_silent [OF this _ r] same have
    "r = RClosed \<and> sk_clock (ch_sock ch) \<le> se_clock s + 200 \<or>
     r = RTimeout \<and> sk_clock (ch_sock ch) = se_clock s + 200 \<and> incoming (ch_sock ch) = []"
    by (simp add: same_receiver_def)
  with assms(2) r same show ?thesis
    by (auto simp: client_iteration_def session_receive_def Let_def same_receiver_def split: if_splits)
qed

lemma client_iteration_error:
  assumes "channel_receive c (se_clock s + 200) (se_channel (ui_actions c i s)) = (RError, ch)" "0 < g"
  shows "\<exists>s'. client_iteration c g i s = (True, s') \<and> se_info s' = se_info s \<and>
    se_clipboard s' \<in> {se_clipboard s, None} \<and> se_last_heard s' = se_clock s' \<and>
    sk_events (ch_sock (se_channel s')) = sk_events (ch_sock ch) \<and>
    ch_keys (se_channel s') = ch_keys ch \<and> ch_recv_nonce (se_channel s') = ch_recv_nonce ch"
proof -
  have "se_clock (ui_actions c i s) = se_clock s" "se_info (ui_actions c i s) = se_info s"
    using ui_actions_receiver [of s c i] by (simp_all add: same_receiver_def)
  with assms ui_actions_clipboard [of c i s] show ?thesis
    by (simp add: client_iteration_def session_receive_def Let_def)
qed

interpretation client_side: session_loop c "client_iteration c g" "\<lambda>_. g" for c g
  by unfold_locales (fact client_iteration_ok client_iteration_silent client_iteration_error)+

section \<open>The schedule of the attempts\<close>

lemma sleep_slices_result:
  assumes "sleep_slices running deadline remaining now = t" "0 \<le> remaining"
  shows "now \<le> t \<and> t \<le> max now deadline \<and> (t < deadline \<longrightarrow> t = now + remaining \<or> \<not> running t)"
  using assms
proof (induction running deadline remaining now rule: sleep_slices.induct)
  case (1 running deadline remaining now)
  show ?case
  proof (cases "remaining > 0 \<and> running now \<and> now < deadline")
    case True
    let ?step = "min remaining (min kBackoffPollInterval (deadline - now))"
    have t: "sleep_slices running deadline (remaining - ?step) (now + ?step) = t"
      using "1.prems"(1) True by (subst (asm) sleep_slices.simps) (simp add: Let_def)
    have "now + ?step \<le> t \<and> t \<le> max (now + ?step) deadline \<and>
        (t < deadline \<longrightarrow> t = now + ?step + (remaining - ?step) \<or> \<not> running t)"
      by (rule "1.IH" [OF _ _ refl t]) (use True in auto)
    moreover have "0 < ?step" "now + ?step \<le> deadline" using True by (auto simp: kBackoffPollInterval_def)
    ultimately show ?thesis by auto
  next
    case False
    then have "t = now" using "1.prems"(1) by (subst (asm) sleep_slices.simps) (auto split: if_splits)
    with False "1.prems"(2) show ?thesis by auto
  qed
qed

text \<open>
  What the attempts of one run must look like, given the delay and the deadline in force: every attempt
  starts before the deadline; after a rejection there is none; the next one starts exactly one delay
  after the end of the last; a failure doubles the delay up to its maximum, a connection resets the
  delay and the deadline.
\<close>

fun schedule :: "int \<Rightarrow> int \<Rightarrow> int \<Rightarrow> (int \<times> attempt_outcome \<times> int) list \<Rightarrow> bool" where
  "schedule g backoff deadline [] \<longleftrightarrow> True"
| "schedule g backoff deadline [(s, o', t)] \<longleftrightarrow> s < deadline"
| "schedule g backoff deadline ((s, o', t) # (s2, o2, t2) # es) \<longleftrightarrow>
     s < deadline \<and> o' \<noteq> GiveUp \<and>
     (if o' = RetryFast
      then s2 = t + kInitialBackoff \<and> schedule g kInitialBackoff (t + g) ((s2, o2, t2) # es)
      else s2 = t + backoff \<and> schedule g (min (backoff * 2) kMaxBackoff) deadline ((s2, o2, t2) # es))"

lemma client_pair_give_up: "client_pair c peer cl s = (r, cl', s') \<Longrightarrow> cl_give_up cl' = cl_give_up cl"
  by (auto simp: client_pair_def Let_def split: prod.splits option.splits if_splits)

lemma client_handshake_give_up:
  assumes "client_handshake c a cl s = (r, cl', s')"
  shows "cl_give_up cl' = cl_give_up cl"
  using assms
  by (auto simp: client_handshake_def client_authenticate_def Let_def
      split: prod.splits option.splits if_splits sum.splits dest!: client_pair_give_up)

lemma run_once_give_up: "run_once c a now cl = (o', cl', t) \<Longrightarrow> cl_give_up cl' = cl_give_up cl"
  by (auto simp: run_once_def failed_def Let_def split: prod.splits sum.splits if_splits
      dest: client_handshake_give_up)

text \<open>\<^verbatim>\<open>running_\<close> is one flag: all attempts see the same, and once it is off it stays off.\<close>

definition one_stop :: "(int \<Rightarrow> bool) \<Rightarrow> attempt list \<Rightarrow> bool" where
  "one_stop running as \<longleftrightarrow> list_all (\<lambda>a. at_running a = running) as"

lemma retry_loop_head:
  "retry_loop c as b d now cl = (e # es, cl') \<Longrightarrow> fst e = now"
  by (cases as) (auto simp: Let_def split: prod.splits if_splits)

lemma retry_loop_stopped:
  assumes "one_stop running as" "\<not> running now"
  shows "retry_loop c as b d now cl = ([], cl)"
  using assms by (cases as) (auto simp: one_stop_def)

lemma retry_loop_schedule:
  assumes "one_stop running as" "0 \<le> backoff" "now < deadline"
    and "retry_loop c as backoff deadline now cl = (es, cl')"
  shows "schedule (cl_give_up cl) backoff deadline es"
  using assms
proof (induction "as" arbitrary: backoff deadline now cl es)
  case (Cons a "as")
  have run: "at_running a = running" "one_stop running as" using Cons.prems(1) by (simp_all add: one_stop_def)
  obtain o' cl1 t where ro: "run_once c a now cl = (o', cl1, t)" using prod_cases3 by blast
  note g = run_once_give_up [OF ro]
  define d1 where "d1 = (if o' = RetryFast then t + cl_give_up cl1 else deadline)"
  define b1 where "b1 = (if o' = RetryFast then kInitialBackoff else backoff)"
  define t1 where "t1 = sleep_slices running d1 b1 t"
  define b2 where "b2 = (if o' = RetryFast then b1 else min (b1 * 2) kMaxBackoff)"
  show ?case
  proof (cases "running now \<and> o' \<noteq> GiveUp \<and> running t \<and> \<not> (o' \<noteq> RetryFast \<and> t \<ge> d1) \<and> t1 < d1")
    case False
    then have "es = [] \<or> es = [(now, o', t)]"
      using Cons.prems(4) ro run
      by (auto simp: Let_def d1_def b1_def t1_def split: if_splits prod.splits)
    with Cons.prems(3) show ?thesis by auto
  next
    case True
    then obtain rest where rest: "retry_loop c as b2 d1 t1 cl1 = (rest, cl')" "es = (now, o', t) # rest"
      using Cons.prems(4) ro run
      by (auto simp: Let_def d1_def b1_def t1_def b2_def split: if_splits prod.splits)
    have "0 \<le> b1" using Cons.prems(2) by (simp add: b1_def kInitialBackoff_def)
    with sleep_slices_result [OF t1_def [symmetric]] True
    have t1: "t1 = t + b1 \<or> \<not> running t1" by auto
    have "0 \<le> b2" using \<open>0 \<le> b1\<close> by (simp add: b2_def kMaxBackoff_def)
    from Cons.IH [OF run(2) this _ rest(1)] True g
    have sched: "schedule (cl_give_up cl) b2 d1 rest" by simp
    show ?thesis
    proof (cases rest)
      case Nil
      with rest(2) Cons.prems(3) show ?thesis by simp
    next
      case (Cons e es')
      obtain s2 o2 t2 where e: "e = (s2, o2, t2)" using prod_cases3 by blast
      have "s2 = t1" using retry_loop_head [OF rest(1) [unfolded Cons]] e by simp
      moreover have "running t1" using retry_loop_stopped [OF run(2)] rest(1) Cons by fastforce
      ultimately show ?thesis
        using t1 True sched rest(2) Cons e Cons.prems(3) g
        by (auto simp: d1_def b1_def b2_def split: if_splits)
    qed
  qed
qed simp

text \<open>
  C23. The Slave retries on schedule: within one run every attempt starts before the give-up deadline,
  none follows a rejected pairing, each one starts exactly one delay after the end of the one before,
  and the delay is 1 s after a connection and doubles from 1 s to at most 10 s with every failure.
\<close>

theorem retry_schedule:
  assumes "one_stop running as" "0 < cl_give_up cl" "client_run c as now cl = (es, cl')"
  shows "schedule (cl_give_up cl) kInitialBackoff (now + cl_give_up cl) es"
  using retry_loop_schedule [OF assms(1) _ _ assms(3) [unfolded client_run_def]] assms(2)
  by (simp add: kInitialBackoff_def)

lemma sleep_slices_running:
  "0 \<le> remaining \<Longrightarrow> sleep_slices (\<lambda>_. True) deadline remaining now = min (now + remaining) (max now deadline)"
proof (induction "\<lambda>_ :: int. True" deadline remaining now rule: sleep_slices.induct)
  case (1 deadline remaining now)
  show ?case
  proof (cases "remaining > 0 \<and> now < deadline")
    case True
    let ?step = "min remaining (min kBackoffPollInterval (deadline - now))"
    have "sleep_slices (\<lambda>_. True) deadline (remaining - ?step) (now + ?step) =
        min (now + ?step + (remaining - ?step)) (max (now + ?step) deadline)"
      by (rule "1.hyps" [OF _ _ refl]) (use True in auto)
    with True show ?thesis by (subst sleep_slices.simps) (auto simp: Let_def kBackoffPollInterval_def)
  next
    case False
    with "1.prems" show ?thesis by (subst sleep_slices.simps) auto
  qed
qed

text \<open>A run with an unreachable Master: three attempts, 1 s and 2 s apart.\<close>

definition demo_client :: client where
  "demo_client =
     \<lparr>cl_device_id = 7, cl_static = keypair_of toy_crypto (replicate 32 1),
      cl_known = \<lparr>kp_peers = [(1, replicate 32 2)], kp_file = [], kp_writable = True\<rparr>,
      cl_peer_ip = bytes_of ''10.0.0.1'', cl_give_up = 10000, cl_status = no_connection, cl_clipboard = None,
      cl_inject = inject_init\<rparr>"

definition demo_attempt :: "bool \<Rightarrow> bytes \<Rightarrow> loop_input list \<Rightarrow> attempt" where
  "demo_attempt reachable bs is =
     \<lparr>at_socket_ok = True,
      at_connect = \<lparr>co_immediate = False, co_in_progress = True, co_writable = reachable, co_error = 0\<rparr>,
      at_connect_ms = (if reachable then 1 else 3000), at_sock = demo_sock [Arrive bs],
      at_ephemeral = keypair_of toy_crypto (replicate 32 3), at_monitors = [], at_inputs = is,
      at_running = (\<lambda>_. True)\<rparr>"

theorem retry_schedule_witness:
  "fst (client_run toy_crypto (replicate 3 (demo_attempt False [] [])) 0 demo_client) =
     [(0, RetryBackoff, 3000), (4000, RetryBackoff, 7000), (9000, RetryBackoff, 12000)] \<and>
   schedule 10000 kInitialBackoff 10000 (fst (client_run toy_crypto (replicate 3 (demo_attempt False [] [])) 0 demo_client))"
proof -
  let ?as = "replicate 3 (demo_attempt False [] [])"
  have once: "run_once toy_crypto (demo_attempt False [] []) now cl =
      (RetryBackoff, failed (cl\<lparr>cl_status := connection_at Connecting 0 (cl_peer_ip cl) []\<rparr>), now + 3000)" for now cl
    by (simp add: run_once_def demo_attempt_def connect_with_timeout_def)
  have running: "at_running (demo_attempt False [] []) = (\<lambda>_. True)" by (simp add: demo_attempt_def)
  have "fst (client_run toy_crypto ?as 0 demo_client) =
      [(0, RetryBackoff, 3000), (4000, RetryBackoff, 7000), (9000, RetryBackoff, 12000)]"
    by (simp add: client_run_def numeral_3_eq_3 once running demo_client_def kInitialBackoff_def kMaxBackoff_def
        sleep_slices_running failed_def)
  moreover have "one_stop (\<lambda>_. True) ?as" by (simp add: one_stop_def running numeral_3_eq_3)
  moreover obtain es cl' where r: "client_run toy_crypto ?as 0 demo_client = (es, cl')" by fastforce
  ultimately show ?thesis
    using retry_schedule [of "\<lambda>_. True" ?as demo_client toy_crypto 0 es cl'] by (simp add: demo_client_def)
qed

section \<open>A trusted Master that follows the protocol is reached\<close>

lemma client_handshake_trusted:
  assumes "arrived (sk_events s) = encode_device_id peer @ [0] @ msg2 @ later"
    and "length msg2 = kMsg2Size" "sk_sends s = []" "get_pubkey peer (cl_known cl) = Some rs"
    and "ik_initiator_start c (cl_static cl) rs (at_ephemeral a) = Some (msg1, st)"
    and "ik_initiator_finish c (cl_static cl) rs (at_ephemeral a) st msg2 = Some ik"
  shows "\<exists>s'. client_handshake c a cl s = (Inr (peer, ik), cl, s') \<and> arrived (sk_events s') = later \<and>
    sk_sends s' = [] \<and> sk_clock s' = sk_clock s \<and>
    sk_out s' = sk_out s @ encode_device_id (cl_device_id cl) @ [0] @ msg1"
proof -
  have "arrived (sk_events s) = encode_device_id peer @ ([0] @ msg2 @ later)" using assms(1) by simp
  from exchange_arrived [OF this length_encode_device_id assms(3), of "encode_device_id (cl_device_id cl)"]
  obtain s1 where s1: "exchange (encode_device_id (cl_device_id cl)) 8 s = (Some (encode_device_id peer), s1)"
    "arrived (sk_events s1) = [0] @ msg2 @ later" "sk_sends s1 = []" "sk_clock s1 = sk_clock s"
    "sk_out s1 = sk_out s @ encode_device_id (cl_device_id cl)" by auto
  from exchange_arrived [OF s1(2) _ s1(3), of 1 "[0]"]
  obtain s2 where s2: "exchange [0] 1 s1 = (Some [0], s2)" "arrived (sk_events s2) = msg2 @ later" "sk_sends s2 = []"
    "sk_clock s2 = sk_clock s1" "sk_out s2 = sk_out s1 @ [0]" by auto
  have "sk_clock s2 < sk_clock s2 + kHandshakeTimeout" by (simp add: kHandshakeTimeout_def)
  from initiator_arrived [OF assms(5) s2(2) assms(2) s2(3) this assms(6)] obtain s3 where
    s3: "run_ik_initiator c (cl_static cl) rs (at_ephemeral a) (sk_clock s2 + kHandshakeTimeout) s2 = (Some ik, s3)"
      "arrived (sk_events s3) = later" "sk_sends s3 = []" "sk_clock s3 = sk_clock s2" "sk_out s3 = sk_out s2 @ msg1"
    by auto
  have d: "decode_device_id (encode_device_id peer) = peer" using decode_encode_device_id [of peer "[]"] by simp
  have "wants_pairing (Some rs) = 0" "\<not> need_pairing (Some rs) 0"
    by (simp_all add: wants_pairing_def need_pairing_def)
  then have "client_handshake c a cl s = client_authenticate c a peer rs cl s2"
    unfolding client_handshake_def using s1(1) s2(1) d assms(4) by (simp add: Let_def)
  also have "\<dots> = (Inr (peer, ik), cl, s3)" using s3(1) by (simp add: client_authenticate_def)
  finally show ?thesis using s1 s2 s3 by auto
qed

section \<open>Being told to go away\<close>

lemma retry_loop_starts:
  assumes "at_running a now"
  shows "\<exists>o' t es cl'. retry_loop c (a # as) b d now cl = ((now, o', t) # es, cl')"
proof -
  have ne: "fst (retry_loop c (a # as) b d now cl) \<noteq> []"
    using assms by (simp add: Let_def split: prod.split)
  obtain es cl' where r: "retry_loop c (a # as) b d now cl = (es, cl')" by fastforce
  with ne obtain e es' where es: "es = e # es'" by (cases es) auto
  with r retry_loop_head [of c "a # as" b d now cl e es' cl'] show ?thesis by (cases e) auto
qed

text \<open>
  \<^verbatim>\<open>GoAway\<close> does not stop the retries: after a session in which the Master said so, the same run
  starts a new attempt to the same Master one second later.
\<close>

theorem goaway_does_not_stop_retrying:
  assumes "run_once c a now cl = (RetryFast, cl1, t)" "ci_go_away (cl_status cl1)"
    and "one_stop (\<lambda>_. True) (a # a2 # as)" "kInitialBackoff < cl_give_up cl"
  shows "\<exists>o2 t2 es cl'. client_run c (a # a2 # as) now cl = ((now, RetryFast, t) # (t + kInitialBackoff, o2, t2) # es, cl')"
proof -
  have run: "at_running a = (\<lambda>_. True)" "at_running a2 = (\<lambda>_. True)" using assms(3) by (simp_all add: one_stop_def)
  have g: "cl_give_up cl1 = cl_give_up cl" by (rule run_once_give_up [OF assms(1)])
  have t1: "sleep_slices (\<lambda>_. True) (t + cl_give_up cl) kInitialBackoff t = t + kInitialBackoff"
    using assms(4) by (simp add: sleep_slices_running kInitialBackoff_def)
  obtain o2 t2 es cl' where r: "retry_loop c (a2 # as) kInitialBackoff (t + cl_give_up cl) (t + kInitialBackoff) cl1 =
      ((t + kInitialBackoff, o2, t2) # es, cl')"
    using retry_loop_starts [of a2] run(2) by metis
  have "client_run c (a # a2 # as) now cl = ((now, RetryFast, t) # (t + kInitialBackoff, o2, t2) # es, cl')"
    unfolding client_run_def by (subst retry_loop.simps) (use assms(1,4) run(1) g t1 r in \<open>simp add: Let_def\<close>)
  then show ?thesis by blast
qed

lemma demo_goaway:
  obtains bs cl1 t where "run_once toy_crypto (demo_attempt True bs [demo_input]) 0 demo_client = (RetryFast, cl1, t)"
    "ci_go_away (cl_status cl1)"
proof -
  let ?k = "\<lambda>n. keypair_of toy_crypto (replicate 32 n)"
  have len: "length (public_key (?k n)) = 32" for n by (simp add: keypair_of_def toy_crypto_def)
  have dhs: "dh toy_crypto a b = Some (map2 (XOR) a b)" for a b by (simp add: dh_def toy_crypto_def)
  obtain msg1 st msg2 k1 k2 where m: "ik_initiator_start toy_crypto (?k 1) (public_key (?k 2)) (?k 3) = Some (msg1, st)"
    "length msg2 = kMsg2Size" "ik_initiator_finish toy_crypto (?k 1) (public_key (?k 2)) (?k 3) st msg2 =
       Some \<lparr>ik_keys = \<lparr>send_key = k1, recv_key = k2\<rparr>, ik_peer_static = public_key (?k 2)\<rparr>"
    by (rule ik_honest_run [OF toy_crypto_ok, of "?k 1" _ "?k 2" _ "?k 3" _ "?k 4"]) (auto simp: len dhs)
  have pub: "public_key (?k 2) = replicate 32 2" by (simp add: keypair_of_def toy_crypto_def)
  let ?ik = "\<lparr>ik_keys = \<lparr>send_key = k1, recv_key = k2\<rparr>, ik_peer_static = public_key (?k 2)\<rparr>"
  let ?bye = "frame toy_crypto k2 0 (kMsgGoAway, [])"
  let ?a = "demo_attempt True (encode_device_id 1 @ [0] @ msg2 @ ?bye) [demo_input]"
  let ?cl = "demo_client\<lparr>cl_status := connection_at Connecting 0 (cl_peer_ip demo_client) []\<rparr>"
  let ?s = "(at_sock ?a)\<lparr>sk_clock := 1, sk_timeout := 200\<rparr>"
  have "arrived (sk_events ?s) = encode_device_id 1 @ [0] @ msg2 @ ?bye" "sk_sends ?s = []"
    by (simp_all add: demo_attempt_def demo_sock_def)
  moreover have "get_pubkey 1 (cl_known ?cl) = Some (public_key (?k 2))"
    by (simp add: demo_client_def get_pubkey_def pub)
  ultimately obtain s1 where h: "client_handshake toy_crypto ?a ?cl ?s = (Inr (1, ?ik), ?cl, s1)" "arrived (sk_events s1) = ?bye"
    using client_handshake_trusted [of ?s 1 msg2 ?bye ?cl "public_key (?k 2)" toy_crypto ?a msg1 st ?ik] m
    by (auto simp: demo_client_def demo_attempt_def)
  let ?s0 = "client_session_start toy_crypto ?a 1 ?ik ?cl s1"
  let ?ct = "aead_encrypt toy_crypto k2 0 [] [kMsgGoAway]"
  have ct: "length ?ct = 17" by (simp add: length_ct [OF toy_crypto_ok])
  have ch: "arrived (sk_events (ch_sock (se_channel ?s0))) = write_be32 (of_nat (length ?ct)) @ ?ct @ []"
    "recv_key (ch_keys (se_channel ?s0)) = k2" "ch_recv_nonce (se_channel ?s0) = 0"
    using h(2) by (simp_all add: client_session_start_def session_start_def session.extend_def channel_new_def Let_def frame_def)
  have "length ?ct < 2 ^ 32" "?ct \<noteq> []" "length ?ct \<le> unat kMaxFrameLen" using ct by (auto simp: kMaxFrameLen_def)
  from channel_receive_arrived [OF ch(1) this(1,2), of toy_crypto "se_clock ?s0 + 200"] this(3) obtain s2 where
    rcv: "channel_receive toy_crypto (se_clock ?s0 + 200) (se_channel ?s0) =
      (ROk kMsgGoAway [], (se_channel ?s0)\<lparr>ch_sock := s2, ch_recv_nonce := 1\<rparr>)"
    unfolding ch(2,3) by (auto simp: aead_roundtrip [OF toy_crypto_ok])
  have "\<exists>s3. client_iteration toy_crypto 10000 demo_input ?s0 = (True, s3) \<and> ci_go_away (se_info s3)"
    using rcv
    by (simp add: client_iteration_def ui_actions_def demo_input_def session_receive_def client_handle_def Let_def msg_types)
  then obtain s3 where "client_loop toy_crypto (cl_give_up ?cl) (at_inputs ?a) ?s0 = (Running, [], s3)"
    "ci_go_away (se_info s3)"
    by (auto simp: client_loop_def demo_attempt_def demo_client_def demo_input_def)
  with h(1) show thesis
    by (intro that [of "encode_device_id 1 @ [0] @ msg2 @ ?bye"])
      (auto simp: run_once_def demo_attempt_def connect_with_timeout_def failed_def Let_def)
qed

theorem goaway_does_not_stop_retrying_witness:
  "\<exists>bs t cl1. run_once toy_crypto (demo_attempt True bs [demo_input]) 0 demo_client = (RetryFast, cl1, t) \<and>
     ci_go_away (cl_status cl1) \<and>
     take 2 (map fst (fst (client_run toy_crypto [demo_attempt True bs [demo_input], demo_attempt False [] []] 0 demo_client))) =
       [0, t + 1000]"
proof -
  obtain bs cl1 t where g: "run_once toy_crypto (demo_attempt True bs [demo_input]) 0 demo_client = (RetryFast, cl1, t)"
    "ci_go_away (cl_status cl1)" by (rule demo_goaway)
  have "one_stop (\<lambda>_. True) [demo_attempt True bs [demo_input], demo_attempt False [] []]"
    by (simp add: one_stop_def demo_attempt_def)
  moreover have "kInitialBackoff < cl_give_up demo_client" by (simp add: kInitialBackoff_def demo_client_def)
  ultimately obtain o2 t2 es cl' where
    "client_run toy_crypto [demo_attempt True bs [demo_input], demo_attempt False [] []] 0 demo_client =
      ((0, RetryFast, t) # (t + kInitialBackoff, o2, t2) # es, cl')"
    using goaway_does_not_stop_retrying [OF g] by blast
  then have "take 2 (map fst (fst (client_run toy_crypto
      [demo_attempt True bs [demo_input], demo_attempt False [] []] 0 demo_client))) = [0, t + 1000]"
    by (simp add: kInitialBackoff_def)
  with g show ?thesis by blast
qed

end
