(* ===== verification/Handoff.thy ===== *)
theory Handoff
  imports InputPump TcpClient
begin

text \<open>
  Master and Slave together: the messages the Master's input pump sends, applied by the Slave's
  dispatcher to its virtual keyboard. The theorems say which keys the Slave still holds down when
  control has gone back to the Master.
\<close>

section \<open>The Slave's side of a message sequence\<close>

definition slave_sees :: "(byte \<times> bytes) list \<Rightarrow> inject \<Rightarrow> inject" where
  "slave_sees msgs st = fold (\<lambda>(ty, payload). dispatch_input_message ty payload) msgs st"

lemma slave_sees_append [simp]: "slave_sees (xs @ ys) st = slave_sees ys (slave_sees xs st)"
  by (simp add: slave_sees_def)

lemma slave_sees_simps [simp]:
  "slave_sees [] st = st" "slave_sees ((ty, p) # ms) st = slave_sees ms (dispatch_input_message ty p st)"
  by (simp_all add: slave_sees_def)

definition same_keyboard :: "inject \<Rightarrow> inject \<Rightarrow> bool" where
  "same_keyboard st st' \<longleftrightarrow> in_available st' = in_available st \<and> in_keyboard st' = in_keyboard st \<and>
     in_modifiers st' = in_modifiers st \<and> in_keys st' = in_keys st"

lemma pointer_keeps_keyboard:
  "same_keyboard st (emit_pointer evs (ensure_mouse_dev st))" "same_keyboard st (ensure_mouse_dev st)"
  by (simp_all add: same_keyboard_def emit_pointer_def ensure_mouse_dev_def)

lemma same_keyboard_pointer [simp]:
  "same_keyboard st (inject_mouse_absolute x y st)" "same_keyboard st (inject_mouse_button b d st)"
  "same_keyboard st (inject_mouse_wheel w st)" "same_keyboard st st"
  using pointer_keeps_keyboard [of st]
  by (simp_all add: inject_mouse_absolute_def inject_mouse_button_def inject_mouse_wheel_def Let_def
      same_keyboard_def split: option.split)

lemma dispatch_pointer:
  assumes "ty = kMsgMouseAbsolute \<or> ty = kMsgMouseButton \<or> ty = kMsgMouseWheel"
  shows "same_keyboard st (dispatch_input_message ty p st)"
  using assms
  by (elim disjE)
    (simp_all add: dispatch_input_message_def input_msg_types split: option.split prod.split)

lemma same_keyboard_held: "same_keyboard st st' \<Longrightarrow> held_keys st' = held_keys st \<and> (shadow_ok st' \<longleftrightarrow> shadow_ok st)"
  by (simp add: same_keyboard_def held_keys_def shadow_ok_def)

lemma slave_sees_pointer:
  assumes "list_all (\<lambda>m. fst m = kMsgMouseAbsolute \<or> fst m = kMsgMouseButton \<or> fst m = kMsgMouseWheel) ms"
  shows "held_keys (slave_sees ms st) = held_keys st \<and> (shadow_ok (slave_sees ms st) \<longleftrightarrow> shadow_ok st)"
  using assms
proof (induction ms arbitrary: st)
  case (Cons m ms)
  obtain ty p where m: "m = (ty, p)" by fastforce
  with Cons.prems have "ty = kMsgMouseAbsolute \<or> ty = kMsgMouseButton \<or> ty = kMsgMouseWheel" by simp
  from same_keyboard_held [OF dispatch_pointer [OF this]] Cons m show ?case by simp
qed simp

lemma dispatch_key [simp]:
  "dispatch_input_message kMsgKey (encode_key k) st = inject_key (vk k) (scancode k) (down k) (extended k) st"
  using key.dec_enc [of k] by (simp add: dispatch_input_message_def input_msg_types)

lemma dispatch_modifiers [simp]:
  "dispatch_input_message kMsgModifierSync (encode_modifier_sync m) st = set_modifiers m st"
  using modifier_sync.dec_enc [of m] by (simp add: dispatch_input_message_def input_msg_types)

section \<open>Keys with one meaning\<close>

definition code_of :: "key_event \<Rightarrow> nat option" where
  "code_of k = key_code (scancode k) (extended k)"

text \<open>The key events of a run: no right-hand modifiers, and no two keys with the same virtual code.\<close>

definition plain_keys :: "key_event set \<Rightarrow> bool" where
  "plain_keys K \<longleftrightarrow>
     (\<forall>k \<in> K. code_of k \<notin> {Some KEY_RIGHTSHIFT, Some KEY_RIGHTCTRL, Some KEY_RIGHTALT, Some KEY_RIGHTMETA}) \<and>
     (\<forall>k \<in> K. \<forall>k' \<in> K. vk k = vk k' \<longrightarrow> code_of k = code_of k')"

definition held_codes :: "held_key list \<Rightarrow> nat set" where
  "held_codes held = {code. \<exists>h \<in> set held. code_of (key_up h) = Some code}"

definition held_from :: "key_event set \<Rightarrow> held_key list \<Rightarrow> bool" where
  "held_from K held \<longleftrightarrow> (\<forall>h \<in> set held. \<exists>k \<in> K. vk k = held_vk h \<and> code_of k = code_of (key_up h))"

abbreviation modifier_keys :: "nat set" where
  "modifier_keys \<equiv> fst ` set kModifiers"

lemma held_keys_inject:
  assumes "shadow_ok st" "code_of k \<notin> {Some KEY_RIGHTSHIFT, Some KEY_RIGHTCTRL, Some KEY_RIGHTALT, Some KEY_RIGHTMETA}"
  shows "shadow_ok (inject_key (vk k) (scancode k) d (extended k) st) \<and>
    held_keys (inject_key (vk k) (scancode k) d (extended k) st) =
      (case code_of k of None \<Rightarrow> held_keys st
       | Some code \<Rightarrow> if d then insert code (held_keys st) else held_keys st - {code})"
proof
  have "\<not> right_modifier (IKey (vk k) (scancode k) d (extended k))" using assms(2) by (simp add: code_of_def)
  from shadow_ok_key [OF assms(1) this] show "shadow_ok (inject_key (vk k) (scancode k) d (extended k) st)" .
  have "in_keyboard (ensure_keyboard_dev st)" using assms(1) by (simp add: shadow_ok_def)
  then show "held_keys (inject_key (vk k) (scancode k) d (extended k) st) =
      (case code_of k of None \<Rightarrow> held_keys st
       | Some code \<Rightarrow> if d then insert code (held_keys st) else held_keys st - {code})"
    by (auto simp: inject_key_def code_of_def Let_def EV_KEY_def split: option.split)
qed

lemma set_replace_first:
  "set (replace_first P y xs) \<subseteq> insert y (set xs)" "y \<in> set (replace_first P y xs)"
  "x \<in> set xs \<Longrightarrow> \<not> P x \<Longrightarrow> x \<in> set (replace_first P y xs)"
  by (induction xs) auto

lemma set_erase_first:
  "set (erase_first P xs) \<subseteq> set xs" "x \<in> set xs \<Longrightarrow> \<not> P x \<Longrightarrow> x \<in> set (erase_first P xs)"
  by (induction xs) auto

lemma track_key_codes:
  assumes "plain_keys K" "k \<in> K" "held_from K held"
  shows "held_from K (track_key k held)"
    "down k \<Longrightarrow> held_codes held \<subseteq> held_codes (track_key k held) \<and> (\<forall>code. code_of k = Some code \<longrightarrow> code \<in> held_codes (track_key k held))"
    "\<not> down k \<Longrightarrow> code_of k = Some code \<Longrightarrow> held_codes held - {code} \<subseteq> held_codes (track_key k held)"
    "\<not> down k \<Longrightarrow> code_of k = None \<Longrightarrow> held_codes held \<subseteq> held_codes (track_key k held)"
proof -
  let ?h = "\<lparr>held_vk = vk k, held_scancode = scancode k, held_extended = extended k\<rparr>"
  let ?P = "\<lambda>h. held_vk h = vk k"
  have h: "code_of (key_up ?h) = code_of k" by (simp add: code_of_def key_up_def)
  have same: "code_of (key_up h) = code_of k" if "h \<in> set held" "held_vk h = vk k" for h
    using assms that unfolding held_from_def plain_keys_def by metis
  show "held_from K (track_key k held)"
    using assms(2,3) h set_replace_first(1) [of ?P ?h held] set_erase_first(1) [of ?P held]
    by (fastforce simp: held_from_def track_key_def)
  show "held_codes held \<subseteq> held_codes (track_key k held) \<and> (\<forall>code. code_of k = Some code \<longrightarrow> code \<in> held_codes (track_key k held))"
    if "down k"
  proof
    show "held_codes held \<subseteq> held_codes (track_key k held)"
    proof
      fix code assume "code \<in> held_codes held"
      then obtain x where x: "x \<in> set held" "code_of (key_up x) = Some code" by (auto simp: held_codes_def)
      show "code \<in> held_codes (track_key k held)"
        using that x same [of x] h set_replace_first(2) [of ?h ?P held] set_replace_first(3) [of x held ?P ?h]
        by (cases "?P x") (auto simp: held_codes_def track_key_def)
    qed
    show "\<forall>code. code_of k = Some code \<longrightarrow> code \<in> held_codes (track_key k held)"
      using that h set_replace_first(2) [of ?h ?P held] by (auto simp: held_codes_def track_key_def)
  qed
  have up: "x \<in> set (track_key k held)" if "\<not> down k" "x \<in> set held" "code_of (key_up x) \<noteq> code_of k" for x
    using that same [of x] set_erase_first(2) [of x held ?P] by (auto simp: track_key_def)
  show "held_codes held - {code} \<subseteq> held_codes (track_key k held)" if "\<not> down k" "code_of k = Some code"
    using up that by (fastforce simp: held_codes_def)
  show "held_codes held \<subseteq> held_codes (track_key k held)" if "\<not> down k" "code_of k = None"
    using up that by (fastforce simp: held_codes_def)
qed

section \<open>Forwarding and releasing\<close>

text \<open>The Slave holds at most what the Master remembers, and left-hand modifiers.\<close>

definition covered :: "held_key list \<Rightarrow> inject \<Rightarrow> bool" where
  "covered held st \<longleftrightarrow> shadow_ok st \<and> held_keys st \<subseteq> held_codes held \<union> modifier_keys"

lemma covered_keys:
  assumes "plain_keys K" "set ks \<subseteq> K" "held_from K held" "covered held st"
  shows "covered (fold track_key ks held) (slave_sees (map (\<lambda>k. (kMsgKey, encode_key k)) ks) st) \<and>
    held_from K (fold track_key ks held)"
  using assms(2-4)
proof (induction ks arbitrary: held st)
  case (Cons k ks)
  have k: "k \<in> K" using Cons.prems(1) by simp
  let ?st = "inject_key (vk k) (scancode k) (down k) (extended k) st"
  have "code_of k \<notin> {Some KEY_RIGHTSHIFT, Some KEY_RIGHTCTRL, Some KEY_RIGHTALT, Some KEY_RIGHTMETA}"
    using assms(1) k unfolding plain_keys_def by blast
  moreover have "shadow_ok st" using Cons.prems(3) by (simp add: covered_def)
  ultimately have inj: "shadow_ok ?st \<and> held_keys ?st = (case code_of k of None \<Rightarrow> held_keys st
       | Some code \<Rightarrow> if down k then insert code (held_keys st) else held_keys st - {code})"
    by (intro held_keys_inject)
  have st: "shadow_ok ?st" "held_keys ?st = (case code_of k of None \<Rightarrow> held_keys st
       | Some code \<Rightarrow> if down k then insert code (held_keys st) else held_keys st - {code})"
    by (rule conjunct1 [OF inj], rule conjunct2 [OF inj])
  note t = track_key_codes [OF assms(1) k Cons.prems(2)]
  have "held_keys ?st \<subseteq> held_codes (track_key k held) \<union> modifier_keys"
  proof (cases "code_of k")
    case None
    have "held_codes held \<subseteq> held_codes (track_key k held)" using t(2) t(4) [OF _ None] by (cases "down k") simp_all
    with None Cons.prems(3) show ?thesis unfolding st(2) covered_def by auto
  next
    case (Some code)
    show ?thesis
    proof (cases "down k")
      case True
      with t(2) [OF True] Some Cons.prems(3) show ?thesis unfolding st(2) covered_def by auto
    next
      case False
      with t(3) [OF False Some] Some Cons.prems(3) show ?thesis unfolding st(2) covered_def by auto
    qed
  qed
  with st(1) have "covered (track_key k held) ?st" by (simp add: covered_def)
  from Cons.IH [OF _ t(1) this] Cons.prems(1) show ?case by simp
qed simp

lemma slave_sees_forwarded:
  assumes "plain_keys K" "set (fr_keys fr) \<subseteq> K" "held_from K held" "covered held st"
  shows "covered (fold track_key (fr_keys fr) held) (slave_sees (forwarded x y fr) st)"
proof -
  let ?ptr = "(kMsgMouseAbsolute, encode_mouse_absolute (x, y)) #
     map (\<lambda>b. (kMsgMouseButton, encode_mouse_button (mb_button b, mb_down b))) (fr_buttons fr) @
     map (\<lambda>d. (kMsgMouseWheel, encode_mouse_wheel d)) (fr_wheel fr)"
  have "held_keys (slave_sees ?ptr st) = held_keys st \<and> (shadow_ok (slave_sees ?ptr st) \<longleftrightarrow> shadow_ok st)"
    by (rule slave_sees_pointer) (auto simp: list_all_iff)
  then have "covered held (slave_sees ?ptr st)" using assms(4) by (simp add: covered_def)
  from covered_keys [OF assms(1-3) this]
  have "covered (fold track_key (fr_keys fr) held)
      (slave_sees (?ptr @ map (\<lambda>k. (kMsgKey, encode_key k)) (fr_keys fr)) st)"
    unfolding slave_sees_append by simp
  then show ?thesis by (simp add: forwarded_def)
qed

lemma slave_sees_release:
  assumes "plain_keys K" "held_from K held" "covered held st"
  shows "held_keys (slave_sees (release_messages held) st) = {} \<and> shadow_ok (slave_sees (release_messages held) st)"
proof -
  have up: "shadow_ok (slave_sees (map (\<lambda>k. (kMsgKey, encode_key (key_up k))) hs) st') \<and>
      held_keys (slave_sees (map (\<lambda>k. (kMsgKey, encode_key (key_up k))) hs) st') \<subseteq> held_keys st' - held_codes hs"
    if "held_from K hs" "shadow_ok st'" for hs st'
    using that
  proof (induction hs arbitrary: st')
    case (Cons h hs)
    let ?k = "key_up h"
    let ?st = "inject_key (vk ?k) (scancode ?k) (down ?k) (extended ?k) st'"
    have "code_of ?k \<notin> {Some KEY_RIGHTSHIFT, Some KEY_RIGHTCTRL, Some KEY_RIGHTALT, Some KEY_RIGHTMETA}"
      using Cons.prems(1) assms(1) unfolding held_from_def plain_keys_def by (metis list.set_intros(1))
    from held_keys_inject [OF Cons.prems(2) this, of False] have
      st: "shadow_ok ?st" "held_keys ?st = (case code_of ?k of None \<Rightarrow> held_keys st' | Some code \<Rightarrow> held_keys st' - {code})"
      by (auto simp: key_up_def split: option.split)
    have "held_from K hs" using Cons.prems(1) by (simp add: held_from_def)
    from Cons.IH [OF this st(1)] st(2) show ?case
      by (auto simp: held_codes_def split: option.splits)
  qed (simp add: held_codes_def)
  let ?st = "slave_sees (map (\<lambda>k. (kMsgKey, encode_key (key_up k))) held) st"
  have st: "shadow_ok ?st" "held_keys ?st \<subseteq> modifier_keys"
    using up [OF assms(2), of st] assms(3) by (auto simp: covered_def)
  from set_modifiers_sets [OF st(1), of 0] have
    s0: "shadow_ok (set_modifiers 0 ?st)" "code \<in> modifier_keys \<Longrightarrow> code \<notin> held_keys (set_modifiers 0 ?st)"
      "code \<notin> modifier_keys \<Longrightarrow> code \<in> held_keys (set_modifiers 0 ?st) \<longleftrightarrow> code \<in> held_keys ?st" for code
    by auto
  have "held_keys (set_modifiers 0 ?st) = {}" using s0(2,3) st(2) by blast
  with s0(1) show ?thesis by (simp add: release_messages_def)
qed

section \<open>Every handoff back releases everything\<close>

lemma held_from_track:
  "plain_keys K \<Longrightarrow> set ks \<subseteq> K \<Longrightarrow> held_from K held \<Longrightarrow> held_from K (fold track_key ks held)"
proof (induction ks arbitrary: held)
  case (Cons k ks)
  then have "held_from K (track_key k held)" by (intro track_key_codes(1)) auto
  with Cons show ?case by simp
qed simp

definition events_keys :: "os_event list \<Rightarrow> key_event set" where
  "events_keys es = set (concat (map physical_key es))"

lemma os_run_pending:
  "set (fr_keys (hk_pending (snd (os_run es h)))) \<subseteq> set (fr_keys (hk_pending h)) \<union> events_keys es"
proof (induction es arbitrary: h)
  case (Cons e es)
  obtain b h1 where s: "os_step e h = (b, h1)" by fastforce
  obtain p h2 where r: "os_run es h1 = (p, h2)" by fastforce
  have "set (fr_keys (hk_pending h1)) \<subseteq> set (fr_keys (hk_pending h)) \<union> set (physical_key e)"
  proof (cases "hk_installed h")
    case True
    from os_step_keys [OF this, of e] s show ?thesis by simp
  next
    case False
    with s have "h1 = h" by (cases e) (auto simp: mouse_proc_def keyboard_proc_def feed_raw_delta_def)
    then show ?thesis by simp
  qed
  with Cons.IH [of h1] s r show ?case by (fastforce simp: events_keys_def Let_def)
qed simp

text \<open>The Slave's keyboard is clean while the Master owns the input, and covered otherwise.\<close>

definition slave_keyboard :: "input_state \<Rightarrow> inject" where
  "slave_keyboard s = slave_sees (is_sent s) inject_init"

definition handoff_ok :: "key_event set \<Rightarrow> input_state \<Rightarrow> bool" where
  "handoff_ok K s \<longleftrightarrow> held_from K (is_held s) \<and> set (fr_keys (hk_pending (is_hook s))) \<subseteq> K \<and>
     (if is_owned s then shadow_ok (slave_keyboard s) \<and> held_keys (slave_keyboard s) = {}
      else covered (is_held s) (slave_keyboard s))"

lemma handoff_ok_back:
  assumes "plain_keys K" "held_from K (is_held s)" "set (fr_keys (hk_pending (is_hook s))) \<subseteq> K"
    and "covered (is_held s) (slave_keyboard s)"
  shows "handoff_ok K (hand_back x y s)"
  using slave_sees_release [OF assms(1,2,4)] assms(2,3)
  by (simp add: handoff_ok_def hand_back_eq slave_keyboard_def hook_resume_at_def)

lemma handoff_ok_master:
  assumes "handoff_ok K s" "is_owned s"
  shows "handoff_ok K (handle_master_owned env info fr s)"
proof (cases rule: handle_master_cases [of env info fr s])
  case stay
  with assms show ?thesis by (simp add: handoff_ok_def slave_keyboard_def)
next
  case (cross x y)
  let ?st = "slave_keyboard s"
  let ?st1 = "dispatch_input_message kMsgMouseAbsolute (encode_mouse_absolute (x, y)) ?st"
  have st: "shadow_ok ?st" "held_keys ?st = {}" using assms by (simp_all add: handoff_ok_def)
  have "shadow_ok ?st1" "held_keys ?st1 = {}"
    using same_keyboard_held [OF dispatch_pointer [of kMsgMouseAbsolute ?st "encode_mouse_absolute (x, y)"]] st
    by simp_all
  with set_modifiers_sets [of ?st1 "env_modifiers env"]
  have "shadow_ok (set_modifiers (env_modifiers env) ?st1)"
    "code \<notin> modifier_keys \<Longrightarrow> code \<notin> held_keys (set_modifiers (env_modifiers env) ?st1)" for code by simp_all
  then have "covered (is_held s) (set_modifiers (env_modifiers env) ?st1)" unfolding covered_def by blast
  with cross assms(1) show ?thesis
    by (simp add: handoff_ok_def slave_keyboard_def hook_suppress_def)
qed

lemma handoff_ok_slave:
  assumes "plain_keys K" "handoff_ok K s" "\<not> is_owned s" "set (fr_keys fr) \<subseteq> K"
  shows "handoff_ok K (handle_slave_owned env info fr (s\<lparr>is_held := fold track_key (fr_keys fr) (is_held s)\<rparr>))"
proof (rule handle_slave_rule)
  fix px py x y bx bl
  let ?held = "fold track_key (fr_keys fr) (is_held s)"
  let ?s = "s\<lparr>is_held := ?held\<rparr>"
  let ?t = "?s\<lparr>is_handed_off := False, is_sent := is_sent ?s @ forwarded px py fr, is_x := x, is_y := y\<rparr>"
  have s: "held_from K (is_held s)" "covered (is_held s) (slave_keyboard s)" "set (fr_keys (hk_pending (is_hook s))) \<subseteq> K"
    using assms(2,3) by (simp_all add: handoff_ok_def)
  have held: "held_from K ?held" by (rule held_from_track [OF assms(1,4) s(1)])
  have cov: "covered ?held (slave_keyboard ?t)"
    using slave_sees_forwarded [OF assms(1,4) s(1,2), of px py] by (simp add: slave_keyboard_def)
  then show "handoff_ok K ?t" using held s(3) assms(3) by (simp add: handoff_ok_def)
  show "handoff_ok K (hand_back bx bl ?t)"
    by (rule handoff_ok_back [OF assms(1)]) (use held s(3) cov in simp_all)
qed

lemma handoff_ok_pump:
  assumes "plain_keys K" "input_ok s" "handoff_ok K s" "\<not> is_disconnect (pump_connected env info s)"
  shows "handoff_ok K (pump_connected env info s)"
proof -
  let ?s = "activate env s"
  have s: "handoff_ok K ?s"
    using assms(2,3)
    by (auto simp: activate_def handoff_ok_def hook_install_def slave_keyboard_def input_ok_def split: prod.split)
  obtain fr hk where p: "hook_poll (is_hook ?s) = (fr, hk)" by fastforce
  obtain sx sy where sp: "safe_point (env_monitors env) = (sx, sy)" by fastforce
  have fr: "set (fr_keys fr) \<subseteq> K" "fr_keys (hk_pending hk) = []"
    using s p by (auto simp: handoff_ok_def hook_poll_def empty_frame_def)
  let ?s1 = "?s\<lparr>is_hook := hk, is_held := fold track_key (fr_keys fr) (is_held ?s)\<rparr>"
  let ?s2 = "?s\<lparr>is_hook := hk\<rparr>"
  have s2: "handoff_ok K ?s2" using s fr(2) by (simp add: handoff_ok_def slave_keyboard_def split: if_splits)
  consider "\<not> is_owned ?s \<and> ci_monitors info = []"
    | "\<not> (\<not> is_owned ?s \<and> ci_monitors info = []) \<and> escape_combo_held (is_held ?s1) \<and> \<not> is_owned ?s1"
    | "is_owned ?s1"
    | "\<not> is_owned ?s \<and> ci_monitors info \<noteq> [] \<and> \<not> escape_combo_held (is_held ?s1)" by auto
  then show ?thesis
  proof cases
    case 1
    then have "pump_connected env info s = hand_back sx sy ?s" using sp by (simp add: pump_connected_def Let_def)
    moreover have "handoff_ok K (hand_back sx sy ?s)"
      by (rule handoff_ok_back [OF assms(1)]) (use s 1 in \<open>simp_all add: handoff_ok_def\<close>)
    ultimately show ?thesis by simp
  next
    case 2
    then have "pump_connected env info s = (hand_back sx sy ?s1)\<lparr>is_disconnect := True\<rparr>"
      using p sp by (auto simp: pump_connected_def Let_def)
    with assms(4) show ?thesis by simp
  next
    case 3
    then have r: "pump_connected env info s = handle_master_owned env info fr ?s1"
      using p sp by (simp add: pump_connected_def Let_def)
    have "handoff_ok K ?s1"
      using s2 3 held_from_track [OF assms(1) fr(1), of "is_held ?s"]
      by (simp add: handoff_ok_def slave_keyboard_def)
    then show ?thesis unfolding r using 3 by (intro handoff_ok_master)
  next
    case 4
    then have r: "pump_connected env info s = handle_slave_owned env info fr ?s1"
      using p sp by (simp add: pump_connected_def Let_def)
    show ?thesis unfolding r using handoff_ok_slave [OF assms(1) s2 _ fr(1)] 4 by simp
  qed
qed

lemma disconnect_sticky: "is_disconnect s \<Longrightarrow> is_disconnect (pump_connected env info s)"
proof -
  assume d: "is_disconnect s"
  have m: "is_disconnect (handle_master_owned env info fr t) = is_disconnect t" for fr t
    unfolding handle_master_owned_def Let_def
    by (auto simp: release_held_keys_locally_def send_modifier_sync_mask_def split: option.split)
  have sl: "is_disconnect (handle_slave_owned env info fr t) = is_disconnect t" for fr t
    by (rule handle_slave_rule) (simp_all add: hand_back_eq)
  have a: "is_disconnect (activate env s)" using d by (simp add: activate_def split: prod.split)
  show "is_disconnect (pump_connected env info s)"
    using a by (auto simp: pump_connected_def Let_def m sl hand_back_eq split: prod.split)
qed

definition connected_frame :: "os_event list \<times> input_env \<Rightarrow> bool" where
  "connected_frame f \<longleftrightarrow> env_role (snd f) = Master \<and>
     (\<exists>info. env_server (snd f) = Some info \<and> ci_state info = Connected)"

lemma handoff_ok_run:
  assumes "plain_keys K" "input_ok s" "handoff_ok K s" "list_all connected_frame fs"
    and "\<forall>f \<in> set fs. events_keys (fst f) \<subseteq> K" "\<not> is_disconnect (fold input_frame_step fs s)"
  shows "handoff_ok K (fold input_frame_step fs s)"
  using assms(2-6)
proof (induction fs arbitrary: s)
  case (Cons f fs)
  obtain es env where f: "f = (es, env)" by fastforce
  obtain info where info: "env_role env = Master" "env_server env = Some info" "ci_state info = Connected"
    using Cons.prems(3) f by (auto simp: connected_frame_def)
  let ?s = "s\<lparr>is_hook := snd (os_run es (is_hook s))\<rparr>"
  have step: "input_frame_step f s = pump_connected env info ?s"
    using info by (simp add: f input_frame_step_def pump_input_def)
  have s: "input_ok ?s" "handoff_ok K ?s"
    using Cons.prems(1,2,4) os_run_pending [of es "is_hook s"] f
    by (auto simp: input_ok_def handoff_ok_def slave_keyboard_def)
  have mono: "is_disconnect (fold input_frame_step gs t)"
    if "is_disconnect t" "list_all connected_frame gs" for gs t
    using that
  proof (induction gs arbitrary: t)
    case (Cons g gs)
    obtain es' env' where g: "g = (es', env')" by fastforce
    then obtain info' where "input_frame_step g t = pump_connected env' info' (t\<lparr>is_hook := snd (os_run es' (is_hook t))\<rparr>)"
      using Cons.prems(2) by (auto simp: connected_frame_def input_frame_step_def pump_input_def)
    then have "is_disconnect (input_frame_step g t)" using Cons.prems(1) by (simp add: disconnect_sticky)
    with Cons show ?case by simp
  qed simp
  have nd: "\<not> is_disconnect (input_frame_step f s)" using mono [of "input_frame_step f s" fs] Cons.prems(3,5) by auto
  have "handoff_ok K (input_frame_step f s)"
    using handoff_ok_pump [OF assms(1) s] nd unfolding step by simp
  moreover have "input_ok (input_frame_step f s)" using input_ok_connected [OF s(1)] unfolding step by simp
  ultimately show ?case using Cons by simp
qed simp

lemma handoff_ok_init: "handoff_ok K input_init"
  using shadow_ok_init
  by (simp add: handoff_ok_def input_init_def slave_keyboard_def held_from_def hook_new_def empty_frame_def)
     (simp add: held_keys_def inject_init_def)



end
