(* ===== verification/InputFaults.thy ===== *)
theory InputFaults
  imports Handoff
begin

text \<open>
  Where input goes wrong. Neither the Master's \<open>deactivate_hook\<close> (\<^verbatim>\<open>src/app/input_pump.cpp\<close>) nor the end
  of the client's \<open>run_once\<close> (\<^verbatim>\<open>src/discovery/tcp_client.cpp\<close>) releases the keys that are down on the
  Slave when the connection is lost, and later handoffs release only what the Master remembers; what
  the hook (\<^verbatim>\<open>src/input/hook.cpp\<close>) has recorded and nobody has polled is kept across connections; a hook
  that the system does not grant is not asked for again.
\<close>

section \<open>Messages that leave a key alone\<close>

definition spares :: "nat \<Rightarrow> byte \<times> bytes \<Rightarrow> bool" where
  "spares code m \<longleftrightarrow> (\<forall>st. code \<in> held_keys st \<longrightarrow> code \<in> held_keys (dispatch_input_message (fst m) (snd m) st))"

lemma slave_sees_spares:
  "list_all (spares code) ms \<Longrightarrow> code \<in> held_keys st \<Longrightarrow> code \<in> held_keys (slave_sees ms st)"
proof (induction ms arbitrary: st)
  case (Cons m ms)
  then show ?case by (cases m) (auto simp: spares_def)
qed simp

lemma spares_pointer:
  "ty = kMsgMouseAbsolute \<or> ty = kMsgMouseButton \<or> ty = kMsgMouseWheel \<Longrightarrow> spares code (ty, p)"
  using same_keyboard_held [OF dispatch_pointer] by (simp add: spares_def)

lemma spares_key:
  assumes "code_of k \<noteq> Some code"
  shows "spares code (kMsgKey, encode_key k)"
proof -
  have "code \<in> held_keys (inject_key (vk k) (scancode k) (down k) (extended k) st)" if "code \<in> held_keys st" for st
    using assms that
    by (auto simp: inject_key_def code_of_def Let_def emit_key_def held_keys_def EV_KEY_def sync_report_def EV_SYN_def
        ensure_keyboard_dev_def split: option.split)
  then show ?thesis by (simp add: spares_def)
qed

lemma spares_modifiers: "code \<notin> modifier_keys \<Longrightarrow> spares code (kMsgModifierSync, encode_modifier_sync m)"
  using set_modifiers_keeps_other by (simp add: spares_def)

section \<open>A key nobody releases\<close>

text \<open>The key is down on the Slave, and nothing the Master remembers or has yet to forward is that key.\<close>

definition stuck :: "nat \<Rightarrow> input_state \<Rightarrow> bool" where
  "stuck code s \<longleftrightarrow> code \<in> held_keys (slave_keyboard s) \<and>
     (\<forall>h \<in> set (is_held s). code_of (key_up h) \<noteq> Some code) \<and>
     (\<forall>k \<in> set (fr_keys (hk_pending (is_hook s))). code_of k \<noteq> Some code)"

lemma spares_release:
  "code \<notin> modifier_keys \<Longrightarrow> \<forall>h \<in> set hs. code_of (key_up h) \<noteq> Some code \<Longrightarrow> list_all (spares code) (release_messages hs)"
  by (auto simp: release_messages_def list_all_iff intro: spares_key spares_modifiers)

lemma spares_forwarded:
  "\<forall>k \<in> set (fr_keys fr). code_of k \<noteq> Some code \<Longrightarrow> list_all (spares code) (forwarded x y fr)"
  by (auto simp: forwarded_def list_all_iff intro: spares_key spares_pointer)

lemma track_keys_other:
  "\<forall>h \<in> set held. code_of (key_up h) \<noteq> Some code \<Longrightarrow> \<forall>k \<in> set ks. code_of k \<noteq> Some code \<Longrightarrow>
    \<forall>h \<in> set (fold track_key ks held). code_of (key_up h) \<noteq> Some code"
proof (induction ks arbitrary: held)
  case (Cons k ks)
  let ?h = "\<lparr>held_vk = vk k, held_scancode = scancode k, held_extended = extended k\<rparr>"
  have "code_of (key_up ?h) = code_of k" by (simp add: code_of_def key_up_def)
  then have "\<forall>h \<in> set (track_key k held). code_of (key_up h) \<noteq> Some code"
    using Cons.prems set_replace_first(1) [of "\<lambda>h. held_vk h = vk k" ?h held] set_erase_first(1) [of "\<lambda>h. held_vk h = vk k" held]
    by (auto simp: track_key_def)
  with Cons show ?case by simp
qed simp

lemma stuck_hand_back: "code \<notin> modifier_keys \<Longrightarrow> stuck code s \<Longrightarrow> stuck code (hand_back x y s)"
  by (auto simp: stuck_def hand_back_eq slave_keyboard_def hook_resume_at_def intro: slave_sees_spares spares_release)

lemma stuck_master:
  assumes "code \<notin> modifier_keys" "stuck code s"
  shows "stuck code (handle_master_owned env info fr s)"
proof (cases rule: handle_master_cases [of env info fr s])
  case stay
  with assms show ?thesis by (simp add: stuck_def slave_keyboard_def)
next
  case (cross x y)
  have "list_all (spares code)
      [(kMsgMouseAbsolute, encode_mouse_absolute (x, y)), (kMsgModifierSync, encode_modifier_sync (env_modifiers env))]"
    using assms(1) by (simp add: spares_pointer spares_modifiers)
  from slave_sees_spares [OF this] cross assms(2) show ?thesis by (simp add: stuck_def slave_keyboard_def hook_suppress_def)
qed

lemma stuck_slave:
  assumes "code \<notin> modifier_keys" "stuck code s" "\<forall>k \<in> set (fr_keys fr). code_of k \<noteq> Some code"
  shows "stuck code (handle_slave_owned env info fr s)"
proof (rule handle_slave_rule)
  fix px py x y bx bl
  let ?t = "s\<lparr>is_handed_off := False, is_sent := is_sent s @ forwarded px py fr, is_x := x, is_y := y\<rparr>"
  show t: "stuck code ?t"
    using assms(2) slave_sees_spares [OF spares_forwarded [OF assms(3)]] by (simp add: stuck_def slave_keyboard_def)
  show "stuck code (hand_back bx bl ?t)" by (rule stuck_hand_back [OF assms(1) t])
qed

lemma stuck_connected:
  assumes "code \<notin> modifier_keys" "stuck code s"
  shows "stuck code (pump_connected env info s)"
proof -
  let ?s = "activate env s"
  have s: "stuck code ?s"
    using assms(2) by (auto simp: activate_def stuck_def hook_install_def slave_keyboard_def split: prod.split)
  obtain fr hk where p: "hook_poll (is_hook ?s) = (fr, hk)" by fastforce
  obtain sx sy where sp: "safe_point (env_monitors env) = (sx, sy)" by fastforce
  let ?s1 = "?s\<lparr>is_hook := hk, is_held := fold track_key (fr_keys fr) (is_held ?s)\<rparr>"
  have fr: "\<forall>k \<in> set (fr_keys fr). code_of k \<noteq> Some code" "fr_keys (hk_pending hk) = []"
    using s p by (auto simp: stuck_def hook_poll_def empty_frame_def)
  have s1: "stuck code ?s1"
    using s fr track_keys_other [of "is_held ?s" code "fr_keys fr"] by (simp add: stuck_def slave_keyboard_def)
  have esc: "stuck code ((hand_back sx sy ?s1)\<lparr>is_disconnect := True\<rparr>)"
    using stuck_hand_back [OF assms(1) s1, of sx sy] by (simp add: stuck_def slave_keyboard_def)
  show ?thesis
    using p sp esc stuck_hand_back [OF assms(1) s, of sx sy] stuck_master [OF assms(1) s1] stuck_slave [OF assms(1) s1 fr(1)]
    by (simp add: pump_connected_def Let_def)
qed

lemma stuck_deactivate: "stuck code s \<Longrightarrow> stuck code (deactivate_hook s)"
  by (auto simp: stuck_def deactivate_hook_def slave_keyboard_def hook_defs empty_frame_def)

lemma stuck_frame:
  assumes "code \<notin> modifier_keys" "stuck code s" "\<forall>k \<in> events_keys es. code_of k \<noteq> Some code"
  shows "stuck code (input_frame_step (es, env) s)"
proof -
  let ?s = "s\<lparr>is_hook := snd (os_run es (is_hook s))\<rparr>"
  have "stuck code ?s" using assms(2,3) os_run_pending [of es "is_hook s"] by (auto simp: stuck_def slave_keyboard_def)
  then show ?thesis
    using stuck_connected [OF assms(1)] stuck_deactivate [of code ?s]
    by (auto simp: input_frame_step_def pump_input_def split: option.split)
qed

lemma stuck_run:
  "code \<notin> modifier_keys \<Longrightarrow> stuck code s \<Longrightarrow> \<forall>f \<in> set fs. \<forall>k \<in> events_keys (fst f). code_of k \<noteq> Some code \<Longrightarrow>
    stuck code (fold input_frame_step fs s)"
  by (induction fs arbitrary: s) (auto simp: stuck_frame)

definition lost_frame :: "os_event list \<times> input_env \<Rightarrow> bool" where
  "lost_frame f \<longleftrightarrow> env_role (snd f) = Master \<and>
     (case env_server (snd f) of None \<Rightarrow> True | Some info \<Rightarrow> ci_state info \<noteq> Connected)"

lemma lost_frame_step:
  assumes "is_active s" "lost_frame (es, env)"
  shows "input_frame_step (es, env) s = deactivate_hook (s\<lparr>is_hook := snd (os_run es (is_hook s))\<rparr>)"
  using assms by (auto simp: lost_frame_def input_frame_step_def pump_input_def split: option.splits)

lemma lost_frame_stuck:
  assumes "is_active s" "lost_frame f" "code \<in> held_keys (slave_keyboard s)"
    and "\<forall>k \<in> set (fr_keys (hk_pending (is_hook s))) \<union> events_keys (fst f). code_of k \<noteq> Some code"
  shows "stuck code (input_frame_step f s)"
proof -
  obtain es env where f: "f = (es, env)" by fastforce
  show ?thesis
    using assms(3,4) lost_frame_step [OF assms(1) assms(2) [unfolded f]] os_run_pending [of es "is_hook s"]
    by (auto simp: f stuck_def deactivate_hook_def slave_keyboard_def hook_defs)
qed

text \<open>An attempt that does not get as far as a session leaves the keyboard alone.\<close>

lemma pair_keeps_keyboard: "client_pair c peer cl s = (r, cl', s') \<Longrightarrow> cl_inject cl' = cl_inject cl"
  by (auto simp: client_pair_def Let_def split: prod.splits option.splits if_splits)

lemma authenticate_keeps_keyboard: "client_authenticate c a peer k cl s = (r, cl', s') \<Longrightarrow> cl_inject cl' = cl_inject cl"
  by (auto simp: client_authenticate_def Let_def split: prod.splits option.splits if_splits)

lemma handshake_keeps_keyboard: "client_handshake c a cl s = (r, cl', s') \<Longrightarrow> cl_inject cl' = cl_inject cl"
  by (auto simp: client_handshake_def Let_def split: prod.splits option.splits if_splits sum.splits
      dest!: pair_keeps_keyboard authenticate_keeps_keyboard)

lemma attempt_keeps_keyboard:
  "run_once c a now cl = (outcome, cl', t) \<Longrightarrow> outcome \<noteq> RetryFast \<Longrightarrow> cl_inject cl' = cl_inject cl"
  by (auto simp: run_once_def failed_def Let_def split: prod.splits if_splits sum.splits dest: handshake_keeps_keyboard)


definition demo_lost :: input_env where
  "demo_lost = demo_env\<lparr>env_server := Some no_connection\<rparr>"


section \<open>Old events, and a hook that was not granted\<close>

text \<open>
  Events outlive their connection: a key press recorded after the last poll of one connection is taken
  for a new one in the first frame of the next, however long ago it was and although the key has been
  released in between: the Master remembers a key that nobody holds.
\<close>

theorem old_key_remembered:
  assumes "is_active s" "lost_frame ([], env)" "fr_keys (hk_pending (is_hook s)) = [k]" "down k"
    and "connected_frame ([], env')" "env_server env' = Some info" "ci_monitors info \<noteq> []"
  shows "is_held (input_frame_step ([], env') (input_frame_step ([], env) s)) =
    [\<lparr>held_vk = vk k, held_scancode = scancode k, held_extended = extended k\<rparr>]"
proof -
  let ?s = "activate env' (deactivate_hook s)"
  let ?h = "\<lparr>held_vk = vk k, held_scancode = scancode k, held_extended = extended k\<rparr>"
  have s: "is_owned ?s" "is_held ?s = []" "fr_keys (hk_pending (is_hook ?s)) = [k]"
    using assms(3) by (simp_all add: activate_def deactivate_hook_def hook_defs split: prod.split)
  have "input_frame_step ([], env') (input_frame_step ([], env) s) = pump_connected env' info (deactivate_hook s)"
    using lost_frame_step [OF assms(1,2)] assms(5,6) by (simp add: connected_frame_def input_frame_step_def pump_input_def)
  also have "is_held \<dots> = [?h]"
  proof -
    have "is_held (handle_master_owned env' info fr t) = is_held t" for fr t
      by (cases rule: handle_master_cases [of env' info fr t]) simp_all
    then show ?thesis
      using s assms(4) by (simp add: pump_connected_def Let_def hook_poll_def track_key_def split: prod.split)
  qed
  finally show ?thesis .
qed

text \<open>
  A failed hook is never tried again: when the system refuses the hooks in the first frame of a
  connection, the pump takes them for installed, and no later frame of the connection asks again, even
  if they would be granted; input is not captured until the connection is lost.
\<close>

theorem refused_hook_not_retried:
  assumes "is_active s" "\<not> hk_installed (is_hook s)" "list_all connected_frame fs"
  shows "is_active (fold input_frame_step fs s) \<and> \<not> hk_installed (is_hook (fold input_frame_step fs s))"
  using assms
proof (induction fs arbitrary: s)
  case (Cons f fs)
  obtain es env where f: "f = (es, env)" by fastforce
  obtain info where info: "env_role env = Master" "env_server env = Some info" "ci_state info = Connected"
    using Cons.prems(3) f by (auto simp: connected_frame_def)
  let ?s = "s\<lparr>is_hook := snd (os_run es (is_hook s))\<rparr>"
  have m: "is_active (handle_master_owned env info fr t) = is_active t \<and>
      hk_installed (is_hook (handle_master_owned env info fr t)) = hk_installed (is_hook t)" for fr t
    by (cases rule: handle_master_cases [of env info fr t]) (simp_all add: hook_suppress_def)
  have sl: "is_active (handle_slave_owned env info fr t) = is_active t \<and>
      hk_installed (is_hook (handle_slave_owned env info fr t)) = hk_installed (is_hook t)" for fr t
    by (rule handle_slave_rule) (simp_all add: hand_back_eq hook_resume_at_def)
  have "is_active (pump_connected env info ?s) \<and> \<not> hk_installed (is_hook (pump_connected env info ?s))"
    using Cons.prems(1,2) m sl
    by (auto simp: pump_connected_def activate_def Let_def hand_back_eq hook_resume_at_def hook_poll_def split: prod.split)
  then have "is_active (input_frame_step f s)" "\<not> hk_installed (is_hook (input_frame_step f s))"
    using info by (simp_all add: f input_frame_step_def pump_input_def)
  with Cons show ?case by simp
qed simp

end
