(* ===== verification/Lifecycle.thy ===== *)
theory Lifecycle
  imports Prelude
begin

text \<open>
  Starting and stopping the objects that own a thread: \<open>Listener\<close>, \<open>Announcer\<close>, \<open>TcpClient\<close> and \<open>TcpServer\<close>
  (\<^verbatim>\<open>src/discovery/listener.cpp\<close>, \<^verbatim>\<open>announcer.cpp\<close>, \<^verbatim>\<open>tcp_client.cpp\<close>, \<^verbatim>\<open>tcp_server.cpp\<close>). C++ ends the whole
  program when a \<^verbatim>\<open>std::thread\<close> that was not joined is destroyed or assigned to: \<open>None\<close>.
\<close>

section \<open>Threads\<close>

text \<open>\<open>th_thread\<close>: \<open>None\<close> when there is nothing to join, otherwise whether the thread still runs its function.\<close>

record worker =
  th_running :: bool
  th_thread :: "bool option"

definition new_worker :: worker where
  "new_worker = \<lparr>th_running = False, th_thread = None\<rparr>"

abbreviation joinable :: "worker \<Rightarrow> bool" where
  "joinable w \<equiv> th_thread w \<noteq> None"

definition spawn :: "worker \<Rightarrow> worker option" where
  "spawn w = (if joinable w then None else Some (w\<lparr>th_thread := Some True\<rparr>))"

text \<open>\<open>start\<close> and \<open>stop\<close>, the same three times. \<open>join\<close> waits for the function, whose loop reads the flag.\<close>

definition start_worker :: "worker \<Rightarrow> worker option" where
  "start_worker w = (if th_running w then Some w else spawn (w\<lparr>th_running := True\<rparr>))"

definition stop_worker :: "worker \<Rightarrow> worker" where
  "stop_worker w =
     (if \<not> th_running w then w
      else let w1 = w\<lparr>th_running := False\<rparr> in if joinable w1 then w1\<lparr>th_thread := None\<rparr> else w1)"

definition destroy_worker :: "worker \<Rightarrow> unit option" where
  "destroy_worker w = (if joinable (stop_worker w) then None else Some ())"

section \<open>The server's sockets\<close>

text \<open>The sockets the system has given out and not yet got back, and the next one it will give.\<close>

record sockets =
  so_open :: "nat set"
  so_next :: nat
  so_misused :: bool

definition create_socket :: "bool \<Rightarrow> sockets \<Rightarrow> nat option \<times> sockets" where
  "create_socket granted s =
     (if granted then (Some (so_next s), s\<lparr>so_open := insert (so_next s) (so_open s), so_next := so_next s + 1\<rparr>) else (None, s))"

definition close_socket :: "nat \<Rightarrow> sockets \<Rightarrow> sockets" where
  "close_socket i s = (if i \<in> so_open s then s\<lparr>so_open := so_open s - {i}\<rparr> else s\<lparr>so_misused := True\<rparr>)"

text \<open>\<open>None\<close> is \<^verbatim>\<open>kInvalidSocket\<close>. Options and addresses of the sockets are left out; a call on an invalid
  socket fails and is ignored, as the code does.\<close>

record server_object =
  so_worker :: worker
  so_listen :: "nat option"
  so_audio :: "nat option"

definition new_server :: server_object where
  "new_server = \<lparr>so_worker = new_worker, so_listen = None, so_audio = None\<rparr>"

definition server_start :: "bool \<Rightarrow> bool \<Rightarrow> server_object \<times> sockets \<Rightarrow> (server_object \<times> sockets) option" where
  "server_start listen_granted audio_granted = (\<lambda>(v, s).
     if th_running (so_worker v) then Some (v, s)
     else
       let (l, s1) = create_socket listen_granted s; (u, s2) = create_socket audio_granted s1
       in map_option (\<lambda>w. (v\<lparr>so_worker := w, so_listen := l, so_audio := u\<rparr>, s2))
            (spawn ((so_worker v)\<lparr>th_running := True\<rparr>)))"

definition close_if_valid :: "nat option \<Rightarrow> sockets \<Rightarrow> sockets" where
  "close_if_valid i s = (case i of None \<Rightarrow> s | Some j \<Rightarrow> close_socket j s)"

definition server_stop :: "server_object \<times> sockets \<Rightarrow> server_object \<times> sockets" where
  "server_stop = (\<lambda>(v, s).
     if \<not> th_running (so_worker v) then (v, s)
     else (v\<lparr>so_worker := stop_worker (so_worker v), so_listen := None, so_audio := None\<rparr>,
           close_if_valid (so_audio v) (close_if_valid (so_listen v) s)))"

definition server_destroy :: "server_object \<times> sockets \<Rightarrow> sockets option" where
  "server_destroy vs = (let (v, s) = server_stop vs in if joinable (so_worker v) then None else Some s)"

section \<open>Any use is safe\<close>

text \<open>The thread may end by itself at any time: the client gives up, or a socket cannot be had.\<close>

datatype lifecycle_use = Start bool bool | Stop | Thread_ends

definition thread_ends :: "worker \<Rightarrow> worker" where
  "thread_ends w = w\<lparr>th_thread := map_option (\<lambda>_. False) (th_thread w)\<rparr>"

fun use_worker :: "lifecycle_use \<Rightarrow> worker \<Rightarrow> worker option" where
  "use_worker (Start _ _) w = start_worker w"
| "use_worker Stop w = Some (stop_worker w)"
| "use_worker Thread_ends w = Some (thread_ends w)"

fun use_server :: "lifecycle_use \<Rightarrow> server_object \<times> sockets \<Rightarrow> (server_object \<times> sockets) option" where
  "use_server (Start l u) vs = server_start l u vs"
| "use_server Stop vs = Some (server_stop vs)"
| "use_server Thread_ends (v, s) = Some (v\<lparr>so_worker := thread_ends (so_worker v)\<rparr>, s)"

fun uses :: "('u \<Rightarrow> 's \<Rightarrow> 's option) \<Rightarrow> 'u list \<Rightarrow> 's \<Rightarrow> 's option" where
  "uses f [] s = Some s"
| "uses f (u # us) s = (case f u s of None \<Rightarrow> None | Some s1 \<Rightarrow> uses f us s1)"

definition worker_ok :: "worker \<Rightarrow> bool" where
  "worker_ok w \<longleftrightarrow> (joinable w \<longleftrightarrow> th_running w)"

definition owned_sockets :: "server_object \<Rightarrow> nat set" where
  "owned_sockets v = set_option (so_listen v) \<union> set_option (so_audio v)"

definition server_ok :: "server_object \<times> sockets \<Rightarrow> bool" where
  "server_ok = (\<lambda>(v, s). worker_ok (so_worker v) \<and> so_open s = owned_sockets v \<and> \<not> so_misused s \<and>
     (\<forall>i \<in> so_open s. i < so_next s) \<and> (so_listen v = so_audio v \<longrightarrow> so_listen v = None) \<and>
     (\<not> th_running (so_worker v) \<longrightarrow> owned_sockets v = {}))"

lemmas lifecycle_defs = start_worker_def stop_worker_def spawn_def worker_ok_def thread_ends_def Let_def

text \<open>What an owner of threads and sockets promises: every use of a sound object succeeds and leaves it sound, and
  a sound object can be destroyed.\<close>

locale managed_object =
  fixes make :: 's
    and use :: "'u \<Rightarrow> 's \<Rightarrow> 's option"
    and destroy :: "'s \<Rightarrow> 'r option"
    and sound :: "'s \<Rightarrow> bool"
  assumes make_sound: "sound make"
    and use_sound: "sound s \<Longrightarrow> \<exists>s'. use u s = Some s' \<and> sound s'"
    and destroy_sound: "sound s \<Longrightarrow> destroy s \<noteq> None"
begin

lemma uses_sound: "sound s \<Longrightarrow> \<exists>s'. uses use us s = Some s' \<and> sound s'"
proof (induction us arbitrary: s)
  case (Cons u us)
  obtain s1 where "use u s = Some s1" "sound s1" using use_sound Cons.prems by blast
  with Cons.IH [of s1] show ?case by simp
qed simp

lemma any_life: "\<exists>s. uses use us make = Some s \<and> sound s \<and> destroy s \<noteq> None"
  using uses_sound [OF make_sound] destroy_sound by blast

end

lemma use_worker_ok: "worker_ok w \<Longrightarrow> \<exists>w'. use_worker u w = Some w' \<and> worker_ok w'"
  by (cases u) (auto simp: lifecycle_defs)

lemma use_server_ok:
  assumes "server_ok vs"
  shows "\<exists>vs'. use_server u vs = Some vs' \<and> server_ok vs'"
proof -
  obtain v s where vs: "vs = (v, s)" by fastforce
  show ?thesis
  proof (cases u)
    case (Start l a)
    show ?thesis
    proof (cases "th_running (so_worker v)")
      case True
      then show ?thesis using assms by (simp add: vs Start server_start_def)
    next
      case False
      then have "so_open s = {}" "\<not> joinable (so_worker v)" "\<not> so_misused s"
        using assms by (auto simp: vs server_ok_def worker_ok_def)
      then show ?thesis
        using False by (auto simp: vs Start server_start_def create_socket_def spawn_def server_ok_def worker_ok_def owned_sockets_def Let_def)
    qed
  next
    case Stop
    show ?thesis
      using assms
      by (cases "so_listen v"; cases "so_audio v")
        (auto simp: vs Stop server_stop_def close_if_valid_def close_socket_def server_ok_def worker_ok_def
          owned_sockets_def stop_worker_def Let_def)
  next
    case Thread_ends
    then show ?thesis using assms by (auto simp: vs server_ok_def worker_ok_def thread_ends_def owned_sockets_def)
  qed
qed

definition no_sockets :: sockets where
  "no_sockets = \<lparr>so_open = {}, so_next = 0, so_misused = False\<rparr>"

lemma server_destroy_ok:
  assumes "server_ok vs"
  shows "\<exists>s'. server_destroy vs = Some s' \<and> so_open s' = {} \<and> \<not> so_misused s'"
proof -
  obtain v' s' where stop: "server_stop vs = (v', s')" by fastforce
  from use_server_ok [OF assms, of Stop] stop have ok: "server_ok (v', s')" by simp
  have "\<not> th_running (so_worker v')"
    using stop by (cases vs) (auto simp: server_stop_def stop_worker_def Let_def split: if_splits)
  then have "\<not> joinable (so_worker v')" "so_open s' = {}" "\<not> so_misused s'"
    using ok by (auto simp: server_ok_def worker_ok_def)
  then show ?thesis using stop by (simp add: server_destroy_def)
qed

interpretation listener: managed_object new_worker use_worker destroy_worker worker_ok
  by unfold_locales
    (auto simp: use_worker_ok, auto simp: new_worker_def destroy_worker_def lifecycle_defs)

interpretation server: managed_object "(new_server, no_sockets)" use_server server_destroy server_ok
proof unfold_locales
  show "server_ok (new_server, no_sockets)"
    by (simp add: server_ok_def new_server_def new_worker_def worker_ok_def owned_sockets_def no_sockets_def)
  show "server_ok vs \<Longrightarrow> \<exists>vs'. use_server u vs = Some vs' \<and> server_ok vs'" for vs u by (rule use_server_ok)
  show "server_ok vs \<Longrightarrow> server_destroy vs \<noteq> None" for vs using server_destroy_ok [of vs] by auto
qed

text \<open>
  C21. Threads and sockets are handled safely: however often and in whatever order \<open>start\<close> and \<open>stop\<close> are called,
  whether or not the thread has ended by itself and whether or not the system grants the sockets, no
  thread is ever overwritten or destroyed unjoined; the server holds at most its two sockets while it
  runs and none otherwise, and destroying it closes each exactly once.
\<close>

theorem lifecycle_safe:
  "(\<exists>w. uses use_worker us new_worker = Some w \<and> destroy_worker w \<noteq> None) \<and>
   (\<exists>v s. uses use_server us (new_server, no_sockets) = Some (v, s) \<and>
      so_open s = (if th_running (so_worker v) then owned_sockets v else {}) \<and>
      (\<exists>s'. server_destroy (v, s) = Some s' \<and> so_open s' = {} \<and> \<not> so_misused s'))"
proof -
  obtain v s where v: "uses use_server us (new_server, no_sockets) = Some (v, s)" "server_ok (v, s)"
    using server.any_life [of us] by auto
  then have "so_open s = (if th_running (so_worker v) then owned_sockets v else {})" by (auto simp: server_ok_def)
  with v(1) server_destroy_ok [OF v(2)] listener.any_life [of us] show ?thesis by blast
qed

end
