(* ===== verification/TcpServer.thy ===== *)
theory TcpServer
  imports Handshake
begin

text \<open>
  The Master's end of the connection, \<^verbatim>\<open>src/discovery/tcp_server.cpp\<close>: one accepted socket after the
  other is identified, paired or recognised, authenticated by the Noise handshake and then served until
  it ends. A kicked device needs a new approval before it is served again.
\<close>

section \<open>State\<close>

record server =
  sv_device_id :: u64
  sv_static :: keypair
  sv_known :: known_peers
  sv_audio_port :: u16
  sv_kicked :: "u64 set"
  sv_status :: connection_info
  sv_clipboard :: "clipboard_message option"

text \<open>
  One accepted connection: its socket and address, the ephemeral key of the handshake, \<^verbatim>\<open>running_\<close> over
  time, the clicks on the pairing buttons and what the other threads do during the session.
\<close>

record incoming_connection =
  cn_sock :: sock
  cn_ip :: bytes
  cn_ephemeral :: keypair
  cn_running :: "int \<Rightarrow> bool"
  cn_clicks :: "(int \<times> pairing_decision) list"
  cn_inputs :: "loop_input list"

section \<open>Before the session\<close>

definition await_approval :: "incoming_connection \<Rightarrow> sock \<Rightarrow> pairing_decision \<times> sock" where
  "await_approval conn s =
     (let since = sk_clock s;
          (decision, t) = await_decision (cn_running conn) (loaded_decision (cn_clicks conn) since)
                            (since + kPairingApprovalTimeout) since
      in (decision, sleep_until t s))"

text \<open>First-time pairing: the raw key exchange, the user's decision and the peer's notification.\<close>

definition server_pair :: "crypto \<Rightarrow> incoming_connection \<Rightarrow> u64 \<Rightarrow> server \<Rightarrow> sock \<Rightarrow> bytes option \<times> server \<times> sock" where
  "server_pair c conn peer sv s =
     (case exchange (public_key (sv_static sv)) 32 s of
        (None, s1) \<Rightarrow> (None, sv, s1)
      | (Some peer_raw, s1) \<Rightarrow>
          (let fingerprint = compute_fingerprint c peer_raw (public_key (sv_static sv));
               sv1 = sv\<lparr>sv_status := connection_at Pairing peer (cn_ip conn) fingerprint\<rparr>;
               (decision, s2) = await_approval conn s1;
               decision_byte = (if decision = Approved then kPairingApproved else kPairingRejected);
               s3 = snd (send_all [decision_byte] s2)
           in if decision \<noteq> Approved then (None, sv1\<lparr>sv_status := no_connection\<rparr>, s3)
              else (Some peer_raw, sv1\<lparr>sv_known := remember peer peer_raw (sv_known sv1)\<rparr>, s3)))"

text \<open>The gate for a device this Master disconnected on purpose.\<close>

definition server_reapprove :: "crypto \<Rightarrow> incoming_connection \<Rightarrow> u64 \<Rightarrow> bytes \<Rightarrow> server \<Rightarrow> channel \<Rightarrow> bool \<times> server \<times> channel" where
  "server_reapprove c conn peer trusted sv ch =
     (let fingerprint = compute_fingerprint c trusted (public_key (sv_static sv));
          sv1 = sv\<lparr>sv_status := connection_at Pairing peer (cn_ip conn) fingerprint\<rparr>;
          (decision, s1) = await_approval conn (ch_sock ch);
          ch1 = ch\<lparr>ch_sock := s1\<rparr>
      in if decision \<noteq> Approved
         then (False, sv1\<lparr>sv_status := no_connection\<rparr>, snd (channel_send c kMsgGoAway [] ch1))
         else (True, sv1\<lparr>sv_kicked := sv_kicked sv1 - {peer}\<rparr>, ch1))"

text \<open>After trust is settled: the Noise handshake must prove the trusted key.\<close>

definition server_authenticate ::
    "crypto \<Rightarrow> incoming_connection \<Rightarrow> u64 \<Rightarrow> bytes \<Rightarrow> server \<Rightarrow> sock \<Rightarrow> (u64 \<times> ik_result \<times> channel) option \<times> server" where
  "server_authenticate c conn peer trusted sv s =
     (case run_ik_responder c (sv_static sv) (cn_ephemeral conn) (sk_clock s + kHandshakeTimeout) s of
        (None, _) \<Rightarrow> (None, sv\<lparr>sv_status := no_connection\<rparr>)
      | (Some ik, s1) \<Rightarrow>
          if trusted \<noteq> ik_peer_static ik then (None, sv\<lparr>sv_status := no_connection\<rparr>)
          else
            (let ch = channel_new s1 (ik_keys ik) in
             if peer \<in> sv_kicked sv
             then (case server_reapprove c conn peer trusted sv ch of
                     (False, sv1, _) \<Rightarrow> (None, sv1)
                   | (True, sv1, ch1) \<Rightarrow> (Some (peer, ik, ch1), sv1))
             else (Some (peer, ik, ch), sv)))"

definition server_handshake ::
    "crypto \<Rightarrow> incoming_connection \<Rightarrow> server \<Rightarrow> (u64 \<times> ik_result \<times> channel) option \<times> server" where
  "server_handshake c conn sv =
     (case exchange (encode_device_id (sv_device_id sv)) 8 ((cn_sock conn)\<lparr>sk_timeout := 200\<rparr>) of
        (None, _) \<Rightarrow> (None, sv)
      | (Some peer_bytes, s1) \<Rightarrow>
          (let peer = decode_device_id peer_bytes;
               trusted = get_pubkey peer (sv_known sv)
           in case exchange [wants_pairing trusted] 1 s1 of
                (None, _) \<Rightarrow> (None, sv)
              | (Some flag, s2) \<Rightarrow>
                  (if need_pairing trusted (hd flag)
                   then (case server_pair c conn peer sv s2 of
                           (None, sv1, _) \<Rightarrow> (None, sv1)
                         | (Some peer_raw, sv1, s3) \<Rightarrow> server_authenticate c conn peer peer_raw sv1 s3)
                   else server_authenticate c conn peer (the trusted) sv s2)))"

section \<open>The session\<close>

definition server_handle :: "crypto \<Rightarrow> byte \<Rightarrow> bytes \<Rightarrow> session \<Rightarrow> session" where
  "server_handle c msg_type payload s =
     (if msg_type = kMsgMonitorList
      then (case decode_monitor_list payload of
              None \<Rightarrow> s
            | Some monitors \<Rightarrow> s\<lparr>se_info := (se_info s)\<lparr>ci_monitors := monitors\<rparr>\<rparr>)
      else if msg_type = kMsgAudioStatus
      then (case decode_audio_settings payload of
              None \<Rightarrow> s
            | Some (send_enabled, rate, depth) \<Rightarrow>
                s\<lparr>se_info := (se_info s)\<lparr>ci_audio_send_enabled := send_enabled, ci_audio_rate := rate,
                                         ci_audio_depth := depth\<rparr>\<rparr>)
      else if msg_type = kMsgPing then on_ping c payload s
      else if msg_type = kMsgPong then on_pong payload s
      else if msg_type = kMsgClipboardText \<or> msg_type = kMsgClipboardImage then on_clipboard msg_type payload s
      else s)"

text \<open>One iteration of the receive loop; \<open>False\<close> is a \<^verbatim>\<open>break\<close>.\<close>

definition server_iteration :: "crypto \<Rightarrow> loop_input \<Rightarrow> session \<Rightarrow> bool \<times> session" where
  "server_iteration c i s =
     (case session_receive c (ui_actions c i s) of
        (RClosed, s1) \<Rightarrow> (False, s1)
      | (r, s1) \<Rightarrow>
          (let s2 = (case r of ROk msg_type payload \<Rightarrow> server_handle c msg_type payload s1 | _ \<Rightarrow> s1)
           in if se_clock s2 - se_last_heard s2 \<ge> li_timeout i then (False, s2)
              else (True, keep_alive c s2)))"

definition server_goes_on :: "loop_input \<Rightarrow> bool" where
  "server_goes_on i \<longleftrightarrow> li_running i \<and> \<not> li_disconnect i"

definition server_loop :: "crypto \<Rightarrow> loop_input list \<Rightarrow> session \<Rightarrow> loop_end \<times> loop_input list \<times> session" where
  "server_loop c = run_loop (server_iteration c) server_goes_on"

text \<open>The session starts by telling the peer the audio port.\<close>

definition server_session :: "crypto \<Rightarrow> incoming_connection \<Rightarrow> u64 \<Rightarrow> ik_result \<Rightarrow> channel \<Rightarrow> server \<Rightarrow> session" where
  "server_session c conn peer ik ch sv =
     (let info = (connection_at Connected peer (cn_ip conn) [])\<lparr>ci_audio_key := recv_key (ik_keys ik)\<rparr>
      in session_send c kMsgAudioPort (encode_audio_port (sv_audio_port sv))
           (session_start ch info (sv_clipboard sv)))"

text \<open>
  From an accepted socket to its end; the inputs of the session end with the flag that stopped it, or
  are used up when the program stops. The last component is the final socket of a session, if there was one.
\<close>

definition serve_connection :: "crypto \<Rightarrow> incoming_connection \<Rightarrow> server \<Rightarrow> server \<times> sock option" where
  "serve_connection c conn sv =
     (case server_handshake c conn sv of
        (None, sv1) \<Rightarrow> (sv1, None)
      | (Some (peer, ik, ch), sv1) \<Rightarrow>
          (let (e, rest, s1) = server_loop c (cn_inputs conn) (server_session c conn peer ik ch sv1);
               disconnect = (case rest of [] \<Rightarrow> False | i # _ \<Rightarrow> li_disconnect i);
               s2 = (if disconnect then session_send c kMsgGoAway [] s1 else s1)
           in (sv1\<lparr>sv_kicked := (if disconnect then insert peer (sv_kicked sv1) else sv_kicked sv1),
                   sv_clipboard := se_clipboard s2, sv_status := no_connection\<rparr>,
               Some (ch_sock (se_channel s2)))))"

definition server_run :: "crypto \<Rightarrow> incoming_connection list \<Rightarrow> server \<Rightarrow> server" where
  "server_run c conns sv = fold (\<lambda>conn sv. fst (serve_connection c conn sv)) conns sv"

text \<open>\<^verbatim>\<open>send_input\<close>: only while a channel is active.\<close>

definition send_input :: "crypto \<Rightarrow> byte \<Rightarrow> bytes \<Rightarrow> channel option \<Rightarrow> bool \<times> channel option" where
  "send_input c msg_type payload active =
     (case active of
        None \<Rightarrow> (False, None)
      | Some ch \<Rightarrow> (let (ok, ch') = channel_send c msg_type payload ch in (ok, Some ch')))"

section \<open>The session meets the contract\<close>

lemma ok_server_handle: "session_ok s \<Longrightarrow> session_ok (server_handle c ty payload s)"
  by (auto simp: server_handle_def intro!: session_ok_info split: option.split)

lemma server_iteration_ok:
  assumes "session_ok s" "server_iteration c i s = (cont, s')"
  shows "session_ok s' \<and> (cont \<longrightarrow> session_fresh (li_timeout i) s')"
proof -
  obtain r s1 where r: "session_receive c (ui_actions c i s) = (r, s1)" by fastforce
  have ok1: "session_ok s1"
    using session_ok_receive [OF session_ok_same [OF ui_actions_receiver assms(1)] r] .
  let ?s2 = "case r of ROk ty payload \<Rightarrow> server_handle c ty payload s1 | _ \<Rightarrow> s1"
  have ok2: "session_ok ?s2" using ok1 by (auto simp: ok_server_handle split: recv_outcome.split)
  show ?thesis
  proof (cases "r = RClosed \<or> se_clock ?s2 - se_last_heard ?s2 \<ge> li_timeout i")
    case True
    then show ?thesis
      using assms(2) r ok1 ok2 by (cases r) (auto simp: server_iteration_def Let_def split: if_splits)
  next
    case False
    then have "cont" "s' = keep_alive c ?s2"
      using assms(2) r by (cases r; auto simp: server_iteration_def Let_def)+
    with keep_alive_fresh [OF ok2, of "li_timeout i" c] False show ?thesis by simp
  qed
qed

lemma server_iteration_silent:
  assumes "se_incoming s = []" "server_iteration c i s = (cont, s')"
  shows "if cont then se_incoming s' = [] \<and> se_last_heard s' = se_last_heard s \<and> se_clock s' = se_clock s + 200
    else se_clock s' \<le> se_clock s + 200"
proof -
  let ?s = "ui_actions c i s"
  have same: "same_receiver s ?s" by (rule ui_actions_receiver)
  obtain r ch where r: "channel_receive c (se_clock ?s + 200) (se_channel ?s) = (r, ch)" by fastforce
  have "se_incoming ?s = []" using assms(1) same by (simp add: same_receiver_def)
  from channel_receive_silent [OF this _ r] same have
    "r = RClosed \<and> sk_clock (ch_sock ch) \<le> se_clock s + 200 \<or>
     r = RTimeout \<and> sk_clock (ch_sock ch) = se_clock s + 200 \<and> incoming (ch_sock ch) = []"
    by (simp add: same_receiver_def)
  with assms(2) r same show ?thesis
    by (auto simp: server_iteration_def session_receive_def Let_def same_receiver_def split: if_splits)
qed

lemma server_iteration_error:
  assumes "channel_receive c (se_clock s + 200) (se_channel (ui_actions c i s)) = (RError, ch)" "0 < li_timeout i"
  shows "\<exists>s'. server_iteration c i s = (True, s') \<and> se_info s' = se_info s \<and>
    se_clipboard s' \<in> {se_clipboard s, None} \<and> se_last_heard s' = se_clock s' \<and>
    sk_events (ch_sock (se_channel s')) = sk_events (ch_sock ch) \<and>
    ch_keys (se_channel s') = ch_keys ch \<and> ch_recv_nonce (se_channel s') = ch_recv_nonce ch"
proof -
  have "se_clock (ui_actions c i s) = se_clock s" "se_info (ui_actions c i s) = se_info s"
    using ui_actions_receiver [of s c i] by (simp_all add: same_receiver_def)
  with assms ui_actions_clipboard [of c i s] show ?thesis
    by (simp add: server_iteration_def session_receive_def Let_def)
qed

interpretation server_side: session_loop c "server_iteration c" li_timeout for c
  by unfold_locales (fact server_iteration_ok server_iteration_silent server_iteration_error)+

section \<open>Who is served\<close>

definition approved_after :: "incoming_connection \<Rightarrow> int \<Rightarrow> bool" where
  "approved_after conn since \<longleftrightarrow> (\<exists>t. (t, Approved) \<in> set (cn_clicks conn) \<and> since < t)"

lemma approved_after_mono: "approved_after conn t \<Longrightarrow> t' \<le> t \<Longrightarrow> approved_after conn t'"
  by (force simp: approved_after_def)

lemma exchange_clock:
  assumes "exchange mine n s = (r, s')"
  shows "sk_clock s \<le> sk_clock s'"
proof -
  obtain ok s1 where a: "send_all mine s = (ok, s1)" by fastforce
  obtain st bs s2 where b: "read_loop n (sk_clock s + kHandshakeTimeout) s1 = (st, bs, s2)" using prod_cases3 by blast
  from send_all_prefix [OF a] read_loop_stream [OF b] a b assms show ?thesis
    by (auto simp: exchange_def recv_all_def Let_def split: bool.splits read_status.splits)
qed

lemma responder_clock:
  assumes "run_ik_responder c st e d s = (r, s')"
  shows "sk_clock s \<le> sk_clock s'"
proof -
  obtain a bs s1 where b: "read_loop kMsg1Size d s = (a, bs, s1)" using prod_cases3 by blast
  have "sk_clock s \<le> sk_clock s1" using read_loop_stream [OF b] by simp
  moreover have "send_all m s1 = (ok, s2) \<Longrightarrow> sk_clock s2 = sk_clock s1" for m ok s2
    using send_all_prefix by blast
  ultimately show ?thesis
    using assms b by (auto simp: run_ik_responder_def recv_all_def split: read_status.splits option.splits prod.splits bool.splits)
qed

lemma await_approval_click:
  assumes "await_approval conn s = (Approved, s')"
  shows "approved_after conn (sk_clock s)"
proof -
  obtain t where "await_decision (cn_running conn) (loaded_decision (cn_clicks conn) (sk_clock s))
      (sk_clock s + kPairingApprovalTimeout) (sk_clock s) = (Approved, t)"
    using assms by (auto simp: await_approval_def Let_def split: prod.splits)
  from await_decision_result [OF this] have "loaded_decision (cn_clicks conn) (sk_clock s) t = Approved" by simp
  from loaded_decision_click [OF this] show ?thesis by (auto simp: approved_after_def)
qed

lemma await_approval_clock: "await_approval conn s = (d, s') \<Longrightarrow> sk_clock s \<le> sk_clock s'"
  by (auto simp: await_approval_def sleep_until_def Let_def split: prod.splits)

lemma server_pair_trust:
  assumes "server_pair c conn peer sv s = (r, sv', s')"
  shows "sv_kicked sv' = sv_kicked sv \<and> sk_clock s \<le> sk_clock s' \<and>
    (case r of None \<Rightarrow> sv_known sv' = sv_known sv
     | Some key \<Rightarrow> sv_known sv' = remember peer key (sv_known sv) \<and> approved_after conn (sk_clock s))"
proof -
  obtain o1 s1 where x: "exchange (public_key (sv_static sv)) 32 s = (o1, s1)" by fastforce
  note t1 = exchange_clock [OF x]
  show ?thesis
  proof (cases o1)
    case None
    with assms x t1 show ?thesis by (auto simp: server_pair_def)
  next
    case (Some key)
    obtain d s2 where w: "await_approval conn s1 = (d, s2)" by fastforce
    obtain ok s3 where sd: "send_all [if d = Approved then kPairingApproved else kPairingRejected] s2 = (ok, s3)"
      by fastforce
    have "sk_clock s3 = sk_clock s2" using send_all_prefix [OF sd] by simp
    moreover have "d = Approved \<Longrightarrow> approved_after conn (sk_clock s)"
      using await_approval_click [of conn s1 s2] w t1 approved_after_mono by blast
    ultimately show ?thesis
      using assms x Some w sd t1 await_approval_clock [OF w]
      by (auto simp: server_pair_def Let_def split: if_splits)
  qed
qed

lemma server_authenticate_trust:
  assumes "server_authenticate c conn peer trusted sv s = (r, sv')"
  shows "sv_known sv' = sv_known sv \<and>
    (case r of None \<Rightarrow> sv_kicked sv' = sv_kicked sv
     | Some (p, ik, ch) \<Rightarrow> p = peer \<and> trusted = ik_peer_static ik \<and> ch_keys ch = ik_keys ik \<and>
         sv_kicked sv' = sv_kicked sv - {peer} \<and> (peer \<in> sv_kicked sv \<longrightarrow> approved_after conn (sk_clock s)))"
proof -
  obtain o1 s1 where ik: "run_ik_responder c (sv_static sv) (cn_ephemeral conn) (sk_clock s + kHandshakeTimeout) s = (o1, s1)"
    by fastforce
  have late: "await_approval conn s1 = (Approved, s2) \<Longrightarrow> approved_after conn (sk_clock s)" for s2
    using await_approval_click responder_clock [OF ik] approved_after_mono by blast
  obtain d s2 where d: "await_approval conn s1 = (d, s2)" by fastforce
  with assms ik late show ?thesis
    by (cases o1) (auto simp: server_authenticate_def server_reapprove_def channel_new_def Let_def split: if_splits)
qed

lemma server_handshake_trust:
  assumes "server_handshake c conn sv = (r, sv')" "omap_ok (kp_peers (sv_known sv))"
  shows "(case r of None \<Rightarrow> sv_kicked sv' = sv_kicked sv
     | Some (peer, ik, ch) \<Rightarrow>
         get_pubkey peer (sv_known sv') = Some (ik_peer_static ik) \<and> ch_keys ch = ik_keys ik \<and>
         (get_pubkey peer (sv_known sv) = Some (ik_peer_static ik) \<and> peer \<notin> sv_kicked sv \<or>
          approved_after conn (sk_clock (cn_sock conn))) \<and>
         (\<forall>other. other \<noteq> peer \<longrightarrow> get_pubkey other (sv_known sv') = get_pubkey other (sv_known sv)) \<and>
         sv_kicked sv' = sv_kicked sv - {peer}) \<and>
    (\<not> approved_after conn (sk_clock (cn_sock conn)) \<longrightarrow> sv_known sv' = sv_known sv)"
proof -
  let ?s = "(cn_sock conn)\<lparr>sk_timeout := 200\<rparr>"
  obtain o1 s1 where x1: "exchange (encode_device_id (sv_device_id sv)) 8 ?s = (o1, s1)" by fastforce
  show ?thesis
  proof (cases o1)
    case None
    with assms x1 show ?thesis by (auto simp: server_handshake_def)
  next
    case (Some pb)
    let ?peer = "decode_device_id pb"
    let ?trusted = "get_pubkey ?peer (sv_known sv)"
    obtain o2 s2 where x2: "exchange [wants_pairing ?trusted] 1 s1 = (o2, s2)" by fastforce
    have t2: "sk_clock (cn_sock conn) \<le> sk_clock s2" using exchange_clock [OF x1] exchange_clock [OF x2] by simp
    show ?thesis
    proof (cases o2)
      case None
      with assms x1 x2 Some show ?thesis by (auto simp: server_handshake_def Let_def)
    next
      case (Some flag)
      note unfolded = assms(1) [unfolded server_handshake_def Let_def x1 \<open>o1 = Some pb\<close> option.case prod.case x2 Some]
      show ?thesis
      proof (cases "need_pairing ?trusted (hd flag)")
        case False
        then have tr: "?trusted = Some (the ?trusted)" by (auto simp: need_pairing_def)
        from False unfolded have "server_authenticate c conn ?peer (the ?trusted) sv s2 = (r, sv')" by simp
        from server_authenticate_trust [OF this] tr approved_after_mono [OF _ t2] show ?thesis
          by (auto split: option.splits)
      next
        case True
        obtain o3 sv1 s3 where p: "server_pair c conn ?peer sv s2 = (o3, sv1, s3)" using prod_cases3 by blast
        note pt = server_pair_trust [OF p]
        show ?thesis
        proof (cases o3)
          case None
          with True unfolded p pt show ?thesis by auto
        next
          case (Some key)
          with True unfolded p have a: "server_authenticate c conn ?peer key sv1 s3 = (r, sv')" by simp
          have app: "approved_after conn (sk_clock (cn_sock conn))" using pt Some approved_after_mono [OF _ t2] by simp
          have "get_pubkey ?peer (sv_known sv1) = Some key"
            "other \<noteq> ?peer \<Longrightarrow> get_pubkey other (sv_known sv1) = get_pubkey other (sv_known sv)" for other
            using pt Some assms(2) by (simp_all add: get_pubkey_remember)
          with server_authenticate_trust [OF a] app pt Some show ?thesis by (auto split: option.splits)
        qed
      qed
    qed
  qed
qed

text \<open>
  C2. Only a trusted or newly approved device is ever served. When the handshake succeeds, the peer has
  proved the static key that is now stored for its device id, and either that key was stored before and
  the device was not kicked, or the user approved it after this connection was accepted. Every other
  entry of the trust store is untouched, a kicked device is pardoned only by being served, and without
  an approving click the trust store does not change at all.
\<close>

theorem server_admits_only_trusted:
  assumes "server_handshake c conn sv = (r, sv')" "omap_ok (kp_peers (sv_known sv))"
  shows "(case r of None \<Rightarrow> sv_kicked sv' = sv_kicked sv
     | Some (peer, ik, ch) \<Rightarrow>
         get_pubkey peer (sv_known sv') = Some (ik_peer_static ik) \<and> ch_keys ch = ik_keys ik \<and>
         (get_pubkey peer (sv_known sv) = Some (ik_peer_static ik) \<and> peer \<notin> sv_kicked sv \<or>
          approved_after conn (sk_clock (cn_sock conn))) \<and>
         (\<forall>other. other \<noteq> peer \<longrightarrow> get_pubkey other (sv_known sv') = get_pubkey other (sv_known sv)) \<and>
         sv_kicked sv' = sv_kicked sv - {peer}) \<and>
    (\<not> approved_after conn (sk_clock (cn_sock conn)) \<longrightarrow> sv_known sv' = sv_known sv)"
  by (rule server_handshake_trust [OF assms])

section \<open>A trusted peer that follows the protocol is admitted\<close>

lemma server_handshake_trusted:
  assumes "arrived (sk_events (cn_sock conn)) = encode_device_id peer @ [0] @ msg1 @ later"
    and "length msg1 = kMsg1Size" "sk_sends (cn_sock conn) = []"
    and "get_pubkey peer (sv_known sv) = Some (ik_peer_static ik)" "peer \<notin> sv_kicked sv"
    and "ik_responder_reply c (sv_static sv) (cn_ephemeral conn) msg1 = Some (msg2, ik)"
  shows "\<exists>s. server_handshake c conn sv = (Some (peer, ik, channel_new s (ik_keys ik)), sv) \<and>
    arrived (sk_events s) = later \<and> sk_sends s = [] \<and> sk_clock s = sk_clock (cn_sock conn) \<and>
    sk_out s = sk_out (cn_sock conn) @ encode_device_id (sv_device_id sv) @ [0] @ msg2"
proof -
  let ?s = "(cn_sock conn)\<lparr>sk_timeout := 200\<rparr>"
  have "arrived (sk_events ?s) = encode_device_id peer @ ([0] @ msg1 @ later)" "sk_sends ?s = []"
    using assms(1,3) by simp_all
  from exchange_arrived [OF this(1) length_encode_device_id this(2), of "encode_device_id (sv_device_id sv)"]
  obtain s1 where s1: "exchange (encode_device_id (sv_device_id sv)) 8 ?s = (Some (encode_device_id peer), s1)"
    "arrived (sk_events s1) = [0] @ msg1 @ later" "sk_sends s1 = []" "sk_clock s1 = sk_clock (cn_sock conn)"
    "sk_out s1 = sk_out (cn_sock conn) @ encode_device_id (sv_device_id sv)" by auto
  from exchange_arrived [OF s1(2) _ s1(3), of 1 "[0]"]
  obtain s2 where s2: "exchange [0] 1 s1 = (Some [0], s2)" "arrived (sk_events s2) = msg1 @ later" "sk_sends s2 = []"
    "sk_clock s2 = sk_clock s1" "sk_out s2 = sk_out s1 @ [0]" by auto
  have "sk_clock s2 < sk_clock s2 + kHandshakeTimeout" by (simp add: kHandshakeTimeout_def)
  from responder_arrived [OF s2(2) assms(2) s2(3) this assms(6)] obtain s3 where
    s3: "run_ik_responder c (sv_static sv) (cn_ephemeral conn) (sk_clock s2 + kHandshakeTimeout) s2 = (Some ik, s3)"
      "arrived (sk_events s3) = later" "sk_sends s3 = []" "sk_clock s3 = sk_clock s2" "sk_out s3 = sk_out s2 @ msg2"
    by auto
  have d: "decode_device_id (encode_device_id peer) = peer" using decode_encode_device_id [of peer "[]"] by simp
  have "wants_pairing (get_pubkey peer (sv_known sv)) = 0" "\<not> need_pairing (get_pubkey peer (sv_known sv)) 0"
    using assms(4) by (simp_all add: wants_pairing_def need_pairing_def)
  then have "server_handshake c conn sv = server_authenticate c conn peer (the (get_pubkey peer (sv_known sv))) sv s2"
    unfolding server_handshake_def using s1(1) s2(1) d by (simp add: Let_def)
  also have "\<dots> = (Some (peer, ik, channel_new s3 (ik_keys ik)), sv)"
    using s3(1) assms(4,5) by (simp add: server_authenticate_def Let_def)
  finally show ?thesis using s1 s2 s3 by auto
qed

section \<open>Kicked devices\<close>

lemma server_handshake_known:
  assumes "server_handshake c conn sv = (r, sv')" "omap_ok (kp_peers (sv_known sv))"
  shows "omap_ok (kp_peers (sv_known sv'))"
proof -
  have pair: "omap_ok (kp_peers (sv_known sv1))" if "server_pair c conn peer sv s = (x, sv1, s1)" for peer s x sv1 s1
    using server_pair_trust [OF that] assms(2) by (auto simp: omap_ok_remember split: option.splits)
  have auth: "sv_known sv2 = sv_known sv1" if "server_authenticate c conn peer key sv1 s = (x, sv2)" for peer key sv1 s x sv2
    using server_authenticate_trust [OF that] by simp
  show ?thesis
    using assms by (auto simp: server_handshake_def Let_def split: prod.splits option.splits if_splits dest!: pair auth)
qed

text \<open>The devices that get a session in a sequence of connections.\<close>

fun served :: "crypto \<Rightarrow> incoming_connection list \<Rightarrow> server \<Rightarrow> u64 list" where
  "served c [] sv = []"
| "served c (conn # conns) sv =
     (case fst (server_handshake c conn sv) of None \<Rightarrow> [] | Some (peer, _) \<Rightarrow> [peer]) @
     served c conns (fst (serve_connection c conn sv))"

lemma serve_connection_kicked:
  assumes "omap_ok (kp_peers (sv_known sv))" "peer \<in> sv_kicked sv"
    and "\<not> approved_after conn (sk_clock (cn_sock conn))"
  shows "fst (server_handshake c conn sv) \<noteq> Some (peer, ik, ch)" "peer \<in> sv_kicked (fst (serve_connection c conn sv))"
    "sv_known (fst (serve_connection c conn sv)) = sv_known sv"
proof -
  obtain r sv1 where h: "server_handshake c conn sv = (r, sv1)" by fastforce
  note trust = server_handshake_trust [OF h assms(1)]
  show "fst (server_handshake c conn sv) \<noteq> Some (peer, ik, ch)" using trust h assms by auto
  have "r = Some (p, ik, ch) \<Longrightarrow> p \<noteq> peer" for p ik ch using trust assms(2,3) by auto
  with trust h assms show "peer \<in> sv_kicked (fst (serve_connection c conn sv))"
    "sv_known (fst (serve_connection c conn sv)) = sv_known sv"
    by (auto simp: serve_connection_def Let_def split: option.splits prod.splits list.split)
qed

lemma kicked_not_served:
  assumes "omap_ok (kp_peers (sv_known sv))" "peer \<in> sv_kicked sv"
    and "list_all (\<lambda>conn. \<not> approved_after conn (sk_clock (cn_sock conn))) conns"
  shows "peer \<notin> set (served c conns sv)"
  using assms
proof (induction conns arbitrary: sv)
  case (Cons conn conns)
  then have no: "\<not> approved_after conn (sk_clock (cn_sock conn))" by simp
  note k = serve_connection_kicked [OF Cons.prems(1,2) no, of c]
  have "peer \<notin> set (served c conns (fst (serve_connection c conn sv)))"
    by (rule Cons.IH) (use Cons.prems k in auto)
  with k(1) show ?case by (cases "fst (server_handshake c conn sv)") auto
qed simp

text \<open>
  C9. A device the user disconnects is told to go away as the last message of its session and stays out:
  whatever connections follow, none of them serves it unless the user clicks on approval during one of
  them.
\<close>

theorem disconnected_device_stays_out:
  assumes "server_handshake c conn sv = (Some (peer, ik, ch), sv1)" "omap_ok (kp_peers (sv_known sv))"
    and "server_loop c (cn_inputs conn) (server_session c conn peer ik ch sv1) = (e, i # rest, s1)" "li_disconnect i"
    and "serve_connection c conn sv = (sv2, Some final)"
    and "list_all (\<lambda>conn. \<not> approved_after conn (sk_clock (cn_sock conn))) conns"
  shows "final = ch_sock (snd (channel_send c kMsgGoAway [] (se_channel s1))) \<and>
    sv_status sv2 = no_connection \<and> peer \<notin> set (served c conns sv2)"
proof -
  from assms(1,3,4,5) have "sv2 = sv1\<lparr>sv_kicked := insert peer (sv_kicked sv1), sv_clipboard := se_clipboard s1,
      sv_status := no_connection\<rparr>" "final = ch_sock (snd (channel_send c kMsgGoAway [] (se_channel s1)))"
    by (auto simp: serve_connection_def Let_def session_send_def)
  moreover have "omap_ok (kp_peers (sv_known sv1))"
    by (rule server_handshake_known [OF assms(1,2)])
  ultimately show ?thesis using kicked_not_served [of sv2 peer conns c] assms(6) by simp
qed

section \<open>A concrete server\<close>

definition demo_server :: server where
  "demo_server =
     \<lparr>sv_device_id = 1, sv_static = keypair_of toy_crypto (replicate 32 2),
      sv_known = \<lparr>kp_peers = [(7, replicate 32 1)], kp_file = [], kp_writable = True\<rparr>,
      sv_audio_port = 9000, sv_kicked = {}, sv_status = no_connection, sv_clipboard = None\<rparr>"

definition demo_connection :: "bytes \<Rightarrow> loop_input list \<Rightarrow> incoming_connection" where
  "demo_connection bs is =
     \<lparr>cn_sock = demo_sock [Arrive bs], cn_ip = bytes_of ''10.0.0.2'',
      cn_ephemeral = keypair_of toy_crypto (replicate 32 4), cn_running = (\<lambda>_. True), cn_clicks = [], cn_inputs = is\<rparr>"

lemma demo_handshake:
  obtains msg1 ik s where
    "server_handshake toy_crypto (demo_connection (encode_device_id 7 @ [0] @ msg1) is) demo_server =
      (Some (7, ik, channel_new s (ik_keys ik)), demo_server)"
    "ik_peer_static ik = replicate 32 1"
proof -
  let ?k = "\<lambda>n. keypair_of toy_crypto (replicate 32 n)"
  have len: "length (public_key (?k n)) = 32" for n by (simp add: keypair_of_def toy_crypto_def)
  have dhs: "dh toy_crypto a b = Some (map2 (XOR) a b)" for a b by (simp add: dh_def toy_crypto_def)
  obtain msg1 msg2 k1 k2 where m: "length msg1 = kMsg1Size"
    "ik_responder_reply toy_crypto (?k 2) (?k 4) msg1 =
       Some (msg2, \<lparr>ik_keys = \<lparr>send_key = k2, recv_key = k1\<rparr>, ik_peer_static = public_key (?k 1)\<rparr>)"
    by (rule ik_honest_run [OF toy_crypto_ok, of "?k 1" _ "?k 2" _ "?k 3" _ "?k 4"]) (auto simp: len dhs)
  have pub: "public_key (?k 1) = replicate 32 1" by (simp add: keypair_of_def toy_crypto_def)
  let ?ik = "\<lparr>ik_keys = \<lparr>send_key = k2, recv_key = k1\<rparr>, ik_peer_static = public_key (?k 1)\<rparr>"
  obtain s where "server_handshake toy_crypto (demo_connection (encode_device_id 7 @ [0] @ msg1) is) demo_server =
      (Some (7, ?ik, channel_new s (ik_keys ?ik)), demo_server)"
    using server_handshake_trusted [of "demo_connection (encode_device_id 7 @ [0] @ msg1) is" 7 msg1 "[]" demo_server ?ik
        toy_crypto msg2] m pub
    by (auto simp: demo_connection_def demo_server_def demo_sock_def get_pubkey_def)
  with that [of msg1 ?ik s] pub show thesis by auto
qed

theorem server_admits_only_trusted_witness:
  "\<exists>msg1 ik ch. server_handshake toy_crypto (demo_connection (encode_device_id 7 @ [0] @ msg1) []) demo_server =
      (Some (7, ik, ch), demo_server) \<and> get_pubkey 7 (sv_known demo_server) = Some (ik_peer_static ik)"
proof -
  obtain msg1 ik s where
    h: "server_handshake toy_crypto (demo_connection (encode_device_id 7 @ [0] @ msg1) []) demo_server =
      (Some (7, ik, channel_new s (ik_keys ik)), demo_server)"
    by (rule demo_handshake)
  have "omap_ok (kp_peers (sv_known demo_server))" by (simp add: demo_server_def)
  from server_admits_only_trusted [OF h this] h show ?thesis by auto
qed

theorem disconnected_device_stays_out_witness:
  "\<exists>msg1. let conn = demo_connection (encode_device_id 7 @ [0] @ msg1) [demo_input\<lparr>li_disconnect := True\<rparr>] in
     fst (server_handshake toy_crypto conn demo_server) \<noteq> None \<and>
     7 \<notin> set (served toy_crypto [conn] (fst (serve_connection toy_crypto conn demo_server)))"
proof -
  let ?i = "demo_input\<lparr>li_disconnect := True\<rparr>"
  obtain msg1 ik s where
    h: "server_handshake toy_crypto (demo_connection (encode_device_id 7 @ [0] @ msg1) [?i]) demo_server =
      (Some (7, ik, channel_new s (ik_keys ik)), demo_server)"
    by (rule demo_handshake)
  let ?conn = "demo_connection (encode_device_id 7 @ [0] @ msg1) [?i]"
  let ?s = "server_session toy_crypto ?conn 7 ik (channel_new s (ik_keys ik)) demo_server"
  have l: "server_loop toy_crypto (cn_inputs ?conn) ?s = (Stopped, ?i # [], ?s)"
    by (simp add: server_loop_def demo_connection_def server_goes_on_def)
  have "omap_ok (kp_peers (sv_known demo_server))" by (simp add: demo_server_def)
  moreover obtain sv2 final where f: "serve_connection toy_crypto ?conn demo_server = (sv2, Some final)"
    using h l by (simp add: serve_connection_def Let_def)
  moreover have "list_all (\<lambda>conn. \<not> approved_after conn (sk_clock (cn_sock conn))) [?conn]"
    by (simp add: approved_after_def demo_connection_def)
  ultimately have "7 \<notin> set (served toy_crypto [?conn] sv2)"
    by (intro disconnected_device_stays_out [OF h _ l, THEN conjunct2, THEN conjunct2]) auto
  with f h have "fst (server_handshake toy_crypto ?conn demo_server) \<noteq> None \<and>
      7 \<notin> set (served toy_crypto [?conn] (fst (serve_connection toy_crypto ?conn demo_server)))"
    by (simp del: served.simps)
  then show ?thesis unfolding Let_def by blast
qed

end
