(* ===== verification/Link.thy ===== *)
theory Link
  imports TcpServer TcpClient
begin

text \<open>
  The two ends of a connection together: an honest handshake connects them with matching keys, and the
  guarantees of the session loops, which hold on both ends by the interpretations of \<open>session_loop\<close>.
\<close>

section \<open>Connecting\<close>



section \<open>While connected\<close>

text \<open>The two states in which the loops start satisfy the invariant.\<close>

lemma session_ok_initial:
  "session_ok (server_session c conn peer ik ch sv)" "session_ok (client_session_start c a peer ik cl s)"
  by (auto simp: server_session_def client_session_start_def session_ok_def session_start_def session.extend_def
      connection_defs Let_def)


text \<open>Two idle sessions over sockets on which nothing arrives.\<close>

definition demo_ik :: ik_result where
  "demo_ik = \<lparr>ik_keys = demo_keys, ik_peer_static = []\<rparr>"

definition demo_server_session :: session where
  "demo_server_session = server_session toy_crypto (demo_connection [] []) 7 demo_ik
     (channel_new (demo_sock []) demo_keys) demo_server"

definition demo_client_session :: client_session where
  "demo_client_session = client_session_start toy_crypto (demo_attempt True [] []) 1 demo_ik demo_client (demo_sock [])"

lemma demo_sessions [simp]:
  "se_clock demo_server_session = 0" "sk_events (ch_sock (se_channel demo_server_session)) = []"
  "se_last_heard demo_server_session = 0" "se_clock demo_client_session = 0"
  "sk_events (ch_sock (se_channel demo_client_session)) = []" "se_last_heard demo_client_session = 0"
  by (simp_all add: demo_server_session_def demo_client_session_def server_session_def client_session_start_def
      session_start_def session.extend_def channel_new_def demo_sock_def Let_def)


text \<open>
  C26. A peer that falls silent is dropped, on either end: from any state of a session in which nothing
  more will arrive, the loop leaves by itself as soon as its inputs cover the timeout, at the latest
  one poll after the timeout has passed since the last sign of life.
\<close>

theorem silent_peer_dropped:
  assumes "session_ok m" "se_incoming m = []" "list_all (\<lambda>i. server_goes_on i \<and> li_timeout i = timeout) is" "is \<noteq> []"
    and "se_last_heard m + timeout \<le> se_clock m + 200 * int (length is)" "server_loop c is m = (e, rest, m')"
    and "session_ok sl" "se_incoming sl = []" "list_all li_running js" "js \<noteq> []"
    and "se_last_heard sl + g \<le> se_clock sl + 200 * int (length js)" "client_loop c g js sl = (e', rest', sl')"
  shows "e = PeerGone \<and> se_clock m' \<le> max (se_clock m) (se_last_heard m + timeout) + 200 \<and>
    e' = PeerGone \<and> se_clock sl' \<le> max (se_clock sl) (se_last_heard sl + g) + 200"
  using server_side.loop_silent [OF assms(1-3,5,4) assms(6) [unfolded server_loop_def]]
    client_side.loop_silent [OF assms(7,8) _ assms(11,10) assms(12) [unfolded client_loop_def]] assms(9)
  by simp

theorem silent_peer_dropped_witness:
  "fst (server_loop toy_crypto (replicate 50 demo_input) demo_server_session) = PeerGone \<and>
   fst (client_loop toy_crypto 10000 (replicate 50 demo_input) demo_client_session) = PeerGone"
proof -
  obtain e rest m' where m: "server_loop toy_crypto (replicate 50 demo_input) demo_server_session = (e, rest, m')"
    using prod_cases3 by blast
  obtain e' rest' sl' where sl: "client_loop toy_crypto 10000 (replicate 50 demo_input) demo_client_session = (e', rest', sl')"
    using prod_cases3 by blast
  have ok: "session_ok demo_server_session" "session_ok demo_client_session"
    by (simp_all add: demo_server_session_def demo_client_session_def session_ok_initial)
  have "e = PeerGone \<and> e' = PeerGone"
    using silent_peer_dropped [OF ok(1) _ _ _ _ m ok(2) _ _ _ _ sl, of 10000]
    by (simp add: list_all_length server_goes_on_def demo_input_def)
  with m sl show ?thesis by simp
qed

section \<open>A frame that cannot be decrypted\<close>

lemma frames_bad:
  assumes "crypto_ok c" "nonce_bound c" "list_all (\<lambda>m. length (snd m) + 17 \<le> unat kMaxFrameLen) ms"
    and "\<forall>j < length ms. n + 1 + of_nat j + d \<noteq> n"
  shows "\<exists>bs. frames c k (n + 1 + d) ms = concat bs \<and> length bs = length ms \<and> list_all (bad_frame c k n) bs"
  using assms(3,4)
proof (induction ms arbitrary: d)
  case (Cons m ms)
  have step: "n + 1 + of_nat j + (d + 1) \<noteq> n" if "j < length ms" for j
    using Cons.prems(2) [rule_format, of "Suc j"] that by (simp add: algebra_simps)
  with Cons.IH [of "d + 1"] Cons.prems(1) obtain bs where
    bs: "frames c k (n + 1 + (d + 1)) ms = concat bs" "length bs = length ms" "list_all (bad_frame c k n) bs"
    by auto
  have "n + 1 + d \<noteq> n" using Cons.prems(2) [rule_format, of 0] by simp
  with later_frame_bad [OF assms(1,2), of m "n + 1 + d" n k] Cons.prems(1)
  have "bad_frame c k n (frame c k (n + 1 + d) m)" by simp
  with bs show ?case by (intro exI [of _ "frame c k (n + 1 + d) m # bs"]) (simp add: algebra_simps)
qed simp

text \<open>
  C40. One undecryptable frame ends the conversation without ending the connection: after a frame that
  does not decrypt, every later message of the peer, although authentic and complete, is rejected too,
  because the receiver still expects the number of the lost frame. However many such messages arrive,
  one per iteration, the Master's loop goes on with an unchanged status, delivers nothing and does not
  notice a silence.
\<close>

theorem undecryptable_frame_wedges_session:
  assumes "crypto_ok c" "nonce_bound c" "ch_recv_nonce (se_channel m) = n" "recv_key (ch_keys (se_channel m)) = k"
    and "bad_frame c k n tampered" "list_all (\<lambda>msg. length (snd msg) + 17 \<le> unat kMaxFrameLen) ms"
    and "length ms < 2 ^ 64 - 1"
    and "arrived (sk_events (ch_sock (se_channel m))) = tampered @ frames c k (n + 1) ms"
    and "list_all (\<lambda>i. server_goes_on i \<and> 0 < li_timeout i) is" "length is = Suc (length ms)"
    and "server_loop c is m = (e, rest, m')"
  shows "e = Running \<and> se_info m' = se_info m \<and> se_clipboard m' \<in> {se_clipboard m, None} \<and>
    ch_recv_nonce (se_channel m') = n"
proof -
  have "(1 + of_nat j :: u64) \<noteq> 0" if "j < length ms" for j
  proof -
    have "unat (of_nat (Suc j) :: u64) = Suc j"
      using that assms(7) by (simp add: unat_of_nat del: of_nat_Suc)
    then show ?thesis by (metis Zero_not_Suc of_nat_Suc unat_0)
  qed
  then have "\<forall>j < length ms. n + 1 + of_nat j + 0 \<noteq> n" by (simp add: add.assoc)
  from frames_bad [OF assms(1,2,6) this, of k] obtain bs where
    bs: "frames c k (n + 1) ms = concat bs" "length bs = length ms" "list_all (bad_frame c k n) bs" by auto
  have "arrived (sk_events (ch_sock (se_channel m))) = concat (tampered # bs) @ []"
    using assms(8) bs(1) by simp
  from server_side.loop_wedged [OF this _ assms(9) _ assms(11) [unfolded server_loop_def]] bs assms(3-5,10)
  show ?thesis by simp
qed

theorem undecryptable_frame_wedges_session_witness:
  "let m = demo_server_session\<lparr>se_channel := channel_new
         (demo_sock [Arrive (write_be32 1 @ [0] @ frames strict_crypto (replicate 32 7) 1 [(kMsgMonitorList, [0])])]) demo_keys\<rparr>
   in fst (server_loop strict_crypto [demo_input, demo_input] m) = Running \<and>
      se_info (snd (snd (server_loop strict_crypto [demo_input, demo_input] m))) = se_info m"
proof -
  let ?m = "demo_server_session\<lparr>se_channel := channel_new
         (demo_sock [Arrive (write_be32 1 @ [0] @ frames strict_crypto (replicate 32 7) 1 [(kMsgMonitorList, [0])])]) demo_keys\<rparr>"
  obtain e rest m' where m: "server_loop strict_crypto [demo_input, demo_input] ?m = (e, rest, m')"
    using prod_cases3 by blast
  have "bad_frame strict_crypto (replicate 32 7) 0 (write_be32 1 @ [0])"
    unfolding bad_frame_def
    by (intro exI [of _ "[0]"]) (simp add: kMaxFrameLen_def aead_decrypt_def strict_crypto_def)
  then have "e = Running \<and> se_info m' = se_info ?m"
    using undecryptable_frame_wedges_session [OF strict_crypto_ok strict_crypto_nonce_bound _ _ _ _ _ _ _ _ m,
        of 0 "replicate 32 7" "write_be32 1 @ [0]" "[(kMsgMonitorList, [0])]"]
    by (simp add: channel_new_def demo_sock_def demo_keys_def kMaxFrameLen_def server_goes_on_def demo_input_def)
  with m show ?thesis by (simp add: Let_def)
qed

end
