(* ===== verification/ArrangementScreen.thy ===== *)
theory ArrangementScreen
  imports Complex_Main ScreenArrangement Connection
begin

text \<open>
  The arrangement screen, \<^verbatim>\<open>draw_arrangement\<close> of \<^verbatim>\<open>src/app/ui.cpp\<close> with \<^verbatim>\<open>decide_placement\<close> of
  \<^verbatim>\<open>src/topology/crossing.cpp\<close>: where the Slave's block stands in the Master's coordinates, dragging it,
  and what is stored when it is released. A \<^verbatim>\<open>float\<close> is an exact rational number; drawing is left out.
\<close>

section \<open>Placement\<close>

text \<open>Conversion of a floating point number to an integer drops the fraction.\<close>

definition to_int32 :: "rat \<Rightarrow> int" where
  "to_int32 q = (if q < 0 then \<lceil>q\<rceil> else \<lfloor>q\<rfloor>)"

definition decide_placement :: "cluster_bounds \<Rightarrow> rat \<Rightarrow> rat \<Rightarrow> rat \<Rightarrow> rat \<Rightarrow> direction \<times> int" where
  "decide_placement mb peer_width peer_height drag_x drag_y =
     (let dx = drag_x + peer_width / 2 - of_int (min_x mb + max_x mb) / 2;
          dy = drag_y + peer_height / 2 - of_int (min_y mb + max_y mb) / 2
      in if \<bar>dx\<bar> \<ge> \<bar>dy\<bar> then (if dx \<ge> 0 then Right else Left, to_int32 drag_y)
         else (if dy \<ge> 0 then Down else Up, to_int32 drag_x))"

text \<open>The top left corner of the Slave's block, in the Master's coordinates.\<close>

definition block_origin :: "cluster_bounds \<Rightarrow> cluster_bounds \<Rightarrow> direction \<Rightarrow> int \<Rightarrow> int \<times> int" where
  "block_origin mb pb d offset =
     (case d of
        Right \<Rightarrow> (max_x mb, offset)
      | Left \<Rightarrow> (min_x mb - (max_x pb - min_x pb), offset)
      | Down \<Rightarrow> (offset, max_y mb)
      | Up \<Rightarrow> (offset, min_y mb - (max_y pb - min_y pb)))"

section \<open>Dragging\<close>

text \<open>The static variables of the source, which outlive the frame.\<close>

record drag =
  dg_dragging :: bool
  dg_device :: u64
  dg_x :: rat
  dg_y :: rat

definition drag_init :: drag where
  "drag_init = \<lparr>dg_dragging = False, dg_device = 0, dg_x = 0, dg_y = 0\<rparr>"

text \<open>What the block reports in a frame: pressed, held, released, and the motion of the mouse.\<close>

record block_input =
  bi_activated :: bool
  bi_active :: bool
  bi_deactivated :: bool
  bi_dx :: rat
  bi_dy :: rat

definition kScale :: rat where "kScale = 8 / 100"

definition has_peer :: "connection_info option \<Rightarrow> bool" where
  "has_peer server = (case server of None \<Rightarrow> False | Some info \<Rightarrow> ci_state info = Connected \<and> ci_monitors info \<noteq> [])"

definition saved_placement :: "connection_info \<Rightarrow> arrangement \<Rightarrow> direction \<times> int" where
  "saved_placement info sa =
     (case arrangement_get (ci_peer info) sa of
        None \<Rightarrow> (Right, 0)
      | Some e \<Rightarrow> (entry_direction e, entry_offset e))"

text \<open>Where the block is drawn: at its stored place, or where it has been dragged to.\<close>

definition shown_origin :: "monitor_info list \<Rightarrow> connection_info \<Rightarrow> arrangement \<Rightarrow> drag \<Rightarrow> rat \<times> rat" where
  "shown_origin monitors info sa g =
     (let (d, offset) = saved_placement info sa;
          (x, y) = block_origin (compute_bounds monitors) (compute_bounds (ci_monitors info)) d offset
      in if dg_dragging g \<and> dg_device g = ci_peer info then (dg_x g, dg_y g) else (of_int x, of_int y))"

definition press_block :: "connection_info \<Rightarrow> rat \<times> rat \<Rightarrow> block_input \<Rightarrow> drag \<Rightarrow> drag" where
  "press_block info origin i g =
     (if bi_activated i
      then \<lparr>dg_dragging = True, dg_device = ci_peer info, dg_x = fst origin, dg_y = snd origin\<rparr> else g)"

definition move_block :: "block_input \<Rightarrow> drag \<Rightarrow> drag" where
  "move_block i g = (if bi_active i then g\<lparr>dg_x := dg_x g + bi_dx i / kScale, dg_y := dg_y g + bi_dy i / kScale\<rparr> else g)"

definition release_block :: "monitor_info list \<Rightarrow> connection_info \<Rightarrow> block_input \<Rightarrow> arrangement \<times> drag \<Rightarrow> arrangement \<times> drag" where
  "release_block monitors info i = (\<lambda>(sa, g).
     if \<not> bi_deactivated i then (sa, g)
     else
       (let pb = compute_bounds (ci_monitors info);
            (d, offset) = decide_placement (compute_bounds monitors) (of_int (max_x pb - min_x pb))
              (of_int (max_y pb - min_y pb)) (dg_x g) (dg_y g)
        in (arrangement_set (ci_peer info) d offset sa, g\<lparr>dg_dragging := False\<rparr>)))"

definition draw_arrangement :: "monitor_info list \<Rightarrow> connection_info option \<Rightarrow> block_input \<Rightarrow> arrangement \<times> drag \<Rightarrow> arrangement \<times> drag" where
  "draw_arrangement monitors server i = (\<lambda>(sa, g).
     if monitors = [] then (sa, g)
     else if \<not> has_peer server then (sa, g\<lparr>dg_dragging := False\<rparr>)
     else
       (let info = the server;
            g1 = press_block info (shown_origin monitors info sa g) i g
        in if dg_dragging g1 \<and> dg_device g1 = ci_peer info
           then release_block monitors info i (sa, move_block i g1)
           else (sa, g1)))"

section \<open>A drag moves one block\<close>

text \<open>A frame in which the block is held and moved.\<close>

definition dragging_frame :: "block_input \<Rightarrow> bool" where
  "dragging_frame i \<longleftrightarrow> \<not> bi_activated i \<and> bi_active i \<and> \<not> bi_deactivated i"

definition moved :: "rat \<Rightarrow> rat list \<Rightarrow> rat" where
  "moved start ds = start + sum_list ds / kScale"

lemma arrangement_get_set:
  assumes "omap_ok (sa_entries sa)"
  shows "arrangement_get i (arrangement_set j d offset sa) =
    (if i = j then Some \<lparr>entry_device = j, entry_direction = d, entry_offset = offset\<rparr> else arrangement_get i sa)"
proof -
  have "sa_entries (arrangement_set j d offset sa) =
      omap_put j \<lparr>entry_device = j, entry_direction = d, entry_offset = offset\<rparr> (sa_entries sa)"
    by (simp add: arrangement_set_def arrangement_save_def)
  then show ?thesis unfolding arrangement_get_def by (simp only: map_of_omap_put [OF assms] fun_upd_apply)
qed

lemma drag_frames:
  assumes "monitors \<noteq> []" "has_peer (Some info)" "dg_dragging g" "dg_device g = ci_peer info" "list_all dragging_frame ms"
  shows "fold (draw_arrangement monitors (Some info)) ms (sa, g) =
    (sa, g\<lparr>dg_x := moved (dg_x g) (map bi_dx ms), dg_y := moved (dg_y g) (map bi_dy ms)\<rparr>)"
  using assms(3-5)
proof (induction ms arbitrary: g)
  case Nil
  then show ?case by (simp add: moved_def)
next
  case (Cons i ms)
  let ?g = "g\<lparr>dg_x := dg_x g + bi_dx i / kScale, dg_y := dg_y g + bi_dy i / kScale\<rparr>"
  have "draw_arrangement monitors (Some info) i (sa, g) = (sa, ?g)"
    using Cons.prems assms(1,2)
    by (simp add: draw_arrangement_def press_block_def move_block_def release_block_def dragging_frame_def)
  with Cons.IH [of ?g] Cons.prems show ?case
    by (simp add: moved_def add_divide_distrib add.assoc)
qed


section \<open>A concrete drag\<close>

definition demo_slave :: connection_info where
  "demo_slave = no_connection\<lparr>ci_state := Connected, ci_peer := 7, ci_monitors := [hd_monitor]\<rparr>"

definition demo_pointer :: "bool \<Rightarrow> bool \<Rightarrow> bool \<Rightarrow> rat \<Rightarrow> rat \<Rightarrow> block_input" where
  "demo_pointer a h r dx dy = \<lparr>bi_activated = a, bi_active = h, bi_deactivated = r, bi_dx = dx, bi_dy = dy\<rparr>"

definition demo_arrangement :: arrangement where
  "demo_arrangement = \<lparr>sa_entries = [(3, \<lparr>entry_device = 3, entry_direction = Up, entry_offset = 5\<rparr>)], sa_file = [], sa_writable = True\<rparr>"

lemma hd_bounds: "compute_bounds [hd_monitor] = \<lparr>min_x = 0, max_x = 1920, min_y = 0, max_y = 1080\<rparr>"
  by (simp add: compute_bounds_def extend_bounds_def empty_bounds_def hd_monitor_def int32_max_def int32_min_def)


end
