(* ===== verification/PointerTravel.thy ===== *)
theory PointerTravel
  imports ArrangementScreen Handoff
begin

text \<open>
  The arrangement screen and the input routing together. The abstract machine is one desktop: a point
  in the Master's coordinates, on which the Slave's screens lie where the arrangement screen draws
  their block, and the machine that owns the point. The frames of \<open>pump_input\<close> refine it as long as
  the point stays where both blocks face each other.
\<close>

section \<open>One desktop\<close>

text \<open>A point of the Slave's own coordinates on the desktop.\<close>

definition on_desktop :: "arrangement_entry \<Rightarrow> cluster_bounds \<Rightarrow> cluster_bounds \<Rightarrow> int \<times> int \<Rightarrow> int \<times> int" where
  "on_desktop e mb pb = (\<lambda>(x, y).
     let (ox, oy) = block_origin mb pb (entry_direction e) (entry_offset e) in (ox + (x - min_x pb), oy + (y - min_y pb)))"

text \<open>How far a point lies beyond the edge that the two blocks share, counted towards the Slave.\<close>

definition depth :: "direction \<Rightarrow> cluster_bounds \<Rightarrow> int \<times> int \<Rightarrow> int" where
  "depth d mb = (\<lambda>(x, y).
     case d of Right \<Rightarrow> x - max_x mb | Left \<Rightarrow> min_x mb - x | Down \<Rightarrow> y - max_y mb | Up \<Rightarrow> min_y mb - y)"

text \<open>The nearest point on the shared edge.\<close>

definition to_edge :: "direction \<Rightarrow> cluster_bounds \<Rightarrow> int \<times> int \<Rightarrow> int \<times> int" where
  "to_edge d mb = (\<lambda>(x, y).
     case d of Right \<Rightarrow> (max_x mb, y) | Left \<Rightarrow> (min_x mb, y) | Down \<Rightarrow> (x, max_y mb) | Up \<Rightarrow> (x, min_y mb))"

text \<open>Inside both blocks' extent along the shared edge, and short of the far edges.\<close>

definition corridor :: "arrangement_entry \<Rightarrow> cluster_bounds \<Rightarrow> cluster_bounds \<Rightarrow> int \<times> int \<Rightarrow> bool" where
  "corridor e mb pb = (\<lambda>(x, y).
     let (ox, oy) = block_origin mb pb (entry_direction e) (entry_offset e);
         w = max_x pb - min_x pb; h = max_y pb - min_y pb
     in if horizontal (entry_direction e)
        then min_y mb < y \<and> y < max_y mb \<and> oy < y \<and> y < oy + h \<and> min ox (min_x mb) < x \<and> x < max (ox + w) (max_x mb)
        else min_x mb < x \<and> x < max_x mb \<and> ox < x \<and> x < ox + w \<and> min oy (min_y mb) < y \<and> y < max (oy + h) (max_y mb))"

text \<open>The point, whether the Master owns it, and whether control has just changed hands.\<close>

record desktop =
  dk_point :: "int \<times> int"
  dk_master :: bool
  dk_fresh :: bool

definition desktop_step :: "arrangement_entry \<Rightarrow> cluster_bounds \<Rightarrow> int \<times> int \<Rightarrow> desktop \<Rightarrow> desktop" where
  "desktop_step e mb = (\<lambda>(dx, dy) t.
     let q = (fst (dk_point t) + dx, snd (dk_point t) + dy); dep = depth (entry_direction e) mb q in
     if dk_master t
     then (if dep < 0 then \<lparr>dk_point = q, dk_master = True, dk_fresh = False\<rparr>
           else if dk_fresh t then \<lparr>dk_point = to_edge (entry_direction e) mb q, dk_master = True, dk_fresh = False\<rparr>
           else \<lparr>dk_point = q, dk_master = False, dk_fresh = True\<rparr>)
     else (if dep \<le> - kReturnMargin \<and> \<not> dk_fresh t then \<lparr>dk_point = q, dk_master = True, dk_fresh = True\<rparr>
           else \<lparr>dk_point = q, dk_master = False, dk_fresh = False\<rparr>))"

section \<open>The pump refines it\<close>

definition desktop_of :: "arrangement_entry \<Rightarrow> cluster_bounds \<Rightarrow> cluster_bounds \<Rightarrow> input_state \<Rightarrow> desktop" where
  "desktop_of e mb pb s =
     \<lparr>dk_point = (if is_owned s then (is_x s, is_y s) else on_desktop e mb pb (is_x s, is_y s)),
      dk_master = is_owned s, dk_fresh = is_handed_off s\<rparr>"

lemma fields_of_updates [simp]:
  "is_x (release_held_keys_locally s) = is_x s" "is_y (release_held_keys_locally s) = is_y s"
  "is_owned (release_held_keys_locally s) = is_owned s" "is_handed_off (release_held_keys_locally s) = is_handed_off s"
  "is_active (release_held_keys_locally s) = is_active s"
  "is_x (send_modifier_sync_mask m s) = is_x s" "is_y (send_modifier_sync_mask m s) = is_y s"
  "is_owned (send_modifier_sync_mask m s) = is_owned s" "is_handed_off (send_modifier_sync_mask m s) = is_handed_off s"
  "is_active (send_modifier_sync_mask m s) = is_active s"
  by (simp_all add: release_held_keys_locally_def send_modifier_sync_mask_def)

text \<open>Inside the corridor only the shared edge can be reached, seen from either side.\<close>

lemma master_boundary:
  assumes "corridor e mb pb (x, y)" "proper_bounds mb" "bc = check_boundary junk mb x y"
  shows "crossed bc \<longleftrightarrow> 0 \<le> depth (entry_direction e) mb (x, y)"
    and "crossed bc \<Longrightarrow> bc_direction bc = entry_direction e \<and> perp_pos bc = (if horizontal (entry_direction e) then y else x)"
    and "(clamped_x bc, clamped_y bc) = (if crossed bc then to_edge (entry_direction e) mb (x, y) else (x, y))"
  using assms
  by (cases "entry_direction e"; auto simp: corridor_def block_origin_def depth_def to_edge_def check_boundary_def clamp_def
      proper_bounds_def Let_def)+

lemma slave_boundary:
  assumes "corridor e mb pb (on_desktop e mb pb (x, y))" "proper_bounds pb" "bc = check_boundary junk pb x y"
  shows "crossed bc \<longleftrightarrow> depth (entry_direction e) mb (on_desktop e mb pb (x, y)) \<le> 0"
    and "crossed bc \<Longrightarrow> bc_direction bc = opposite (entry_direction e) \<and> perp_pos bc = (if horizontal (entry_direction e) then y else x)"
    and "\<not> crossed bc \<Longrightarrow> clamped_x bc = x \<and> clamped_y bc = y"
    and "horizontal (entry_direction e) \<Longrightarrow> clamped_y bc = y" "\<not> horizontal (entry_direction e) \<Longrightarrow> clamped_x bc = x"
  using assms
  by (cases "entry_direction e"; auto simp: corridor_def block_origin_def depth_def on_desktop_def check_boundary_def clamp_def
      proper_bounds_def Let_def)+

lemma slave_clamped:
  assumes "corridor e mb pb (on_desktop e mb pb (x, y))" "proper_bounds pb" "bc = check_boundary junk pb x y" "crossed bc"
  shows "(if horizontal (entry_direction e) then x - clamped_x bc else y - clamped_y bc) =
    (if entry_direction e = Right \<or> entry_direction e = Down then depth (entry_direction e) mb (on_desktop e mb pb (x, y))
     else - depth (entry_direction e) mb (on_desktop e mb pb (x, y)))"
  using assms(1,2,4) unfolding assms(3)
  by (cases "entry_direction e"; auto simp: corridor_def block_origin_def depth_def on_desktop_def check_boundary_def clamp_def
      proper_bounds_def Let_def split: if_splits)

lemma crossing_to_slave:
  assumes "corridor e mb pb (x, y)" "peers \<noteq> []" "pb = compute_bounds peers" "h = horizontal (entry_direction e)"
    and "cr = compute_crossing peers (entry_direction e) (entry_offset e) (if h then y else x)"
    and "(cx, cy) = to_edge (entry_direction e) mb (x, y)"
  shows "has_target cr" "on_desktop e mb pb (cross_x cr + (if h then x - cx else 0), cross_y cr + (if h then 0 else y - cy)) = (x, y)"
  using assms(1,4,6) compute_crossing_eqs [OF assms(2,3), of "entry_direction e" "entry_offset e" "if h then y else x"]
  unfolding assms(5)
  by (cases "entry_direction e"; simp add: corridor_def block_origin_def to_edge_def on_desktop_def)+

lemma crossing_to_master:
  assumes "corridor e mb pb (on_desktop e mb pb (x, y))" "masters \<noteq> []" "mb = compute_bounds masters" "h = horizontal (entry_direction e)"
    and "ret = invert_entry e mb pb"
    and "cr = compute_crossing masters (entry_direction ret) (entry_offset ret) (if h then y else x)"
    and "over = (if entry_direction e = Right \<or> entry_direction e = Down then depth (entry_direction e) mb (on_desktop e mb pb (x, y))
     else - depth (entry_direction e) mb (on_desktop e mb pb (x, y)))"
  shows "has_target cr" "(cross_x cr + (if h then over else 0), cross_y cr + (if h then 0 else over)) = on_desktop e mb pb (x, y)"
  using assms(1,4) compute_crossing_eqs [OF assms(2,3), of "entry_direction ret" "entry_offset ret" "if h then y else x"]
  unfolding assms(5-7)
  by (cases "entry_direction e"; simp add: corridor_def block_origin_def depth_def on_desktop_def invert_entry_def)+

lemma master_frame_refines:
  assumes "env_monitors env \<noteq> []" "ci_monitors info \<noteq> []" "arrangement_get (ci_peer info) (env_arrangement env) = Some e"
    and "mb = compute_bounds (env_monitors env)" "pb = compute_bounds (ci_monitors info)" "proper_bounds mb" "is_owned s"
    and "corridor e mb pb (is_x s + fr_dx fr, is_y s + fr_dy fr)"
  shows "desktop_of e mb pb (handle_master_owned env info fr s) = desktop_step e mb (fr_dx fr, fr_dy fr) (desktop_of e mb pb s)"
proof -
  let ?x = "is_x s + fr_dx fr" and ?y = "is_y s + fr_dy fr"
  define bc where "bc = check_boundary (env_junk env) mb ?x ?y"
  note b = master_boundary [OF assms(8,6) bc_def]
  let ?h = "horizontal (entry_direction e)"
  define cr where "cr = compute_crossing (ci_monitors info) (entry_direction e) (entry_offset e) (if ?h then ?y else ?x)"
  note c = crossing_to_slave [OF assms(8,2,5) refl cr_def]
  show ?thesis
  proof (cases "crossed bc \<and> \<not> is_handed_off s")
    case False
    then have "handle_master_owned env info fr s =
        s\<lparr>is_handed_off := False, is_x := clamped_x bc, is_y := clamped_y bc\<rparr>"
      by (auto simp: handle_master_owned_def assms(3) bc_def assms(4) Let_def)
    then show ?thesis using False b assms(7) by (auto simp: desktop_of_def desktop_step_def Let_def)
  next
    case True
    have dir: "bc_direction bc = entry_direction e" "perp_pos bc = (if ?h then ?y else ?x)" using b(2) True by simp_all
    have edge: "(clamped_x bc, clamped_y bc) = to_edge (entry_direction e) mb (?x, ?y)" using b(3) True by simp
    let ?x' = "cross_x cr + (if ?h then ?x - clamped_x bc else 0)" and ?y' = "cross_y cr + (if ?h then 0 else ?y - clamped_y bc)"
    let ?s = "handle_master_owned env info fr s"
    have "is_x ?s = ?x' \<and> is_y ?s = ?y' \<and> \<not> is_owned ?s \<and> is_handed_off ?s"
      using True dir c(1) [OF edge] assms(2,3)
      by (simp add: handle_master_owned_def Let_def flip: assms(4) bc_def cr_def)
    then show ?thesis using True b(1) c(2) [OF edge] assms(7) by (simp add: desktop_of_def desktop_step_def Let_def)
  qed
qed

lemma slave_frame_refines:
  assumes "env_monitors env \<noteq> []" "ci_monitors info \<noteq> []" "arrangement_get (ci_peer info) (env_arrangement env) = Some e"
    and "mb = compute_bounds (env_monitors env)" "pb = compute_bounds (ci_monitors info)" "proper_bounds pb" "\<not> is_owned s"
    and "corridor e mb pb (on_desktop e mb pb (is_x s + fr_dx fr, is_y s + fr_dy fr))"
  shows "desktop_of e mb pb (handle_slave_owned env info fr s) = desktop_step e mb (fr_dx fr, fr_dy fr) (desktop_of e mb pb s)"
proof -
  let ?x = "is_x s + fr_dx fr" and ?y = "is_y s + fr_dy fr"
  let ?h = "horizontal (entry_direction e)" and ?q = "on_desktop e mb pb (?x, ?y)"
  define bc where "bc = check_boundary (env_junk env) pb ?x ?y"
  note b = slave_boundary [OF assms(8,6) bc_def] and over = slave_clamped [OF assms(8,6) bc_def]
  define ret where "ret = invert_entry e mb pb"
  define cr where "cr = compute_crossing (env_monitors env) (entry_direction ret) (entry_offset ret) (if ?h then ?y else ?x)"
  let ?over = "if entry_direction e = Right \<or> entry_direction e = Down then depth (entry_direction e) mb ?q
     else - depth (entry_direction e) mb ?q"
  note c = crossing_to_master [OF assms(8,1,4) refl ret_def cr_def refl]
  have step: "?q = (fst (on_desktop e mb pb (is_x s, is_y s)) + fr_dx fr, snd (on_desktop e mb pb (is_x s, is_y s)) + fr_dy fr)"
    by (simp add: on_desktop_def split: prod.split)
  have ret: "entry_direction ret = opposite (entry_direction e)" by (simp add: ret_def invert_entry_def)
  let ?s1 = "s\<lparr>is_handed_off := False, is_sent := is_sent s @ forwarded (clamped_x bc) (clamped_y bc) fr, is_x := ?x, is_y := ?y\<rparr>"
  show ?thesis
  proof (cases "crossed bc")
    case False
    then have "handle_slave_owned env info fr s = ?s1"
      using b(3) by (simp add: handle_slave_owned_def Let_def flip: assms(4,5) bc_def)
    moreover have "\<not> depth (entry_direction e) mb ?q \<le> - kReturnMargin" using b(1) False by (simp add: kReturnMargin_def)
    ultimately show ?thesis using assms(7) step by (simp add: desktop_of_def desktop_step_def Let_def)
  next
    case True
    have dir: "bc_direction bc = opposite (entry_direction e)" "perp_pos bc = (if ?h then ?y else ?x)" using b(2) True by simp_all
    have clamped: "?h \<Longrightarrow> ?x - clamped_x bc = ?over \<and> ?y - clamped_y bc = 0" "\<not> ?h \<Longrightarrow> ?y - clamped_y bc = ?over \<and> ?x - clamped_x bc = 0"
      using over [OF True] b(4,5) by simp_all
    have "depth (entry_direction e) mb ?q \<le> 0" using b(1) True by simp
    then have margin: "(?x - clamped_x bc \<ge> kReturnMargin \<or> ?x - clamped_x bc \<le> - kReturnMargin) \<or>
        (?y - clamped_y bc \<ge> kReturnMargin \<or> ?y - clamped_y bc \<le> - kReturnMargin) \<longleftrightarrow>
        depth (entry_direction e) mb ?q \<le> - kReturnMargin"
      using clamped by (cases ?h) (auto simp: kReturnMargin_def)
    define ov where "ov = ?over"
    have k: "\<not> kReturnMargin \<le> 0" by (simp add: kReturnMargin_def)
    have mg: "kReturnMargin \<le> ov \<or> ov \<le> - kReturnMargin \<longleftrightarrow> depth (entry_direction e) mb ?q \<le> - kReturnMargin"
      using margin clamped k unfolding ov_def by (cases ?h) auto
    have h: "handle_slave_owned env info fr s =
        (if is_handed_off s \<or> \<not> depth (entry_direction e) mb ?q \<le> - kReturnMargin then ?s1
         else hand_back (cross_x cr + (if ?h then ov else 0)) (cross_y cr + (if ?h then 0 else ov)) ?s1)"
    proof (cases ?h)
      case h: True
      have "compute_crossing (env_monitors env) (opposite (entry_direction e)) (entry_offset ret) ?y = cr"
        using h ret by (simp add: cr_def)
      moreover have "?x - clamped_x bc = ov" "clamped_y bc = ?y" using clamped(1) h b(4) unfolding ov_def by simp_all
      ultimately show ?thesis
        using True dir ret h
        by (simp add: handle_slave_owned_def Let_def assms(3) mg k c(1) flip: assms(4,5) bc_def ret_def)
    next
      case h: False
      have "compute_crossing (env_monitors env) (opposite (entry_direction e)) (entry_offset ret) ?x = cr"
        using h ret by (simp add: cr_def)
      moreover have "?y - clamped_y bc = ov" "clamped_x bc = ?x" using clamped(2) h b(5) unfolding ov_def by simp_all
      ultimately show ?thesis
        using True dir ret h
        by (simp add: handle_slave_owned_def Let_def assms(3) mg k c(1) flip: assms(4,5) bc_def ret_def)
    qed
    show ?thesis
    proof (cases "is_handed_off s \<or> \<not> depth (entry_direction e) mb ?q \<le> - kReturnMargin")
      case True
      then show ?thesis unfolding h using assms(7) step by (auto simp: desktop_of_def desktop_step_def Let_def)
    next
      case False
      then show ?thesis unfolding h using assms(7) step c(2) unfolding ov_def [symmetric] by (simp add: desktop_of_def desktop_step_def hand_back_eq Let_def)
    qed
  qed
qed

section \<open>Runs\<close>

text \<open>What the hooks have recorded of the mouse when the next frame polls them, frame by frame.\<close>

definition frame_motion :: "os_event list \<Rightarrow> input_state \<Rightarrow> int \<times> int" where
  "frame_motion es s = (let fr = fst (hook_poll (snd (os_run es (is_hook s)))) in (fr_dx fr, fr_dy fr))"

fun pointer_motions :: "input_env \<Rightarrow> os_event list list \<Rightarrow> input_state \<Rightarrow> (int \<times> int) list" where
  "pointer_motions env [] s = []"
| "pointer_motions env (es # ess) s = frame_motion es s # pointer_motions env ess (input_frame_step (es, env) s)"

fun in_corridor :: "arrangement_entry \<Rightarrow> cluster_bounds \<Rightarrow> cluster_bounds \<Rightarrow> (int \<times> int) list \<Rightarrow> desktop \<Rightarrow> bool" where
  "in_corridor e mb pb [] t \<longleftrightarrow> True"
| "in_corridor e mb pb (m # ms) t \<longleftrightarrow>
     corridor e mb pb (fst (dk_point t) + fst m, snd (dk_point t) + snd m) \<and> in_corridor e mb pb ms (desktop_step e mb m t)"

lemma on_desktop_shift:
  "on_desktop e mb pb (x + dx, y + dy) = (fst (on_desktop e mb pb (x, y)) + dx, snd (on_desktop e mb pb (x, y)) + dy)"
  by (simp add: on_desktop_def split: prod.split)

lemma handled_disconnect:
  "is_disconnect (handle_master_owned env info fr t) = is_disconnect t"
  "is_disconnect (handle_slave_owned env info fr t) = is_disconnect t"
proof -
  show "is_disconnect (handle_master_owned env info fr t) = is_disconnect t"
    unfolding handle_master_owned_def Let_def
    by (auto simp: release_held_keys_locally_def send_modifier_sync_mask_def split: option.split)
  show "is_disconnect (handle_slave_owned env info fr t) = is_disconnect t"
    by (rule handle_slave_rule) (simp_all add: hand_back_eq)
qed

lemma frame_refines:
  assumes "env_monitors env \<noteq> []" "ci_monitors info \<noteq> []" "arrangement_get (ci_peer info) (env_arrangement env) = Some e"
    and "mb = compute_bounds (env_monitors env)" "pb = compute_bounds (ci_monitors info)" "proper_bounds mb" "proper_bounds pb"
    and "is_active s" "\<not> is_disconnect (pump_connected env info s)"
    and "fr = fst (hook_poll (is_hook s))" "t = desktop_of e mb pb s"
    and "corridor e mb pb (fst (dk_point t) + fr_dx fr, snd (dk_point t) + fr_dy fr)"
  shows "desktop_of e mb pb (pump_connected env info s) = desktop_step e mb (fr_dx fr, fr_dy fr) t"
proof -
  let ?s1 = "s\<lparr>is_hook := snd (hook_poll (is_hook s)), is_held := fold track_key (fr_keys fr) (is_held s)\<rparr>"
  have a: "activate env s = s" using assms(8) by (simp add: activate_def)
  obtain sx sy where sp: "safe_point (env_monitors env) = (sx, sy)" by fastforce
  obtain hk where p: "hook_poll (is_hook s) = (fr, hk)" using assms(10) by (cases "hook_poll (is_hook s)") simp
  have r: "pump_connected env info s =
      (if escape_combo_held (is_held ?s1) \<and> \<not> is_owned s then (hand_back sx sy ?s1)\<lparr>is_disconnect := True\<rparr>
       else if is_owned s then handle_master_owned env info fr ?s1 else handle_slave_owned env info fr ?s1)"
    using a sp p assms(2) by (simp add: pump_connected_def Let_def)
  have t: "desktop_of e mb pb ?s1 = t" by (simp add: assms(11) desktop_of_def)
  show ?thesis
  proof (cases "is_owned s")
    case True
    then have "corridor e mb pb (is_x ?s1 + fr_dx fr, is_y ?s1 + fr_dy fr)" using assms(11,12) by (simp add: desktop_of_def)
    from master_frame_refines [OF assms(1-6) _ this] True show ?thesis by (simp add: r t)
  next
    case False
    then have "corridor e mb pb (on_desktop e mb pb (is_x ?s1 + fr_dx fr, is_y ?s1 + fr_dy fr))"
      using assms(11,12) by (simp add: desktop_of_def on_desktop_shift)
    moreover have "\<not> escape_combo_held (is_held ?s1)" using assms(9) False r by auto
    ultimately show ?thesis using slave_frame_refines [OF assms(1-5,7), of ?s1 fr] False by (simp add: r t)
  qed
qed

lemma run_disconnect_sticky:
  assumes "env_role env = Master" "env_server env = Some info" "ci_state info = Connected" "is_disconnect s"
  shows "is_disconnect (fold (\<lambda>es. input_frame_step (es, env)) ess s)"
  using assms(4)
proof (induction ess arbitrary: s)
  case (Cons es ess)
  then have "is_disconnect (input_frame_step (es, env) s)"
    using assms(1-3) by (simp add: input_frame_step_def pump_input_def disconnect_sticky)
  with Cons.IH show ?case by simp
qed simp

lemma run_refines:
  assumes "env_role env = Master" "env_server env = Some info" "ci_state info = Connected"
    and "env_monitors env \<noteq> []" "ci_monitors info \<noteq> []" "arrangement_get (ci_peer info) (env_arrangement env) = Some e"
    and "mb = compute_bounds (env_monitors env)" "pb = compute_bounds (ci_monitors info)" "proper_bounds mb" "proper_bounds pb"
    and "input_ok s" "is_active s" "\<not> is_disconnect (fold (\<lambda>es. input_frame_step (es, env)) ess s)"
    and "in_corridor e mb pb (pointer_motions env ess s) (desktop_of e mb pb s)"
  shows "desktop_of e mb pb (fold (\<lambda>es. input_frame_step (es, env)) ess s) =
    fold (desktop_step e mb) (pointer_motions env ess s) (desktop_of e mb pb s)"
  using assms(11-14)
proof (induction ess arbitrary: s)
  case (Cons es ess)
  let ?s = "s\<lparr>is_hook := snd (os_run es (is_hook s))\<rparr>" and ?s' = "input_frame_step (es, env) s"
  have step: "?s' = pump_connected env info ?s" using assms(1-3) by (simp add: input_frame_step_def pump_input_def)
  have nd: "\<not> is_disconnect ?s'"
    using Cons.prems(3) run_disconnect_sticky [OF assms(1-3), of ?s' ess] by auto
  have d: "desktop_of e mb pb ?s = desktop_of e mb pb s" by (simp add: desktop_of_def)
  have "corridor e mb pb (fst (dk_point (desktop_of e mb pb s)) + fst (frame_motion es s),
      snd (dk_point (desktop_of e mb pb s)) + snd (frame_motion es s))"
    using Cons.prems(4) by simp
  then have one: "desktop_of e mb pb ?s' = desktop_step e mb (frame_motion es s) (desktop_of e mb pb s)"
    using frame_refines [OF assms(4-10) _ _ refl refl, of ?s] Cons.prems(2) nd d unfolding step
    by (simp add: frame_motion_def Let_def)
  have "input_ok ?s" using Cons.prems(1) by (simp add: input_ok_def)
  then have "input_ok ?s'" "is_active ?s'" using input_ok_connected [of ?s env info] unfolding step by simp_all
  with Cons.IH [of ?s'] Cons.prems(3,4) one show ?case by simp
qed simp

text \<open>
  C7. The two machines' screens are one desktop: from the first connected frame on, as long as the
  connection, the monitors and the arrangement stay, the emergency escape is not used and the pointer
  keeps to the strip in which the two blocks face each other, every sequence of mouse movements takes
  the pointer exactly where it would go on one desktop on which the Slave's screens lie where the
  arrangement screen draws them: no step is lost or doubled when control changes hands, except that
  the frame right after a return stops at the Master's edge.
\<close>

theorem pointer_travels_one_desktop:
  assumes "env_role env = Master" "env_server env = Some info" "ci_state info = Connected"
    and "env_monitors env \<noteq> []" "ci_monitors info \<noteq> []" "arrangement_get (ci_peer info) (env_arrangement env) = Some e"
    and "mb = compute_bounds (env_monitors env)" "pb = compute_bounds (ci_monitors info)" "proper_bounds mb" "proper_bounds pb"
    and "s = input_frame_step (es0, env) input_init" "s' = fold (\<lambda>es. input_frame_step (es, env)) ess s" "\<not> is_disconnect s'"
    and "in_corridor e mb pb (pointer_motions env ess s) (desktop_of e mb pb s)"
  shows "desktop_of e mb pb s' = fold (desktop_step e mb) (pointer_motions env ess s) (desktop_of e mb pb s)"
proof -
  let ?s0 = "input_init\<lparr>is_hook := snd (os_run es0 (is_hook input_init))\<rparr>"
  have "input_ok ?s0" using input_ok_init by (simp add: input_ok_def)
  moreover have "s = pump_connected env info ?s0" using assms(1-3,11) by (simp add: input_frame_step_def pump_input_def)
  ultimately have "input_ok s" "is_active s" using input_ok_connected [of ?s0 env info] by simp_all
  then show ?thesis using run_refines [OF assms(1-10)] assms(12-14) by simp
qed

theorem pointer_travels_one_desktop_witness:
  "let e = \<lparr>entry_device = 7, entry_direction = Right, entry_offset = 0\<rparr>; b = compute_bounds [hd_monitor];
       s = (\<lambda>ess. fold (\<lambda>es. input_frame_step (es, demo_env)) ess (input_frame_step ([], demo_env) input_init));
       tour = [[demo_move 30 0], [RawDelta 5 3], [RawDelta (- 40) 0], [demo_move 1890 500]]
   in desktop_of e b b (s tour) = \<lparr>dk_point = (1890, 500), dk_master = True, dk_fresh = False\<rparr> \<and>
      (is_x (s (take 2 tour)), is_y (s (take 2 tour)), is_owned (s (take 2 tour))) = (15, 503, False)"
proof -
  let ?e = "\<lparr>entry_device = 7, entry_direction = Right, entry_offset = 0\<rparr>" and ?b = "compute_bounds [hd_monitor]"
  let ?tour = "[[demo_move 30 0], [RawDelta 5 3], [RawDelta (- 40) 0], [demo_move 1890 500]]"
  let ?s = "input_frame_step ([], demo_env) input_init"
  let ?s' = "fold (\<lambda>es. input_frame_step (es, demo_env)) ?tour ?s"
  have env: "env_role demo_env = Master" "env_server demo_env = Some demo_peer" "ci_state demo_peer = Connected"
    "env_monitors demo_env \<noteq> []" "ci_monitors demo_peer \<noteq> []" "env_monitors demo_env = [hd_monitor]" "ci_monitors demo_peer = [hd_monitor]"
    by (simp_all add: demo_env_def demo_peer_def)
  have e: "arrangement_get (ci_peer demo_peer) (env_arrangement demo_env) = Some ?e" by code_simp
  have p: "proper_bounds ?b" by code_simp
  have motions: "pointer_motions demo_env ?tour ?s = [(30, 0), (5, 3), (- 40, 0), (- 5, - 3)]" by code_simp
  have start: "desktop_of ?e ?b ?b ?s = \<lparr>dk_point = (1900, 500), dk_master = True, dk_fresh = False\<rparr>" by code_simp
  have way: "in_corridor ?e ?b ?b [(30, 0), (5, 3), (- 40, 0), (- 5, - 3)] \<lparr>dk_point = (1900, 500), dk_master = True, dk_fresh = False\<rparr>"
    by code_simp
  have calm: "\<not> is_disconnect ?s'" by code_simp
  have abs: "fold (desktop_step ?e ?b) [(30, 0), (5, 3), (- 40, 0), (- 5, - 3)] \<lparr>dk_point = (1900, 500), dk_master = True, dk_fresh = False\<rparr>
      = \<lparr>dk_point = (1890, 500), dk_master = True, dk_fresh = False\<rparr>" by code_simp
  have "in_corridor ?e ?b ?b (pointer_motions demo_env ?tour ?s) (desktop_of ?e ?b ?b ?s)" unfolding motions start by (rule way)
  then have "desktop_of ?e ?b ?b ?s' = fold (desktop_step ?e ?b) (pointer_motions demo_env ?tour ?s) (desktop_of ?e ?b ?b ?s)"
    by (rule pointer_travels_one_desktop [OF env(1-5) e arg_cong [OF env(6) [symmetric]] arg_cong [OF env(7) [symmetric]] p p
        refl refl calm])
  moreover have "(is_x (fold (\<lambda>es. input_frame_step (es, demo_env)) (take 2 ?tour) ?s),
      is_y (fold (\<lambda>es. input_frame_step (es, demo_env)) (take 2 ?tour) ?s),
      is_owned (fold (\<lambda>es. input_frame_step (es, demo_env)) (take 2 ?tour) ?s)) = (15, 503, False)" by code_simp
  ultimately show ?thesis unfolding motions start abs Let_def by (rule conjI)
qed

end
