(* ===== verification/ProcessStats.thy ===== *)
theory ProcessStats
  imports Complex_Main TextIO
begin

text \<open>
  The process statistics of the log, \<^verbatim>\<open>src/telemetry/process_stats.cpp\<close>: memory, open handles and processor
  time, read from files of \<^verbatim>\<open>/proc\<close> on Linux and from counters of the system on Windows. The content of the
  files and the counters are arguments; a file that cannot be opened is \<open>None\<close>. A \<open>double\<close> is an
  exact rational number, the clock counts nanoseconds.
\<close>

section \<open>Memory and handles\<close>

abbreviation starts_with :: "string \<Rightarrow> string \<Rightarrow> bool" where
  "starts_with pat s \<equiv> take (length pat) s = pat"

text \<open>\<^verbatim>\<open>std::sscanf(s, "%ld", &kb)\<close>: without a number \<open>kb\<close> keeps its 0.\<close>

definition scan_long :: "string \<Rightarrow> int" where
  "scan_long s = (let (neg, ds, rest) = scan_number 10 s; n = int (digits_to_nat 10 ds) in if neg then - n else n)"

abbreviation file_lines :: "string option \<Rightarrow> string list" where
  "file_lines f \<equiv> (case f of None \<Rightarrow> [] | Some content \<Rightarrow> lines_of content)"

definition working_set_mib :: "string option \<Rightarrow> rat" where
  "working_set_mib status =
     (case find (starts_with ''VmRSS:'') (file_lines status) of
        None \<Rightarrow> 0
      | Some line \<Rightarrow> of_int (scan_long (drop 6 line)) / 1024)"

text \<open>The loop over \<^verbatim>\<open>smaps_rollup\<close>: the sum and whether anything was found.\<close>

fun private_loop :: "string list \<Rightarrow> int \<times> bool \<Rightarrow> int \<times> bool" where
  "private_loop [] r = r"
| "private_loop (line # ls) (kb, found) =
     private_loop ls
       (if starts_with ''Private_Clean:'' line \<or> starts_with ''Private_Dirty:'' line
        then (kb + scan_long (drop 14 line), True) else (kb, found))"

definition private_mib :: "string option \<Rightarrow> string option \<Rightarrow> rat" where
  "private_mib smaps status =
     (let (kb, found) = private_loop (file_lines smaps) (0, False)
      in if \<not> found then working_set_mib status else of_int kb / 1024)"

text \<open>The entries of the directory of open files, when it can be read.\<close>

definition handle_count :: "string list option \<Rightarrow> u32" where
  "handle_count entries = (case entries of None \<Rightarrow> 0 | Some es \<Rightarrow> of_nat (length es))"

text \<open>On Windows: bytes, when the system tells them, and the handles.\<close>

definition win_mib :: "nat option \<Rightarrow> rat" where
  "win_mib amount = (case amount of None \<Rightarrow> 0 | Some n \<Rightarrow> of_nat n / (1024 * 1024))"

definition win_handle_count :: "u32 option \<Rightarrow> u32" where
  "win_handle_count count = (case count of None \<Rightarrow> 0 | Some n \<Rightarrow> n)"

section \<open>Processor time\<close>

lemma read_digits_shorter:
  assumes "read_word (open_text s) = (Some w, st)"
  shows "length (is_text st) < length s"
proof -
  let ?t = "dropWhile is_space s"
  have t: "?t \<noteq> []" "w = takeWhile (\<lambda>c. \<not> is_space c) ?t" "is_text st = dropWhile (\<lambda>c. \<not> is_space c) ?t"
    using assms by (auto simp: read_word_def open_text_def Let_def split: if_splits)
  then obtain c r where c: "?t = c # r" by (cases ?t) auto
  have "\<not> is_space c" using c by (simp add: dropWhile_eq_Cons_conv)
  then have "is_text st = dropWhile (\<lambda>c. \<not> is_space c) r" using t(3) c by simp
  then have "length (is_text st) \<le> length r" by (simp add: length_dropWhile_le)
  also have "\<dots> < length ?t" using c by simp
  also have "\<dots> \<le> length s" by (rule length_dropWhile_le)
  finally show ?thesis .
qed

text \<open>\<^verbatim>\<open>while (rest >> field)\<close>\<close>

function words_of :: "string \<Rightarrow> string list" where
  "words_of s =
     (case read_word (open_text s) of (None, _) \<Rightarrow> [] | (Some w, st) \<Rightarrow> w # words_of (is_text st))"
  by pat_completeness auto
termination by (relation "measure length") (auto intro: read_digits_shorter [OF sym])

declare words_of.simps [simp del]

text \<open>\<^verbatim>\<open>std::strtoull\<close> in base 10: nothing to read gives 0, too large a number the largest.\<close>

definition strtoull :: "string \<Rightarrow> u64" where
  "strtoull s =
     (let (neg, ds, rest) = scan_number 10 s; n = digits_to_nat 10 ds
      in if n \<ge> 2 ^ 64 then - 1 else if neg then - of_nat n else of_nat n)"

text \<open>What follows the last closing parenthesis.\<close>

definition after_last_paren :: "string \<Rightarrow> string option" where
  "after_last_paren s = (if CHR '')'' \<in> set s then Some (rev (takeWhile (\<lambda>c. c \<noteq> CHR '')'') (rev s))) else None)"

definition read_proc_self_stat_ticks :: "string option \<Rightarrow> u64" where
  "read_proc_self_stat_ticks f =
     (case after_last_paren (case f of None \<Rightarrow> [] | Some content \<Rightarrow> content) of
        None \<Rightarrow> 0
      | Some rest \<Rightarrow>
          (let fields = words_of rest
           in if length fields < 13 then 0 else strtoull (fields ! 11) + strtoull (fields ! 12)))"

record cpu_state =
  cs_ticks :: u64
  cs_wall :: int
  cs_baseline :: bool
  cs_clk_tck :: int

definition cpu_sampler_new :: "int \<Rightarrow> cpu_state" where
  "cpu_sampler_new ticks_per_second =
     \<lparr>cs_ticks = 0, cs_wall = 0, cs_baseline = False, cs_clk_tck = (if ticks_per_second \<le> 0 then 100 else ticks_per_second)\<rparr>"

definition cpu_sample :: "u64 \<Rightarrow> int \<Rightarrow> cpu_state \<Rightarrow> rat \<times> cpu_state" where
  "cpu_sample ticks now s =
     (let s1 = s\<lparr>cs_ticks := ticks, cs_wall := now, cs_baseline := True\<rparr>
      in if \<not> cs_baseline s then (0, s1)
         else
           let cpu_delta_s = of_nat (unat (ticks - cs_ticks s)) / of_int (cs_clk_tck s);
               wall_delta_s = of_int (now - cs_wall s) / 10 ^ 9
           in (if wall_delta_s \<le> 0 then 0 else cpu_delta_s / wall_delta_s * 100, s1))"

text \<open>Windows: kernel and user time in units of 100 ns, when the system tells them.\<close>

definition filetime_to_u64 :: "u32 \<Rightarrow> u32 \<Rightarrow> u64" where
  "filetime_to_u64 high low = push_bit 32 (ucast high) OR ucast low"

record win_cpu_state =
  wc_kernel :: u64
  wc_user :: u64
  wc_wall :: int
  wc_baseline :: bool

definition win_cpu_sample :: "(u64 \<times> u64) option \<Rightarrow> int \<Rightarrow> win_cpu_state \<Rightarrow> rat \<times> win_cpu_state" where
  "win_cpu_sample used now s =
     (case used of
        None \<Rightarrow> (0, s)
      | Some (kernel_time, user_time) \<Rightarrow>
          (let s1 = \<lparr>wc_kernel = kernel_time, wc_user = user_time, wc_wall = now, wc_baseline = True\<rparr>
           in if \<not> wc_baseline s then (0, s1)
              else
                let cpu_delta_s = of_nat (unat ((kernel_time - wc_kernel s) + (user_time - wc_user s))) / 10 ^ 7;
                    wall_delta_s = of_int (now - wc_wall s) / 10 ^ 9
                in (if wall_delta_s \<le> 0 then 0 else cpu_delta_s / wall_delta_s * 100, s1)))"

section \<open>Any process name\<close>

lemma words_of_blank: "words_of (CHR '' '' # s) = words_of s"
  by (subst (1 2) words_of.simps) (simp add: open_text_def)

lemma words_of_word:
  "w \<noteq> [] \<Longrightarrow> \<forall>c \<in> set w. \<not> is_space c \<Longrightarrow> token_end r \<Longrightarrow> words_of (w @ r) = w # words_of r"
  by (subst words_of.simps) (simp add: open_text_def read_word_token)

lemma words_of_end: "words_of [newline] = []" "words_of [] = []"
  by (subst words_of.simps, simp add: open_text_def read_word_def)+

lemma words_of_fields:
  assumes "\<forall>w \<in> set ws. w \<noteq> [] \<and> (\<forall>c \<in> set w. \<not> is_space c)"
  shows "words_of (concat (map (\<lambda>w. CHR '' '' # w) ws) @ [newline]) = ws"
  using assms
proof (induction ws)
  case (Cons w ws)
  have "token_end (concat (map (\<lambda>w. CHR '' '' # w) ws) @ [newline])" by (cases ws) auto
  with Cons show ?case by (simp add: words_of_blank words_of_word)
qed (simp add: words_of_end)

lemma strtoull_show: "n < 2 ^ 64 \<Longrightarrow> strtoull (show_nat 10 n) = of_nat n"
  using show_dec_props [of n] scan_number_digits(1) [of 10 "show_nat 10 n" "[]"]
  by (simp add: strtoull_def)

lemma after_last_paren_eq: "CHR '')'' \<notin> set r \<Longrightarrow> after_last_paren (s @ CHR '')'' # r) = Some r"
proof -
  assume "CHR '')'' \<notin> set r"
  then have "takeWhile (\<lambda>c. c \<noteq> CHR '')'') (rev r @ CHR '')'' # rev s) = rev r" by (subst takeWhile_append2) auto
  then show ?thesis by (simp add: after_last_paren_def)
qed

text \<open>
  The processor time is read correctly whatever the process is called: in a line of \<^verbatim>\<open>/proc/self/stat\<close> the
  name in the second field may hold blanks and parentheses of its own, and the sum of user and system
  time is still taken from the 14th and 15th field, as long as the later fields hold no parenthesis.
\<close>

theorem stat_ticks_any_name:
  assumes "content = before @ '' ('' @ name @ '')'' @ concat (map (\<lambda>w. CHR '' '' # w) entries) @ [newline]"
    and "13 \<le> length entries" "\<forall>w \<in> set entries. w \<noteq> [] \<and> (\<forall>c \<in> set w. \<not> is_space c \<and> c \<noteq> CHR '')'')"
    and "entries ! 11 = show_nat 10 user" "entries ! 12 = show_nat 10 system" "user < 2 ^ 64" "system < 2 ^ 64"
  shows "read_proc_self_stat_ticks (Some content) = of_nat (user + system)"
proof -
  let ?rest = "concat (map (\<lambda>w. CHR '' '' # w) entries) @ [newline]"
  have "CHR '')'' \<notin> set ?rest" using assms(3) by auto
  then have "after_last_paren content = Some ?rest"
    using after_last_paren_eq [of ?rest "before @ '' ('' @ name"] unfolding assms(1) by simp
  moreover have "words_of ?rest = entries" using assms(3) by (intro words_of_fields) auto
  ultimately show ?thesis
    using assms(2,4-7) strtoull_show [of user] strtoull_show [of system] by (simp add: read_proc_self_stat_ticks_def Let_def)
qed

text \<open>A process called \<open>a) b\<close>.\<close>

theorem stat_ticks_any_name_witness:
  "read_proc_self_stat_ticks (Some (''7 (a) b) S 1 2 3 4 5 6 7 8 9 0 25 17 1'' @ [newline])) = 42"
proof -
  have entries: "''25'' = show_nat 10 25" "''17'' = show_nat 10 17" by (simp_all add: show_nat.simps digit_char_def)
  show ?thesis
    using stat_ticks_any_name [of "''7 (a) b) S 1 2 3 4 5 6 7 8 9 0 25 17 1'' @ [newline]" "''7''" "''a) b''"
        "[''S'', ''1'', ''2'', ''3'', ''4'', ''5'', ''6'', ''7'', ''8'', ''9'', ''0'', ''25'', ''17'', ''1'']" 25 17]
    by (simp add: is_space_def entries [symmetric])
qed

section \<open>The percentages account for the time used\<close>

fun cpu_samples :: "(nat \<times> int) list \<Rightarrow> cpu_state \<Rightarrow> rat list" where
  "cpu_samples [] s = []"
| "cpu_samples ((ticks, now) # xs) s = (let (pct, s1) = cpu_sample (of_nat ticks) now s in pct # cpu_samples xs s1)"

text \<open>Seconds between the samples, weighted with the percentages.\<close>

fun accounted :: "int \<Rightarrow> (nat \<times> int) list \<Rightarrow> rat list \<Rightarrow> rat" where
  "accounted t ((ticks, now) # xs) (pct # ps) = pct / 100 * (of_int (now - t) / 10 ^ 9) + accounted now xs ps"
| "accounted t _ _ = 0"

lemma accounted_from:
  assumes "sorted_wrt (\<lambda>(k, t) (k', t'). k \<le> k' \<and> t < t') ((k0, t0) # xs)" "\<forall>(k, t) \<in> set xs. k < 2 ^ 64" "k0 < 2 ^ 64"
    and "s = \<lparr>cs_ticks = of_nat k0, cs_wall = t0, cs_baseline = True, cs_clk_tck = clk\<rparr>" "0 < clk"
  shows "accounted t0 xs (cpu_samples xs s) = of_nat (fst (last ((k0, t0) # xs)) - k0) / of_int clk"
  using assms
proof (induction xs arbitrary: k0 t0 s)
  case (Cons x xs)
  obtain k t where x: "x = (k, t)" by fastforce
  let ?s = "\<lparr>cs_ticks = of_nat k, cs_wall = t, cs_baseline = True, cs_clk_tck = clk\<rparr>"
  have k: "k0 \<le> k" "t0 < t" "k < 2 ^ 64" using Cons.prems(1,2) x by auto
  have u: "unat (of_nat k - of_nat k0 :: u64) = k - k0"
  proof -
    have "(of_nat k - of_nat k0 :: u64) = of_nat (k - k0)" using k(1) by (simp add: of_nat_diff)
    then show ?thesis using k(3) by (simp add: unat_of_nat del: of_nat_diff)
  qed
  have IH: "accounted t xs (cpu_samples xs ?s) = of_nat (fst (last ((k, t) # xs)) - k) / of_int clk"
    using Cons.prems x by (intro Cons.IH) auto
  have top: "k \<le> fst (last ((k, t) # xs))"
    using Cons.prems(1) x by (cases xs rule: rev_cases) (auto simp: sorted_wrt_append)
  have "last ((k0, t0) # x # xs) = last ((k, t) # xs)" by (simp add: x)
  define d :: rat where "d = of_nat (k - k0) / of_int clk"
  define w :: rat where "w = of_int (t - t0) / 10 ^ 9"
  have "0 < w" using k(2) by (simp add: w_def)
  have "cpu_sample (of_nat k) t s = (if w \<le> 0 then 0 else d / w * 100, ?s)"
    by (simp only: cpu_sample_def Let_def Cons.prems(4) d_def w_def u [symmetric]) simp
  then have "accounted t0 (x # xs) (cpu_samples (x # xs) s) = d / w * 100 / 100 * w + accounted t xs (cpu_samples xs ?s)"
    using \<open>0 < w\<close> by (simp add: x w_def)
  also have "\<dots> = d + of_nat (fst (last ((k, t) # xs)) - k) / of_int clk" using \<open>0 < w\<close> IH by simp
  also have "\<dots> = of_nat (fst (last ((k, t) # xs)) - k0) / of_int clk"
    using k(1) top by (simp add: d_def of_nat_diff diff_divide_distrib)
  finally show ?case using \<open>last ((k0, t0) # x # xs) = last ((k, t) # xs)\<close> by simp
qed simp

text \<open>
  The processor percentages in the log add up: over any series of samples with a running clock and
  growing counters, the time between two samples weighted with the percentages reported is exactly the
  processor time used between the first and the last sample.
\<close>

theorem cpu_percentages_account:
  assumes "sorted_wrt (\<lambda>(k, t) (k', t'). k \<le> k' \<and> t < t') ((k0, t0) # xs)" "\<forall>(k, t) \<in> set ((k0, t0) # xs). k < 2 ^ 64"
    and "0 < clk"
  shows "accounted t ((k0, t0) # xs) (cpu_samples ((k0, t0) # xs) (cpu_sampler_new clk)) =
    of_nat (fst (last ((k0, t0) # xs)) - k0) / of_int clk"
proof -
  have "cpu_sample (of_nat k0) t0 (cpu_sampler_new clk) =
      (0, \<lparr>cs_ticks = of_nat k0, cs_wall = t0, cs_baseline = True, cs_clk_tck = clk\<rparr>)"
    using assms(3) by (simp add: cpu_sample_def cpu_sampler_new_def)
  then show ?thesis using accounted_from [OF assms(1) _ _ refl assms(3)] assms(2) by simp
qed

theorem cpu_percentages_account_witness:
  "cpu_samples [(0, 0), (50, 10 ^ 9), (150, 3 * 10 ^ 9)] (cpu_sampler_new 100) = [0, 50, 50] \<and>
   accounted 0 [(0, 0), (50, 10 ^ 9), (150, 3 * 10 ^ 9)] (cpu_samples [(0, 0), (50, 10 ^ 9), (150, 3 * 10 ^ 9)] (cpu_sampler_new 100)) = 3 / 2"
  using cpu_percentages_account [of 0 0 "[(50, 10 ^ 9), (150, 3 * 10 ^ 9)]" 100 0]
  by (simp add: cpu_sample_def cpu_sampler_new_def)

end
