(* ===== verification/AutoConnect.thy ===== *)
theory AutoConnect
  imports DiscoveryProtocol KnownPeers Connection
begin

text \<open>
  The Slave's automatic connection, \<^verbatim>\<open>src/app/auto_connect_pump.cpp\<close>: once per frame, when no client is
  busy, it connects to the first discovered Master that is trusted and not suppressed. A Master that
  sent kMsgGoAway, or that the user disconnected, is suppressed until a connection to it succeeds.
\<close>

section \<open>The pump\<close>

text \<open>What the pump reads each frame: the listener's peers (none before discovery has started), the
  status of the client if there is one, and the trust store.\<close>

record auto_env =
  ae_role :: role
  ae_peers :: "peer_info list option"
  ae_client :: "connection_info option"
  ae_known :: known_peers
  ae_enabled :: bool

definition busy :: "connection_info \<Rightarrow> bool" where
  "busy info \<longleftrightarrow> ci_state info = Connecting \<or> ci_state info = Pairing \<or> ci_state info = Connected"

definition note_client :: "connection_info \<Rightarrow> u64 set \<Rightarrow> u64 set" where
  "note_client info suppressed =
     (let s1 = (if ci_state info = Connected then suppressed - {ci_peer info} else suppressed)
      in if ci_go_away info then insert (ci_peer info) s1 else s1)"

definition eligible :: "known_peers \<Rightarrow> u64 set \<Rightarrow> peer_info \<Rightarrow> bool" where
  "eligible known suppressed p \<longleftrightarrow>
     peer_role p = Master \<and> tcp_port p \<noteq> 0 \<and> is_known (device_id p) known \<and> device_id p \<notin> suppressed"

text \<open>The peer a new client is started for, if any, and the suppressed devices.\<close>

definition pump_auto_connect :: "auto_env \<Rightarrow> u64 set \<Rightarrow> peer_info option \<times> u64 set" where
  "pump_auto_connect env suppressed =
     (if ae_role env \<noteq> Slave then (None, suppressed)
      else case ae_peers env of
        None \<Rightarrow> (None, suppressed)
      | Some peers \<Rightarrow>
          (let s1 = (case ae_client env of None \<Rightarrow> suppressed | Some info \<Rightarrow> note_client info suppressed)
           in if (case ae_client env of None \<Rightarrow> False | Some info \<Rightarrow> busy info) then (None, s1)
              else if \<not> ae_enabled env then (None, s1)
              else (find (eligible (ae_known env) s1) peers, s1)))"

section \<open>Who is connected to\<close>

lemma pump_started:
  assumes "pump_auto_connect env suppressed = (Some p, s')"
  shows "ae_role env = Slave \<and> ae_enabled env \<and> (\<forall>info. ae_client env = Some info \<longrightarrow> \<not> busy info) \<and>
    ae_peers env \<noteq> None \<and> p \<in> set (the (ae_peers env)) \<and> eligible (ae_known env) s' p"
  using assms
  by (auto simp: pump_auto_connect_def Let_def find_Some_iff split: if_splits option.splits)

text \<open>When a frame ends a suppression.\<close>

definition lifts :: "u64 \<Rightarrow> auto_env \<Rightarrow> bool" where
  "lifts d env \<longleftrightarrow>
     (\<exists>info. ae_client env = Some info \<and> ci_state info = Connected \<and> ci_peer info = d \<and> \<not> ci_go_away info)"

lemma pump_keeps_suppressed:
  assumes "d \<in> suppressed" "\<not> lifts d env"
  shows "d \<in> snd (pump_auto_connect env suppressed)"
  using assms
  by (auto simp: pump_auto_connect_def note_client_def lifts_def Let_def split: option.split)

text \<open>A run: the peers for which a client is started, frame by frame.\<close>

fun auto_run :: "auto_env list \<Rightarrow> u64 set \<Rightarrow> peer_info option list" where
  "auto_run [] suppressed = []"
| "auto_run (env # envs) suppressed =
     (let (started, s') = pump_auto_connect env suppressed in started # auto_run envs s')"

lemma suppressed_not_started:
  assumes "d \<in> suppressed" "\<forall>env \<in> set envs. \<not> lifts d env" "Some p \<in> set (auto_run envs suppressed)"
  shows "device_id p \<noteq> d"
  using assms
proof (induction envs arbitrary: suppressed)
  case (Cons env envs)
  obtain st s' where p: "pump_auto_connect env suppressed = (st, s')" by fastforce
  have s': "d \<in> s'" using pump_keeps_suppressed [OF Cons.prems(1), of env] Cons.prems(2) p by simp
  show ?case
  proof (cases "st = Some p")
    case True
    with pump_started [of env suppressed p s'] p s' show ?thesis by (auto simp: eligible_def)
  next
    case False
    with Cons.prems p have "Some p \<in> set (auto_run envs s')" by auto
    from Cons.IH [OF s' _ this] Cons.prems(2) show ?thesis by simp
  qed
qed simp

lemma auto_run_peers:
  "Some p \<in> set (auto_run es suppressed) \<Longrightarrow> \<exists>e \<in> set es. p \<in> set (the (ae_peers e))"
proof (induction es arbitrary: suppressed)
  case (Cons e es)
  obtain st s' where "pump_auto_connect e suppressed = (st, s')" by fastforce
  with Cons pump_started [of e suppressed p s'] show ?case by auto
qed simp

lemma length_auto_run [simp]: "length (auto_run es suppressed) = length es"
  by (induction es arbitrary: suppressed) (auto split: prod.split)

text \<open>
  A Master that told the Slave to go away is left alone: after a frame whose client status carries
  the notice of device \<open>d\<close>, no frame starts a client for \<open>d\<close>, however long it is announced, trusted and
  automatic connection enabled, as long as no client reports a connection to \<open>d\<close> without the notice.
  Every client that is started goes to an announced, trusted Master, on a Slave with automatic
  connection enabled and no client at work.
\<close>

theorem goaway_suppresses_auto_connect:
  assumes "ae_role env = Slave" "ae_peers env \<noteq> None" "ae_client env = Some info" "ci_go_away info" "ci_peer info = d"
    and "\<forall>e \<in> set envs. \<not> lifts d e" "started = auto_run (env # envs) suppressed"
  shows "(\<forall>p. Some p \<in> set started \<longrightarrow> device_id p \<noteq> d) \<and>
    (\<forall>i < length started. \<forall>p. started ! i = Some p \<longrightarrow>
       (let e = (env # envs) ! i in
        ae_role e = Slave \<and> ae_enabled e \<and> (\<forall>info. ae_client e = Some info \<longrightarrow> \<not> busy info) \<and>
        p \<in> set (the (ae_peers e)) \<and> peer_role p = Master \<and> tcp_port p \<noteq> 0 \<and> is_known (device_id p) (ae_known e)))"
proof
  obtain st s' where p: "pump_auto_connect env suppressed = (st, s')" by fastforce
  have d: "d \<in> s'"
    using assms(1-5) p by (auto simp: pump_auto_connect_def note_client_def Let_def split: if_splits)
  have first: "device_id p1 \<noteq> d" if "st = Some p1" for p1
    using pump_started [of env suppressed p1 s'] p that d by (auto simp: eligible_def)
  show "\<forall>p. Some p \<in> set started \<longrightarrow> device_id p \<noteq> d"
    using first suppressed_not_started [OF d assms(6)] by (auto simp: assms(7) p)
next
  have each: "let e = es ! i in
        ae_role e = Slave \<and> ae_enabled e \<and> (\<forall>info. ae_client e = Some info \<longrightarrow> \<not> busy info) \<and>
        p \<in> set (the (ae_peers e)) \<and> peer_role p = Master \<and> tcp_port p \<noteq> 0 \<and> is_known (device_id p) (ae_known e)"
    if "i < length (auto_run es S)" "auto_run es S ! i = Some p" for es S i p
    using that
  proof (induction es arbitrary: S i)
    case (Cons e es)
    obtain st s' where q: "pump_auto_connect e S = (st, s')" by fastforce
    show ?case
    proof (cases i)
      case 0
      with Cons.prems q pump_started [of e S p s'] show ?thesis by (auto simp: eligible_def)
    next
      case (Suc j)
      with Cons.prems q Cons.IH [of j s'] show ?thesis by simp
    qed
  qed simp
  show "\<forall>i < length started. \<forall>p. started ! i = Some p \<longrightarrow>
       (let e = (env # envs) ! i in
        ae_role e = Slave \<and> ae_enabled e \<and> (\<forall>info. ae_client e = Some info \<longrightarrow> \<not> busy info) \<and>
        p \<in> set (the (ae_peers e)) \<and> peer_role p = Master \<and> tcp_port p \<noteq> 0 \<and> is_known (device_id p) (ae_known e))"
    using each [of _ "env # envs" suppressed] unfolding assms(7) by blast
qed

section \<open>The suppression does not survive the client's own retry\<close>

definition demo_master :: peer_info where
  "demo_master = \<lparr>device_id = 1, hostname = [], peer_role = Master, tcp_port = 9000, ip_address = [], last_seen = 0\<rparr>"

definition demo_auto :: "connection_info option \<Rightarrow> auto_env" where
  "demo_auto client = \<lparr>ae_role = Slave, ae_peers = Some [demo_master], ae_client = client,
     ae_known = \<lparr>kp_peers = [(1, replicate 32 2)], kp_file = [], kp_writable = True\<rparr>, ae_enabled = True\<rparr>"

definition demo_status :: "connection_state \<Rightarrow> bool \<Rightarrow> connection_info" where
  "demo_status st away = no_connection\<lparr>ci_state := st, ci_peer := 1, ci_go_away := away\<rparr>"

theorem goaway_suppresses_auto_connect_witness:
  "set (auto_run [demo_auto (Some (demo_status Connected True)), demo_auto (Some (demo_status Failed True)), demo_auto None] {})
     = {None} \<and> auto_run [demo_auto None] {} = [Some demo_master]"
proof -
  let ?es = "[demo_auto (Some (demo_status Failed True)), demo_auto None]"
  let ?e = "demo_auto (Some (demo_status Connected True))"
  define started where "started = auto_run (?e # ?es) {}"
  have l: "\<forall>e \<in> set ?es. \<not> lifts 1 e" by (simp add: lifts_def demo_auto_def demo_status_def)
  have "Some p \<in> set started \<Longrightarrow> device_id p \<noteq> 1" for p
    using goaway_suppresses_auto_connect [OF _ _ _ _ _ l, of ?e "demo_status Connected True" started "{}"]
    by (simp add: demo_auto_def demo_status_def started_def)
  moreover have "Some p \<in> set started \<Longrightarrow> p = demo_master" for p
    using auto_run_peers [of p "?e # ?es" "{}"] by (simp add: started_def demo_auto_def)
  ultimately have none: "Some p \<notin> set started" for p by (fastforce simp: demo_master_def)
  have "length started = 3" by (simp add: started_def del: auto_run.simps)
  then have "started \<noteq> []" by auto
  then have "set started = {None}" using none by (cases started) (auto, metis not_None_eq, metis not_None_eq)
  moreover have "auto_run [demo_auto None] {} = [Some demo_master]"
    by (simp add: pump_auto_connect_def demo_auto_def demo_master_def eligible_def is_known_def)
  ultimately show ?thesis unfolding started_def by blast
qed

text \<open>
  The client that received the notice keeps retrying by itself; its next handshake makes the status
  Connected without the notice while the Master still waits for the user's approval, and that lifts
  the suppression, so a fresh client would be started again when this one gives up.
\<close>

theorem retry_lifts_suppression:
  "snd (pump_auto_connect (demo_auto (Some (demo_status Connected True))) {}) = {1} \<and>
   auto_run [demo_auto (Some (demo_status Connected True)), demo_auto (Some (demo_status Connecting False)),
     demo_auto (Some (demo_status Connected False)), demo_auto (Some (demo_status Failed False))] {} =
     [None, None, None, Some demo_master]"
  by (simp add: pump_auto_connect_def note_client_def busy_def demo_auto_def demo_status_def demo_master_def
      eligible_def is_known_def)

end
