(* ===== verification/UserSettings.thy ===== *)
theory UserSettings
  imports TextIO Playback
begin

text \<open>
  The settings file of \<^verbatim>\<open>src/discovery/user_settings.cpp\<close>.
\<close>

section \<open>Data and operations\<close>

record user_settings =
  us_timeout :: int
  us_auto_connect :: bool
  us_slave_send :: bool
  us_slave_format :: audio_format
  us_master_overridden :: bool
  us_master_send :: bool
  us_master_format :: audio_format

definition default_settings :: user_settings where
  "default_settings =
     \<lparr>us_timeout = 10, us_auto_connect = True, us_slave_send = True, us_slave_format = default_format,
      us_master_overridden = False, us_master_send = True, us_master_format = default_format\<rparr>"

definition kMaxConnectionTimeoutSeconds :: int where "kMaxConnectionTimeoutSeconds = 3600"

definition valid_format :: "audio_format \<Rightarrow> bool" where
  "valid_format f \<longleftrightarrow> (sample_rate f = 24000 \<or> sample_rate f = 48000) \<and> (bit_depth f = 8 \<or> bit_depth f = 16)"

definition read_format :: "istream \<Rightarrow> audio_format \<Rightarrow> audio_format \<times> istream" where
  "read_format st format =
     (let (rate, st1) = read_unsigned 10 (2 ^ 32) st; (depth, st2) = read_unsigned 10 (2 ^ 32) st1 in
      case (rate, depth) of
        (Some r, Some d) \<Rightarrow>
          (let candidate = \<lparr>sample_rate = of_nat r, bit_depth = of_nat d\<rparr> in
           (if valid_format candidate then candidate else format, st2))
      | _ \<Rightarrow> (format, st2))"

text \<open>\<^verbatim>\<open>if (in >> value && (value == 0 || value == 1)) field = value != 0;\<close>\<close>

definition read_flag :: "istream \<Rightarrow> bool \<Rightarrow> bool \<times> istream" where
  "read_flag st field =
     (case read_int st of
        (Some v, st') \<Rightarrow> (if v = 0 \<or> v = 1 then v \<noteq> 0 else field, st')
      | (None, st') \<Rightarrow> (field, st'))"

text \<open>The body of the loop for a key that has just been read.\<close>

definition load_entry :: "string \<Rightarrow> istream \<Rightarrow> user_settings \<Rightarrow> user_settings \<times> istream" where
  "load_entry key st s =
     (if key = ''connection_timeout_s'' then
        (case read_int st of
           (Some v, st') \<Rightarrow>
             (if 1 \<le> v \<and> v \<le> kMaxConnectionTimeoutSeconds then s\<lparr>us_timeout := v\<rparr> else s, st')
         | (None, st') \<Rightarrow> (s, st'))
      else if key = ''auto_connect_enabled'' then
        (let (v, st1) = read_flag st (us_auto_connect s) in (s\<lparr>us_auto_connect := v\<rparr>, st1))
      else if key = ''slave_audio'' then
        (let (v, st1) = read_flag st (us_slave_send s); (f, st2) = read_format st1 (us_slave_format s)
         in (s\<lparr>us_slave_send := v, us_slave_format := f\<rparr>, st2))
      else if key = ''master_audio'' then
        (let (ov, st1) = read_flag st (us_master_overridden s); (en, st2) = read_flag st1 (us_master_send s);
             (f, st3) = read_format st2 (us_master_format s)
         in (s\<lparr>us_master_overridden := ov, us_master_send := en, us_master_format := f\<rparr>, st3))
      else (s, snd (get_line st)))"

text \<open>Every operation leaves at most the text it was given, and reading a word leaves less.\<close>

lemma length_dropWhile: "length (dropWhile P t) \<le> length t"
  by (induction t) auto

lemma strip_prefix_shorter: "length (strip_prefix b t) \<le> length t"
  by (auto simp: strip_prefix_def split: list.split)

lemma scan_number_shorter: "scan_number b t = (n, ds, r) \<Longrightarrow> length r \<le> length t"
proof -
  assume "scan_number b t = (n, ds, r)"
  then obtain u where u: "r = dropWhile (is_digit b) (strip_prefix b u)" "length u \<le> length (dropWhile is_space t)"
    by (auto simp: scan_number_def Let_def split: if_splits)
  have "length r \<le> length (strip_prefix b u)" unfolding u(1) by (rule length_dropWhile)
  also have "\<dots> \<le> length u" by (rule strip_prefix_shorter)
  also note u(2)
  also note length_dropWhile [of is_space t]
  finally show "length r \<le> length t" .
qed

lemma read_int_shorter: "read_int st = (i, st') \<Longrightarrow> length (is_text st') \<le> length (is_text st)"
  by (auto simp: read_int_def Let_def dest: scan_number_shorter split: if_splits prod.splits)

lemma read_unsigned_shorter: "read_unsigned b l st = (n, st') \<Longrightarrow> length (is_text st') \<le> length (is_text st)"
  by (auto simp: read_unsigned_def Let_def dest: scan_number_shorter split: if_splits prod.splits)

lemma get_line_shorter: "length (is_text (snd (get_line st))) \<le> length (is_text st)"
  by (simp add: get_line_def Let_def)

lemma read_word_shorter:
  assumes "read_word st = (Some w, st')"
  shows "length (is_text st') < length (is_text st)"
proof -
  let ?t = "dropWhile is_space (is_text st)"
  have t: "?t \<noteq> []" "is_text st' = dropWhile (\<lambda>c. \<not> is_space c) ?t"
    using assms by (auto simp: read_word_def Let_def split: if_splits)
  then have "\<not> is_space (hd ?t)" using hd_dropWhile by blast
  then have "is_text st' = dropWhile (\<lambda>c. \<not> is_space c) (tl ?t)" using t by (cases ?t) auto
  then have "length (is_text st') \<le> length (tl ?t)" using length_dropWhile [of _ "tl ?t"] by metis
  also have "\<dots> < length ?t" using t(1) by simp
  also have "\<dots> \<le> length (is_text st)" by (rule length_dropWhile)
  finally show ?thesis .
qed

lemma read_flag_shorter: "read_flag st f = (v, st') \<Longrightarrow> length (is_text st') \<le> length (is_text st)"
  by (auto simp: read_flag_def dest: read_int_shorter split: prod.splits option.splits)

lemma read_format_shorter:
  assumes "read_format st f = (v, st')"
  shows "length (is_text st') \<le> length (is_text st)"
proof -
  obtain r st1 d st2 where r: "read_unsigned 10 (2 ^ 32) st = (r, st1)" "read_unsigned 10 (2 ^ 32) st1 = (d, st2)"
    by (metis surj_pair)
  then have "st' = st2" using assms by (auto simp: read_format_def Let_def split: option.splits)
  with read_unsigned_shorter [OF r(1)] read_unsigned_shorter [OF r(2)] show ?thesis by simp
qed

lemma load_entry_shorter: "length (is_text (snd (load_entry key st s))) \<le> length (is_text st)"
proof -
  obtain a st1 b st2 c st3 d st4 e st5 where r:
    "read_int st = (a, st1)" "read_flag st (us_auto_connect s) = (b, st2)"
    "read_flag st (us_slave_send s) = (c, st3)" "read_flag st (us_master_overridden s) = (d, st4)"
    "read_flag st4 (us_master_send s) = (e, st5)" by (metis surj_pair)
  obtain f st6 g st7 where r2: "read_format st3 (us_slave_format s) = (f, st6)"
    "read_format st5 (us_master_format s) = (g, st7)" by (metis surj_pair)
  show ?thesis
    using r r2 read_int_shorter [OF r(1)] read_flag_shorter [OF r(2)] read_flag_shorter [OF r(3)]
      read_flag_shorter [OF r(4)] read_flag_shorter [OF r(5)] read_format_shorter [OF r2(1)]
      read_format_shorter [OF r2(2)] get_line_shorter [of st]
    by (auto simp: load_entry_def Let_def split: option.split)
qed

text \<open>\<^verbatim>\<open>while (in >> key)\<close>: ends because every key consumes text.\<close>

function load_loop :: "istream \<Rightarrow> user_settings \<Rightarrow> user_settings" where
  "load_loop st s =
     (case read_word st of
        (None, _) \<Rightarrow> s
      | (Some key, st1) \<Rightarrow> (let (s', st2) = load_entry key st1 s in load_loop st2 s'))"
  by pat_completeness auto

termination
proof (relation "measure (\<lambda>(st, s). length (is_text st))", goal_cases)
  case (2 st s r st1 key q s' st2)
  then have "length (is_text st2) \<le> length (is_text st1)" using load_entry_shorter [of key st1 s] by (metis snd_conv)
  moreover have "read_word st = (Some key, st1)" using 2 by simp
  then have "length (is_text st1) < length (is_text st)" by (rule read_word_shorter)
  ultimately show ?case by simp
qed simp

declare load_loop.simps [simp del]

definition load_user_settings :: "string \<Rightarrow> user_settings" where
  "load_user_settings text = load_loop (open_text text) default_settings"

definition flag_text :: "bool \<Rightarrow> string" where
  "flag_text b = (if b then ''1'' else ''0'')"

definition format_text :: "audio_format \<Rightarrow> string" where
  "format_text f = show_nat 10 (unat (sample_rate f)) @ '' '' @ show_nat 10 (unat (bit_depth f))"

definition save_user_settings :: "user_settings \<Rightarrow> string" where
  "save_user_settings s =
     ''connection_timeout_s '' @ show_int (min (max (us_timeout s) 1) kMaxConnectionTimeoutSeconds) @ [newline] @
     ''auto_connect_enabled '' @ flag_text (us_auto_connect s) @ [newline] @
     ''slave_audio '' @ flag_text (us_slave_send s) @ '' '' @ format_text (us_slave_format s) @ [newline] @
     ''master_audio '' @ flag_text (us_master_overridden s) @ '' '' @ flag_text (us_master_send s) @ '' '' @
       format_text (us_master_format s) @ [newline]"

section \<open>Saved settings are loaded back\<close>

abbreviation at :: "string \<Rightarrow> istream" where "at t \<equiv> \<lparr>is_text = t, is_ok = True\<rparr>"

lemma flag_is_int: "flag_text b = show_int (if b then 1 else 0)"
  by (simp add: flag_text_def show_int_def show_nat.simps digit_char_def)

lemma read_flag_text: "token_end r \<Longrightarrow> read_flag (at (flag_text b @ r)) f = (b, at r)"
  using read_show_int [of r "if b then 1 else 0"] by (simp add: read_flag_def flag_is_int in_i32_def)

lemma read_format_text:
  assumes "valid_format f" "token_end r"
  shows "read_format (at (format_text f @ r)) g = (f, at r)"
proof -
  have "unat (sample_rate f) < 2 ^ 32" "unat (bit_depth f) < 2 ^ 32"
    using unat_lt2p [of "sample_rate f"] unat_lt2p [of "bit_depth f"] by simp_all
  then have "read_unsigned 10 (2 ^ 32) (at (format_text f @ r)) =
      (Some (unat (sample_rate f)), at ('' '' @ show_nat 10 (unat (bit_depth f)) @ r))"
    "read_unsigned 10 (2 ^ 32) (at (show_nat 10 (unat (bit_depth f)) @ r)) = (Some (unat (bit_depth f)), at r)"
    using read_show_nat assms(2) by (simp_all add: format_text_def)
  with assms(1) show ?thesis by (cases f) (simp add: read_format_def)
qed

lemma read_flag_skip: "read_flag (at (CHR '' '' # t)) f = read_flag (at t) f"
  by (simp add: read_flag_def)

lemma read_format_skip: "read_format (at (CHR '' '' # t)) f = read_format (at t) f"
  by (simp add: read_format_def)

lemma load_loop_key:
  assumes "key \<noteq> []" "\<forall>c \<in> set key. \<not> is_space c" "load_entry key (at (CHR '' '' # t)) s = (s', at (newline # r))"
  shows "load_loop (at (key @ CHR '' '' # t)) s = load_loop (at r) s'"
    and "load_loop (at (newline # key @ CHR '' '' # t)) s = load_loop (at r) s'"
proof -
  have nl: "load_loop (at (newline # u)) q = load_loop (at u) q" for u q
    by (subst (1 2) load_loop.simps) simp
  have "read_word (at (key @ CHR '' '' # t)) = (Some key, at (CHR '' '' # t))"
    using assms(1,2) by (intro read_word_token) simp_all
  then show main: "load_loop (at (key @ CHR '' '' # t)) s = load_loop (at r) s'"
    using assms(3) by (subst load_loop.simps) (simp add: nl)
  from main show "load_loop (at (newline # key @ CHR '' '' # t)) s = load_loop (at r) s'"
    by (simp add: nl)
qed

lemma load_save_settings:
  assumes "valid_format (us_slave_format s)" "valid_format (us_master_format s)"
  shows "load_user_settings (save_user_settings s) = s\<lparr>us_timeout := min (max (us_timeout s) 1) 3600\<rparr>"
proof -
  let ?v = "min (max (us_timeout s) 1) 3600"
  let ?t4 = "''master_audio'' @ CHR '' '' # flag_text (us_master_overridden s) @ CHR '' '' # flag_text (us_master_send s) @
    CHR '' '' # format_text (us_master_format s) @ newline # []"
  let ?t3 = "''slave_audio'' @ CHR '' '' # flag_text (us_slave_send s) @ CHR '' '' # format_text (us_slave_format s) @ newline # ?t4"
  let ?t2 = "''auto_connect_enabled'' @ CHR '' '' # flag_text (us_auto_connect s) @ newline # ?t3"
  have saved: "save_user_settings s = ''connection_timeout_s'' @ CHR '' '' # show_int ?v @ newline # ?t2"
    by (simp add: save_user_settings_def kMaxConnectionTimeoutSeconds_def)
  have "read_int (at (show_int ?v @ newline # ?t2)) = (Some ?v, at (newline # ?t2))"
    by (rule read_show_int) (auto simp: in_i32_def)
  then have 1: "load_loop (at (save_user_settings s)) q = load_loop (at ?t2) (q\<lparr>us_timeout := ?v\<rparr>)" for q
    unfolding saved by (intro load_loop_key)
      (simp_all add: is_space_def load_entry_def kMaxConnectionTimeoutSeconds_def)
  have 2: "load_loop (at ?t2) q = load_loop (at ?t3) (q\<lparr>us_auto_connect := us_auto_connect s\<rparr>)" for q
    by (intro load_loop_key) (simp_all add: is_space_def load_entry_def read_flag_skip read_flag_text)
  have 3: "load_loop (at ?t3) q = load_loop (at ?t4)
      (q\<lparr>us_slave_send := us_slave_send s, us_slave_format := us_slave_format s\<rparr>)" for q
    by (intro load_loop_key) (simp_all add: is_space_def load_entry_def read_flag_skip read_flag_text
        read_format_skip read_format_text assms)
  have 4: "load_loop (at ?t4) q = load_loop (at []) (q\<lparr>us_master_overridden := us_master_overridden s,
      us_master_send := us_master_send s, us_master_format := us_master_format s\<rparr>)" for q
    by (intro load_loop_key) (simp_all add: is_space_def load_entry_def read_flag_skip read_flag_text
        read_format_skip read_format_text assms)
  have 5: "load_loop (at []) q = q" for q by (subst load_loop.simps) (simp add: read_word_def)
  show ?thesis unfolding load_user_settings_def open_text_def 1 2 3 4 5 by (cases s) simp
qed

text \<open>
  Settings with one of the offered audio formats survive a program restart: loading what was saved
  gives the same settings, the connection timeout brought into its range of 1 to 3600 seconds.
\<close>

theorem settings_roundtrip:
  assumes "valid_format (us_slave_format s)" "valid_format (us_master_format s)"
  shows "load_user_settings (save_user_settings s) = s\<lparr>us_timeout := min (max (us_timeout s) 1) 3600\<rparr>"
  by (rule load_save_settings [OF assms])

theorem settings_roundtrip_witness:
  "us_slave_format (load_user_settings (save_user_settings
     (default_settings\<lparr>us_slave_format := \<lparr>sample_rate = 24000, bit_depth = 8\<rparr>, us_timeout := 9999\<rparr>))) =
   \<lparr>sample_rate = 24000, bit_depth = 8\<rparr>"
  by (subst settings_roundtrip)
    (simp_all add: default_settings_def default_format_def valid_format_def)

section \<open>A malformed value\<close>

text \<open>
  A value that is not a number ends the loading: whatever follows it in the file is ignored, valid
  settings included, and those settings keep their defaults.
\<close>

theorem malformed_timeout_hides_rest:
  "load_user_settings (''connection_timeout_s soon'' @ newline # rest) = default_settings"
proof -
  have w: "read_word (at (''connection_timeout_s'' @ CHR '' '' # ''soon'' @ newline # rest)) =
      (Some ''connection_timeout_s'', at (CHR '' '' # ''soon'' @ newline # rest))"
    by (rule read_word_token) (simp_all add: is_space_def)
  have s: "scan_number 10 (''soon'' @ newline # rest) = (False, [], ''soon'' @ newline # rest)"
    by (simp add: scan_number_def is_space_def Let_def strip_prefix_def is_digit_def digit_value_def)
  have failed: "load_loop \<lparr>is_text = t, is_ok = False\<rparr> q = q" for t q
    by (subst load_loop.simps) (simp add: read_word_def)
  have "load_entry ''connection_timeout_s'' (at (CHR '' '' # ''soon'' @ newline # rest)) default_settings =
      (default_settings, \<lparr>is_text = ''soon'' @ newline # rest, is_ok = False\<rparr>)"
    unfolding load_entry_def using s by (simp add: read_int_def scan_number_skip)
  with w have "load_loop (at (''connection_timeout_s'' @ CHR '' '' # ''soon'' @ newline # rest)) default_settings =
      default_settings"
    by (subst load_loop.simps) (simp add: failed)
  then show ?thesis by (simp add: load_user_settings_def open_text_def)
qed

end
