(* ===== verification/Identity.thy ===== *)
theory Identity
  imports TextIO DiscoveryProtocol Noise
begin

text \<open>
  The identity files of \<^verbatim>\<open>src/discovery/identity.cpp\<close> (device id, last role) and
  \<^verbatim>\<open>src/discovery/static_keys.cpp\<close> (the static key pair). A file is an \<open>option\<close>: \<open>None\<close> when it
  does not exist; random values are arguments.
\<close>

section \<open>Operations\<close>

definition generate_device_id :: "u64 \<Rightarrow> u64 \<Rightarrow> u64" where
  "generate_device_id high low = push_bit 32 high XOR low"

text \<open>The result is the id and the file afterwards.\<close>

definition get_or_create_device_id :: "u64 \<Rightarrow> u64 \<Rightarrow> string option \<Rightarrow> u64 \<times> string option" where
  "get_or_create_device_id high low file =
     (case (case file of None \<Rightarrow> None | Some t \<Rightarrow> fst (read_hex64 (open_text t))) of
        Some i \<Rightarrow> (i, file)
      | None \<Rightarrow> (let i = generate_device_id high low in (i, Some (show_hex i))))"

definition get_last_role :: "string option \<Rightarrow> role option" where
  "get_last_role file =
     (case file of
        None \<Rightarrow> None
      | Some t \<Rightarrow>
          (case fst (read_int (open_text t)) of
             Some v \<Rightarrow> if v \<noteq> 0 \<and> v \<noteq> 1 then None else Some (if v = 0 then Master else Slave)
           | None \<Rightarrow> None))"

definition save_last_role :: "role \<Rightarrow> string option" where
  "save_last_role r = Some (show_int (case r of Master \<Rightarrow> 0 | Slave \<Rightarrow> 1))"

definition get_or_create_static_keypair :: "keypair \<Rightarrow> string option \<Rightarrow> keypair \<times> string option" where
  "get_or_create_static_keypair fresh file =
     (case (case file of
              None \<Rightarrow> None
            | Some t \<Rightarrow>
                (let (pub_hex, st1) = get_line (open_text t); (priv_hex, st2) = get_line st1 in
                 case (pub_hex, priv_hex) of
                   (Some p, Some q) \<Rightarrow>
                     (case (from_hex p, from_hex q) of
                        (Some pk, Some sk) \<Rightarrow> Some \<lparr>public_key = pk, private_key = sk\<rparr>
                      | _ \<Rightarrow> None)
                 | _ \<Rightarrow> None)) of
        Some kp \<Rightarrow> (kp, file)
      | None \<Rightarrow> (fresh, Some (to_hex (public_key fresh) @ [newline] @ to_hex (private_key fresh) @ [newline])))"

section \<open>Stability\<close>

lemma get_line_text: "newline \<notin> set l \<Longrightarrow>
    get_line \<lparr>is_text = l @ newline # r, is_ok = True\<rparr> = (Some l, \<lparr>is_text = r, is_ok = True\<rparr>)"
  by (simp add: get_line_def takeWhile_line)

lemma device_id_stable:
  "fst (get_or_create_device_id h' l' (snd (get_or_create_device_id h l file))) = fst (get_or_create_device_id h l file)"
  using read_show_hex [of "[]" "generate_device_id h l"]
  by (auto simp: get_or_create_device_id_def open_text_def Let_def split: option.splits)

lemma static_keypair_stable:
  assumes "length (public_key kp) = 32" "length (private_key kp) = 32"
  shows "fst (get_or_create_static_keypair kp' (snd (get_or_create_static_keypair kp file))) =
    fst (get_or_create_static_keypair kp file)"
proof -
  have nl: "newline \<notin> set (to_hex k)" for k using to_hex_chars [of newline k] by auto
  have "fst (get_or_create_static_keypair kp'
      (Some (to_hex (public_key kp) @ [newline] @ to_hex (private_key kp) @ [newline]))) = kp"
    using get_line_text [OF nl] from_to_hex assms
    by (simp add: get_or_create_static_keypair_def open_text_def)
  moreover have "get_or_create_static_keypair kp file =
      (kp, Some (to_hex (public_key kp) @ [newline] @ to_hex (private_key kp) @ [newline])) \<or>
    (\<exists>k. \<forall>f. get_or_create_static_keypair f file = (k, file))"
    unfolding get_or_create_static_keypair_def by (auto split: option.split)
  ultimately show ?thesis by auto
qed

lemma get_save_last_role: "get_last_role (save_last_role r) = Some r"
  using read_show_int [of "[]" 0] read_show_int [of "[]" 1]
  by (cases r) (simp_all add: get_last_role_def save_last_role_def open_text_def in_i32_def)

text \<open>
  The identity of a machine is stable: whatever the identity files contain at first, the second
  program start gives the same device id, the same static key pair and the last role saved, whatever
  random values it could draw.
\<close>

theorem identity_stable:
  assumes "length (public_key kp) = 32" "length (private_key kp) = 32"
  shows "fst (get_or_create_device_id h' l' (snd (get_or_create_device_id h l id_file))) =
      fst (get_or_create_device_id h l id_file) \<and>
    fst (get_or_create_static_keypair kp' (snd (get_or_create_static_keypair kp key_file))) =
      fst (get_or_create_static_keypair kp key_file) \<and>
    get_last_role (save_last_role r) = Some r"
proof -
  show ?thesis using get_save_last_role device_id_stable static_keypair_stable [OF assms] by blast
qed

theorem identity_stable_witness:
  "fst (get_or_create_static_keypair (keypair_of toy_crypto (replicate 32 9))
     (snd (get_or_create_static_keypair (keypair_of toy_crypto (replicate 32 5)) None))) =
   keypair_of toy_crypto (replicate 32 5)"
  using identity_stable [of "keypair_of toy_crypto (replicate 32 5)" 0 0 0 0 None
      "keypair_of toy_crypto (replicate 32 9)" None Master]
  by (simp add: keypair_of_def toy_crypto_def get_or_create_static_keypair_def)

end
