(* ===== verification/App.thy ===== *)
theory App
  imports AutoConnect UserSettings Identity Handshake
begin

text \<open>
  The application around the components: the screens and buttons of \<^verbatim>\<open>src/app/ui.cpp\<close>, the start of
  discovery and the part of \<^verbatim>\<open>AppState\<close> they change. A step is one click that the current screen
  offers, news from the network threads, or one frame of the automatic connection. Rendering is not
  modelled: a button is a step that is possible where the code draws it.
\<close>

section \<open>State\<close>

datatype screen = RoleSelect | Discovery | ManageDevices | Arrangement

text \<open>A running \<^verbatim>\<open>TcpClient\<close>: where it connects to, its timeout and the status it reports.\<close>

record client_link =
  link_ip :: bytes
  link_port :: u16
  link_timeout :: int
  link_status :: connection_info

text \<open>A running \<^verbatim>\<open>TcpServer\<close>: its status, its timeout and the flags the buttons set.\<close>

record server_link =
  link_server_status :: connection_info
  link_heartbeat_timeout :: int
  link_decision :: pairing_decision
  link_disconnect :: bool

text \<open>What an \<^verbatim>\<open>Announcer\<close> is constructed with.\<close>

record announcement =
  ann_device :: u64
  ann_role :: role
  ann_port :: u16
  ann_host :: bytes

record app =
  ap_screen :: screen
  ap_previous :: screen
  ap_role :: role
  ap_device :: u64
  ap_host :: bytes
  ap_known :: known_peers
  ap_announcer :: "announcement option"
  ap_listener :: "peer_table option"
  ap_server :: "server_link option"
  ap_client :: "client_link option"
  ap_timeout :: int
  ap_auto :: bool
  ap_suppressed :: "u64 set"
  ap_audio_send :: bool
  ap_audio_format :: audio_format
  ap_master_send :: bool
  ap_master_format :: audio_format
  ap_overridden :: bool
  ap_role_file :: "string option"
  ap_settings_file :: "string option"

section \<open>Start\<close>

definition start_discovery :: "role \<Rightarrow> u16 \<Rightarrow> app \<Rightarrow> app" where
  "start_discovery r port a =
     (let server = (if r = Master
                    then Some \<lparr>link_server_status = no_connection, link_heartbeat_timeout = ap_timeout a * 1000,
                               link_decision = Pending, link_disconnect = False\<rparr>
                    else ap_server a);
          tcp_port = (if r = Master then port else 0)
      in a\<lparr>ap_role := r, ap_role_file := save_last_role r, ap_server := server,
           ap_announcer := Some \<lparr>ann_device = ap_device a, ann_role = r, ann_port = tcp_port, ann_host = ap_host a\<rparr>,
           ap_listener := Some [], ap_screen := Discovery\<rparr>)"

definition resume_last_role :: "u16 \<Rightarrow> app \<Rightarrow> app" where
  "resume_last_role port a = (case get_last_role (ap_role_file a) of None \<Rightarrow> a | Some r \<Rightarrow> start_discovery r port a)"

text \<open>\<^verbatim>\<open>main\<close> up to the loop. A missing settings file leaves the defaults.\<close>

definition app_start :: "u64 \<Rightarrow> bytes \<Rightarrow> known_peers \<Rightarrow> string option \<Rightarrow> string option \<Rightarrow> u16 \<Rightarrow> app" where
  "app_start device host known role_file settings_file port =
     (let s = (case settings_file of None \<Rightarrow> default_settings | Some t \<Rightarrow> load_user_settings t)
      in resume_last_role port
        \<lparr>ap_screen = RoleSelect, ap_previous = RoleSelect, ap_role = Master, ap_device = device, ap_host = host,
         ap_known = known, ap_announcer = None, ap_listener = None, ap_server = None, ap_client = None,
         ap_timeout = us_timeout s, ap_auto = us_auto_connect s, ap_suppressed = {},
         ap_audio_send = us_slave_send s, ap_audio_format = us_slave_format s,
         ap_master_send = us_master_send s, ap_master_format = us_master_format s, ap_overridden = us_master_overridden s,
         ap_role_file = role_file, ap_settings_file = settings_file\<rparr>)"

section \<open>Handlers\<close>

definition current_settings :: "app \<Rightarrow> user_settings" where
  "current_settings a =
     \<lparr>us_timeout = ap_timeout a, us_auto_connect = ap_auto a, us_slave_send = ap_audio_send a,
      us_slave_format = ap_audio_format a, us_master_overridden = ap_overridden a,
      us_master_send = ap_master_send a, us_master_format = ap_master_format a\<rparr>"

definition save_settings :: "app \<Rightarrow> app" where
  "save_settings a = a\<lparr>ap_settings_file := Some (save_user_settings (current_settings a))\<rparr>"

definition resolve_peer_name :: "peer_info list \<Rightarrow> u64 \<Rightarrow> bytes \<Rightarrow> bytes" where
  "resolve_peer_name peers i fallback_ip =
     (case find (\<lambda>p. device_id p = i) peers of Some p \<Rightarrow> hostname p | None \<Rightarrow> fallback_ip)"

definition set_timeout :: "int \<Rightarrow> app \<Rightarrow> app" where
  "set_timeout v a =
     (let a1 = save_settings (a\<lparr>ap_timeout := max 1 v\<rparr>)
      in a1\<lparr>ap_server := map_option (\<lambda>s. s\<lparr>link_heartbeat_timeout := ap_timeout a1 * 1000\<rparr>) (ap_server a1)\<rparr>)"

definition set_auto_connect :: "bool \<Rightarrow> app \<Rightarrow> app" where
  "set_auto_connect b a = save_settings (a\<lparr>ap_auto := b\<rparr>)"

text \<open>A new client: it begins unconnected.\<close>

definition connect_to :: "peer_info \<Rightarrow> app \<Rightarrow> app" where
  "connect_to p a =
     a\<lparr>ap_client := Some \<lparr>link_ip = ip_address p, link_port = tcp_port p, link_timeout = ap_timeout a * 1000,
                          link_status = no_connection\<rparr>\<rparr>"

definition decide_pairing :: "pairing_decision \<Rightarrow> app \<Rightarrow> app" where
  "decide_pairing d a = a\<lparr>ap_server := map_option (\<lambda>s. s\<lparr>link_decision := d\<rparr>) (ap_server a)\<rparr>"

definition disconnect_slave :: "app \<Rightarrow> app" where
  "disconnect_slave a = a\<lparr>ap_server := map_option (\<lambda>s. s\<lparr>link_disconnect := True\<rparr>) (ap_server a)\<rparr>"

definition disconnect_master :: "app \<Rightarrow> app" where
  "disconnect_master a =
     (case ap_client a of
        None \<Rightarrow> a
      | Some l \<Rightarrow> a\<lparr>ap_suppressed := insert (ci_peer (link_status l)) (ap_suppressed a), ap_client := None\<rparr>)"

definition leave_discovery :: "app \<Rightarrow> app" where
  "leave_discovery a =
     a\<lparr>ap_announcer := None, ap_listener := None, ap_server := None, ap_client := None, ap_screen := RoleSelect\<rparr>"

definition forget_device :: "u64 \<Rightarrow> app \<Rightarrow> app" where
  "forget_device d a =
     (let a1 = a\<lparr>ap_known := forget d (ap_known a)\<rparr>;
          a2 = (case ap_server a1 of
                  Some s \<Rightarrow> (if ci_state (link_server_status s) = Connected \<and> ci_peer (link_server_status s) = d
                             then disconnect_slave a1 else a1)
                | None \<Rightarrow> a1)
      in case ap_client a2 of
           Some l \<Rightarrow> (if ci_state (link_status l) = Connected \<and> ci_peer (link_status l) = d
                      then a2\<lparr>ap_client := None\<rparr> else a2)
         | None \<Rightarrow> a2)"

text \<open>The audio tab: on the Slave the settings themselves, on the Master a request that overrides them.\<close>

datatype audio_choice = Send bool | Rate48 | Rate24 | Depth16 | Depth8

fun choose_format :: "audio_choice \<Rightarrow> audio_format \<Rightarrow> audio_format" where
  "choose_format (Send b) f = f"
| "choose_format Rate48 f = f\<lparr>sample_rate := 48000\<rparr>"
| "choose_format Rate24 f = f\<lparr>sample_rate := 24000\<rparr>"
| "choose_format Depth16 f = f\<lparr>bit_depth := 16\<rparr>"
| "choose_format Depth8 f = f\<lparr>bit_depth := 8\<rparr>"

fun choose_send :: "audio_choice \<Rightarrow> bool \<Rightarrow> bool" where
  "choose_send (Send b) _ = b"
| "choose_send _ b = b"

definition choose_audio :: "audio_choice \<Rightarrow> app \<Rightarrow> app" where
  "choose_audio ch a =
     save_settings
       (if ap_role a = Slave
        then a\<lparr>ap_audio_send := choose_send ch (ap_audio_send a), ap_audio_format := choose_format ch (ap_audio_format a)\<rparr>
        else a\<lparr>ap_master_send := choose_send ch (ap_master_send a), ap_master_format := choose_format ch (ap_master_format a),
               ap_overridden := True\<rparr>)"

text \<open>The automatic connection of one frame.\<close>

definition auto_frame :: "app \<Rightarrow> app" where
  "auto_frame a =
     (let env = \<lparr>ae_role = ap_role a, ae_peers = map_option peer_snapshot (ap_listener a),
                 ae_client = map_option link_status (ap_client a), ae_known = ap_known a, ae_enabled = ap_auto a\<rparr>;
          (started, suppressed) = pump_auto_connect env (ap_suppressed a);
          a1 = a\<lparr>ap_suppressed := suppressed\<rparr>
      in case started of None \<Rightarrow> a1 | Some p \<Rightarrow> connect_to p a1)"

section \<open>Steps\<close>

datatype app_event =
  Choose_role role u16
| Manage_devices
| Arrange_screens
| Leave_discovery
| Back
| Set_timeout int
| Set_auto bool
| Connect_to peer_info
| Decide pairing_decision
| Disconnect_slave
| Disconnect_master
| Forget u64
| Choose_audio audio_choice
| Heard peer_table
| Server_at connection_info
| Client_at connection_info
| Trusted u64 bytes
| Requested bool audio_format
| Mirrored bool audio_format
| Override_ends
| Escape_hotkey
| Frame

inductive app_step :: "app \<Rightarrow> app_event \<Rightarrow> app \<Rightarrow> bool" where
  choose_role: "ap_screen a = RoleSelect \<Longrightarrow> app_step a (Choose_role r port) (start_discovery r port a)"
| manage: "ap_screen a = RoleSelect \<or> ap_screen a = Discovery \<Longrightarrow>
    app_step a Manage_devices (a\<lparr>ap_previous := ap_screen a, ap_screen := ManageDevices\<rparr>)"
| arrange: "ap_screen a = Discovery \<Longrightarrow> ap_role a = Master \<Longrightarrow>
    app_step a Arrange_screens (a\<lparr>ap_previous := Discovery, ap_screen := Arrangement\<rparr>)"
| leave: "ap_screen a = Discovery \<Longrightarrow> app_step a Leave_discovery (leave_discovery a)"
| go_back: "ap_screen a = ManageDevices \<or> ap_screen a = Arrangement \<Longrightarrow>
    app_step a Back (a\<lparr>ap_screen := ap_previous a\<rparr>)"
| set_timeout: "ap_screen a = Discovery \<Longrightarrow> app_step a (Set_timeout v) (set_timeout v a)"
| set_auto: "ap_screen a = Discovery \<Longrightarrow> ap_role a = Slave \<Longrightarrow> app_step a (Set_auto b) (set_auto_connect b a)"
| connect: "ap_screen a = Discovery \<Longrightarrow> ap_role a = Slave \<Longrightarrow> ap_listener a = Some t \<Longrightarrow>
    p \<in> set (peer_snapshot t) \<Longrightarrow> peer_role p = Master \<Longrightarrow> tcp_port p \<noteq> 0 \<Longrightarrow>
    app_step a (Connect_to p) (connect_to p a)"
| decide: "ap_screen a = Discovery \<Longrightarrow> ap_role a = Master \<Longrightarrow> ap_server a = Some s \<Longrightarrow>
    ci_state (link_server_status s) = Pairing \<Longrightarrow> d = Approved \<or> d = Rejected \<Longrightarrow>
    app_step a (Decide d) (decide_pairing d a)"
| disconnect_slave: "ap_screen a = Discovery \<Longrightarrow> ap_role a = Master \<Longrightarrow> ap_server a = Some s \<Longrightarrow>
    ci_state (link_server_status s) = Connected \<Longrightarrow> app_step a Disconnect_slave (disconnect_slave a)"
| disconnect_master: "ap_screen a = Discovery \<Longrightarrow> ap_role a = Slave \<Longrightarrow> ap_client a = Some l \<Longrightarrow>
    ci_state (link_status l) = Connected \<Longrightarrow> app_step a Disconnect_master (disconnect_master a)"
| forget: "ap_screen a = ManageDevices \<Longrightarrow> is_known d (ap_known a) \<Longrightarrow> app_step a (Forget d) (forget_device d a)"
| audio: "ap_screen a = Discovery \<Longrightarrow> app_step a (Choose_audio ch) (choose_audio ch a)"
| heard: "ap_listener a = Some t \<Longrightarrow> app_step a (Heard t') (a\<lparr>ap_listener := Some t'\<rparr>)"
| server_at: "ap_server a = Some s \<Longrightarrow>
    app_step a (Server_at info) (a\<lparr>ap_server := Some (s\<lparr>link_server_status := info\<rparr>)\<rparr>)"
| client_at: "ap_client a = Some l \<Longrightarrow>
    app_step a (Client_at info) (a\<lparr>ap_client := Some (l\<lparr>link_status := info\<rparr>)\<rparr>)"
| trusted: "ap_server a \<noteq> None \<or> ap_client a \<noteq> None \<Longrightarrow>
    app_step a (Trusted d key) (a\<lparr>ap_known := remember d key (ap_known a)\<rparr>)"
| requested: "ap_role a = Slave \<Longrightarrow> ap_client a \<noteq> None \<Longrightarrow>
    app_step a (Requested b f) (a\<lparr>ap_audio_send := b, ap_audio_format := f\<rparr>)"
| mirrored: "ap_role a = Master \<Longrightarrow> ap_server a \<noteq> None \<Longrightarrow> \<not> ap_overridden a \<Longrightarrow>
    app_step a (Mirrored b f) (a\<lparr>ap_master_send := b, ap_master_format := f\<rparr>)"
| override_ends: "ap_role a = Master \<Longrightarrow> app_step a Override_ends (a\<lparr>ap_overridden := False\<rparr>)"
| escape: "ap_role a = Master \<Longrightarrow> ap_server a = Some s \<Longrightarrow> app_step a Escape_hotkey (disconnect_slave a)"
| auto_frame: "app_step a Frame (auto_frame a)"

inductive_cases app_stepE: "app_step a ev a'"
inductive_simps app_step_frame: "app_step a Frame a'"

inductive app_run :: "app \<Rightarrow> app_event list \<Rightarrow> app \<Rightarrow> bool" where
  run_Nil: "app_run a [] a"
| run_snoc: "app_run a evs a' \<Longrightarrow> app_step a' ev a'' \<Longrightarrow> app_run a (evs @ [ev]) a''"

section \<open>The invariant\<close>

definition app_idle :: "app \<Rightarrow> bool" where
  "app_idle a \<longleftrightarrow> ap_announcer a = None \<and> ap_listener a = None \<and> ap_server a = None \<and> ap_client a = None"

text \<open>Discovery is running in one role, and everything that runs belongs to that role.\<close>

definition app_running :: "app \<Rightarrow> bool" where
  "app_running a \<longleftrightarrow>
     ap_listener a \<noteq> None \<and>
     (\<exists>n. ap_announcer a = Some n \<and> ann_device n = ap_device a \<and> ann_role n = ap_role a \<and> ann_host n = ap_host a \<and>
        (ap_role a = Slave \<longrightarrow> ann_port n = 0)) \<and>
     (ap_server a \<noteq> None \<longleftrightarrow> ap_role a = Master) \<and> (ap_client a \<noteq> None \<longrightarrow> ap_role a = Slave) \<and>
     (\<forall>s. ap_server a = Some s \<longrightarrow> link_heartbeat_timeout s = ap_timeout a * 1000) \<and>
     get_last_role (ap_role_file a) = Some (ap_role a)"

definition settings_valid :: "user_settings \<Rightarrow> bool" where
  "settings_valid s \<longleftrightarrow> 1 \<le> us_timeout s"

definition formats_valid :: "user_settings \<Rightarrow> bool" where
  "formats_valid s \<longleftrightarrow> valid_format (us_slave_format s) \<and> valid_format (us_master_format s)"

text \<open>Formats that the other machine reports or requests are taken over as they are.\<close>

definition offered :: "app_event \<Rightarrow> bool" where
  "offered ev \<longleftrightarrow> (case ev of Requested _ f \<Rightarrow> valid_format f | Mirrored _ f \<Rightarrow> valid_format f | _ \<Rightarrow> True)"

definition app_ok :: "app \<Rightarrow> bool" where
  "app_ok a \<longleftrightarrow>
     (case ap_screen a of
        RoleSelect \<Rightarrow> app_idle a
      | Discovery \<Rightarrow> app_running a
      | Arrangement \<Rightarrow> app_running a \<and> ap_role a = Master \<and> ap_previous a = Discovery
      | ManageDevices \<Rightarrow> ap_previous a = RoleSelect \<and> app_idle a \<or> ap_previous a = Discovery \<and> app_running a) \<and>
     settings_valid (current_settings a)"

lemmas app_defs = app_ok_def app_idle_def app_running_def settings_valid_def current_settings_def

lemma valid_choice: "valid_format f \<Longrightarrow> valid_format (choose_format ch f)"
  by (cases ch) (auto simp: valid_format_def)

lemma settings_valid_save [simp]:
  "current_settings (save_settings a) = current_settings a" "ap_screen (save_settings a) = ap_screen a"
  "ap_previous (save_settings a) = ap_previous a" "app_idle (save_settings a) = app_idle a"
  "app_running (save_settings a) = app_running a"
  by (simp_all add: save_settings_def current_settings_def app_idle_def app_running_def)

lemma app_ok_start_discovery:
  assumes "settings_valid (current_settings a)" "app_idle a"
  shows "app_ok (start_discovery r port a)"
  using assms get_save_last_role [of r]
  by (cases r) (simp_all add: start_discovery_def app_defs Let_def)

lemma app_ok_audio: "app_ok a \<Longrightarrow> ap_screen a = Discovery \<Longrightarrow> app_ok (choose_audio ch a)"
  by (auto simp: choose_audio_def save_settings_def app_defs valid_choice)

lemma app_ok_frame:
  assumes "app_ok a"
  shows "app_ok (auto_frame a)"
proof -
  let ?env = "\<lparr>ae_role = ap_role a, ae_peers = map_option peer_snapshot (ap_listener a),
                 ae_client = map_option link_status (ap_client a), ae_known = ap_known a, ae_enabled = ap_auto a\<rparr>"
  obtain st s' where p: "pump_auto_connect ?env (ap_suppressed a) = (st, s')" by fastforce
  show ?thesis
  proof (cases st)
    case None
    with p assms show ?thesis by (auto simp: auto_frame_def Let_def app_defs split: screen.splits)
  next
    case (Some x)
    with p have "pump_auto_connect ?env (ap_suppressed a) = (Some x, s')" by simp
    from pump_started [OF this] have "ap_role a = Slave" "ap_listener a \<noteq> None" by simp_all
    then show ?thesis using p Some assms
      by (auto simp: auto_frame_def Let_def connect_to_def app_defs split: screen.splits)
  qed
qed

lemma app_ok_step: "app_step a ev a' \<Longrightarrow> app_ok a \<Longrightarrow> app_ok a'"
proof (induction rule: app_step.induct)
  case (choose_role a r port)
  then show ?case by (intro app_ok_start_discovery) (simp_all add: app_ok_def)
next
  case (manage a)
  then show ?case by (auto simp: app_defs)
next
  case (arrange a)
  then show ?case by (auto simp: app_defs)
next
  case (leave a)
  then show ?case by (auto simp: app_defs leave_discovery_def)
next
  case (go_back a)
  then show ?case by (auto simp: app_defs)
next
  case (set_timeout a v)
  then show ?case by (auto simp: app_defs set_timeout_def save_settings_def Let_def)
next
  case (set_auto a b)
  then show ?case by (auto simp: app_defs set_auto_connect_def save_settings_def)
next
  case (connect a t p)
  then show ?case by (auto simp: app_defs connect_to_def)
next
  case (decide a s d)
  then show ?case by (auto simp: app_defs decide_pairing_def)
next
  case (disconnect_slave a s)
  then show ?case by (auto simp: app_defs disconnect_slave_def)
next
  case (disconnect_master a l)
  then show ?case by (auto simp: app_defs disconnect_master_def)
next
  case (forget a d)
  then show ?case
    by (auto simp: app_defs forget_device_def disconnect_slave_def Let_def split: option.split)
next
  case (audio a ch)
  then show ?case by (intro app_ok_audio)
next
  case (escape a s)
  then show ?case by (cases "ap_screen a") (auto simp: app_defs disconnect_slave_def)
next
  case (auto_frame a)
  then show ?case by (rule app_ok_frame)
next
  case (heard a t t')
  then show ?case by (cases "ap_screen a") (auto simp: app_defs)
next
  case (server_at a s info)
  then show ?case by (cases "ap_screen a") (auto simp: app_defs)
next
  case (client_at a l info)
  then show ?case by (cases "ap_screen a") (auto simp: app_defs)
next
  case (trusted a d key)
  then show ?case by (cases "ap_screen a") (auto simp: app_defs)
next
  case (requested a b f)
  then show ?case by (cases "ap_screen a") (auto simp: app_defs)
next
  case (mirrored a b f)
  then show ?case by (cases "ap_screen a") (auto simp: app_defs)
next
  case (override_ends a)
  then show ?case by (cases "ap_screen a") (auto simp: app_defs)
qed

lemma app_ok_run: "app_run a evs a' \<Longrightarrow> app_ok a \<Longrightarrow> app_ok a'"
  by (induction rule: app_run.induct) (auto intro: app_ok_step)

lemma formats_auto_frame [simp]: "formats_valid (current_settings (auto_frame a)) = formats_valid (current_settings a)"
  by (simp add: auto_frame_def Let_def connect_to_def formats_valid_def current_settings_def split: prod.split option.split)

lemma formats_valid_step:
  "app_step a ev a' \<Longrightarrow> offered ev \<Longrightarrow> formats_valid (current_settings a) \<Longrightarrow> formats_valid (current_settings a')"
  by (induction rule: app_step.induct)
    (simp_all add: formats_valid_def current_settings_def start_discovery_def leave_discovery_def set_timeout_def
      set_auto_connect_def save_settings_def connect_to_def decide_pairing_def disconnect_slave_def disconnect_master_def
      forget_device_def choose_audio_def offered_def valid_choice auto_frame_def Let_def split: option.split prod.split)

lemma formats_valid_run:
  "app_run a evs a' \<Longrightarrow> \<forall>ev \<in> set evs. offered ev \<Longrightarrow> formats_valid (current_settings a) \<Longrightarrow>
    formats_valid (current_settings a')"
  by (induction rule: app_run.induct) (auto intro: formats_valid_step)

section \<open>Every screen is consistent\<close>

lemma load_entry_valid:
  "settings_valid s \<and> formats_valid s \<Longrightarrow> settings_valid (fst (load_entry key st s)) \<and> formats_valid (fst (load_entry key st s))"
  by (auto simp: load_entry_def settings_valid_def formats_valid_def read_flag_def read_format_def Let_def
      split: option.splits prod.splits if_splits)

lemma load_loop_valid:
  "settings_valid s \<and> formats_valid s \<Longrightarrow> settings_valid (load_loop st s) \<and> formats_valid (load_loop st s)"
proof (induction st s rule: load_loop.induct)
  case (1 st s)
  show ?case
  proof (cases "read_word st")
    case (Pair w st1)
    show ?thesis
    proof (cases w)
      case None
      with Pair have "load_loop st s = s" by (subst load_loop.simps) simp
      with 1(2) show ?thesis by simp
    next
      case (Some key)
      obtain s' st2 where e: "load_entry key st1 s = (s', st2)" by fastforce
      have "settings_valid s' \<and> formats_valid s'" using load_entry_valid [OF 1(2), of key st1] e by simp
      with 1(1) Pair Some e have "settings_valid (load_loop st2 s') \<and> formats_valid (load_loop st2 s')" by metis
      moreover from Pair Some e have "load_loop st s = load_loop st2 s'" by (subst load_loop.simps) simp
      ultimately show ?thesis by simp
    qed
  qed
qed

lemma settings_valid_load: "settings_valid (load_user_settings t) \<and> formats_valid (load_user_settings t)"
  unfolding load_user_settings_def
  by (rule load_loop_valid) (simp add: settings_valid_def formats_valid_def default_settings_def default_format_def valid_format_def)

lemma app_start_settings:
  "current_settings (app_start device host known role_file settings_file port) =
    (case settings_file of None \<Rightarrow> default_settings | Some t \<Rightarrow> load_user_settings t)"
  by (simp add: app_start_def resume_last_role_def start_discovery_def current_settings_def Let_def split: option.split)

lemma app_ok_resume:
  "settings_valid (current_settings a) \<Longrightarrow> app_idle a \<Longrightarrow> ap_screen a = RoleSelect \<Longrightarrow> app_ok (resume_last_role port a)"
  by (cases "get_last_role (ap_role_file a)") (simp_all add: resume_last_role_def app_ok_start_discovery, simp add: app_ok_def)

lemma app_ok_start: "app_ok (app_start device host known role_file settings_file port)"
proof -
  have "settings_valid (case settings_file of None \<Rightarrow> default_settings | Some t \<Rightarrow> load_user_settings t)"
    using settings_valid_load
    by (auto simp: settings_valid_def default_settings_def default_format_def valid_format_def split: option.split)
  then show ?thesis
    unfolding app_start_def Let_def
    by (intro app_ok_resume) (simp_all add: current_settings_def app_idle_def settings_valid_def)
qed

lemma formats_valid_start:
  "formats_valid (current_settings (app_start device host known role_file settings_file port))"
  unfolding app_start_settings using settings_valid_load
  by (auto simp: formats_valid_def default_settings_def default_format_def valid_format_def split: option.split)

text \<open>
  C14. Whatever the settings and role files contain, and whatever is clicked, heard or reported in
  whatever order, the application stays consistent: wherever a screen reads the listener it exists, a
  server runs exactly while discovery runs as Master and a client only as Slave, the announcement
  carries the role and the saved role file repeats it, the server's timeout is the one set and at least
  a second, and the audio formats are ones the program offers as long as the other machine's are.
\<close>

theorem app_always_consistent:
  assumes "app_run (app_start device host known role_file settings_file port) evs a"
  shows "(ap_screen a = Discovery \<or> ap_screen a = Arrangement \<or> ap_screen a = ManageDevices \<and> ap_previous a = Discovery
      \<longrightarrow> ap_listener a \<noteq> None \<and> (ap_server a \<noteq> None \<longleftrightarrow> ap_role a = Master) \<and>
          get_last_role (ap_role_file a) = Some (ap_role a) \<and> ann_role (the (ap_announcer a)) = ap_role a) \<and>
    (ap_client a \<noteq> None \<longrightarrow> ap_role a = Slave) \<and>
    (\<forall>s. ap_server a = Some s \<longrightarrow> link_heartbeat_timeout s = ap_timeout a * 1000) \<and>
    ((\<forall>ev \<in> set evs. offered ev) \<longrightarrow> valid_format (ap_audio_format a) \<and> valid_format (ap_master_format a)) \<and>
    1 \<le> ap_timeout a"
  using app_ok_run [OF assms app_ok_start] formats_valid_run [OF assms _ formats_valid_start]
  by (auto simp: app_defs formats_valid_def split: screen.splits)

section \<open>A restart resumes\<close>

definition settings_click :: "app_event \<Rightarrow> bool" where
  "settings_click ev \<longleftrightarrow> (case ev of Set_timeout _ \<Rightarrow> True | Set_auto _ \<Rightarrow> True | Choose_audio _ \<Rightarrow> True | _ \<Rightarrow> False)"

lemma settings_click_saves:
  "app_step a ev a' \<Longrightarrow> settings_click ev \<Longrightarrow>
    ap_settings_file a' = Some (save_user_settings (current_settings a')) \<and> ap_screen a' = Discovery"
  by (erule app_stepE)
    (simp_all add: settings_click_def set_timeout_def set_auto_connect_def choose_audio_def save_settings_def
      current_settings_def Let_def)


section \<open>A disconnected Master stays disconnected\<close>

text \<open>News of a client that is connected to a device and not told to go away.\<close>

definition reconnected :: "u64 \<Rightarrow> app_event \<Rightarrow> bool" where
  "reconnected d ev \<longleftrightarrow>
     (case ev of Client_at info \<Rightarrow> ci_state info = Connected \<and> ci_peer info = d \<and> \<not> ci_go_away info | _ \<Rightarrow> False)"

definition linked_to :: "u64 \<Rightarrow> app \<Rightarrow> bool" where
  "linked_to d a \<longleftrightarrow>
     (\<exists>l. ap_client a = Some l \<and> ci_state (link_status l) = Connected \<and> ci_peer (link_status l) = d \<and>
          \<not> ci_go_away (link_status l))"

lemma suppressed_frame:
  assumes "d \<in> ap_suppressed a" "\<not> linked_to d a"
  shows "d \<in> ap_suppressed (auto_frame a) \<and> \<not> linked_to d (auto_frame a) \<and>
    (ap_client (auto_frame a) \<noteq> ap_client a \<longrightarrow>
      (\<exists>p. p \<in> set (peer_snapshot (the (ap_listener a))) \<and> device_id p \<noteq> d \<and> ap_client (auto_frame a) = ap_client (connect_to p a)))"
proof -
  let ?env = "\<lparr>ae_role = ap_role a, ae_peers = map_option peer_snapshot (ap_listener a),
                 ae_client = map_option link_status (ap_client a), ae_known = ap_known a, ae_enabled = ap_auto a\<rparr>"
  obtain st s' where p: "pump_auto_connect ?env (ap_suppressed a) = (st, s')" by fastforce
  have "\<not> lifts d ?env" using assms(2) by (auto simp: lifts_def linked_to_def)
  from pump_keeps_suppressed [OF assms(1) this] have d: "d \<in> s'" using p by simp
  show ?thesis
  proof (cases st)
    case None
    with p d assms(2) show ?thesis by (simp add: auto_frame_def Let_def linked_to_def)
  next
    case (Some x)
    with p have "pump_auto_connect ?env (ap_suppressed a) = (Some x, s')" by simp
    from pump_started [OF this] have "ap_listener a \<noteq> None" "x \<in> set (the (map_option peer_snapshot (ap_listener a)))"
      "device_id x \<notin> s'" by (simp_all add: eligible_def)
    then have x: "x \<in> set (peer_snapshot (the (ap_listener a)))" "device_id x \<noteq> d" using d by auto
    show ?thesis using p Some d x
      by (auto simp: auto_frame_def Let_def connect_to_def linked_to_def no_connection_def)
  qed
qed

lemma suppressed_step:
  assumes "app_step a ev a'" "d \<in> ap_suppressed a" "\<not> linked_to d a" "\<not> reconnected d ev"
  shows "d \<in> ap_suppressed a' \<and> \<not> linked_to d a'"
  using assms
proof (induction rule: app_step.induct)
  case (auto_frame a)
  then show ?case using suppressed_frame by blast
qed (auto simp: linked_to_def reconnected_def start_discovery_def set_timeout_def set_auto_connect_def save_settings_def
    connect_to_def decide_pairing_def disconnect_slave_def disconnect_master_def leave_discovery_def forget_device_def
    choose_audio_def no_connection_def Let_def split: option.splits)

lemma suppressed_run:
  assumes "app_run a evs a'" "d \<in> ap_suppressed a" "\<not> linked_to d a" "\<forall>ev \<in> set evs. \<not> reconnected d ev"
  shows "d \<in> ap_suppressed a' \<and> \<not> linked_to d a'"
  using assms by (induction rule: app_run.induct) (auto dest: suppressed_step)

text \<open>
  C15. A Master the user disconnected from is not connected to again behind the user's back: whatever
  happens afterwards, no frame starts a client for it, until a client started otherwise reports a
  connection to it.
\<close>

theorem disconnect_sticks:
  assumes "app_step a Disconnect_master b" "ci_peer (link_status (the (ap_client a))) = d"
    and "app_run b evs c" "\<forall>ev \<in> set evs. \<not> reconnected d ev" "app_step c Frame c'" "ap_client c' \<noteq> ap_client c"
  shows "\<exists>p \<in> set (peer_snapshot (the (ap_listener c))). device_id p \<noteq> d \<and> ap_client c' = ap_client (connect_to p c)"
proof -
  have b: "d \<in> ap_suppressed b" "\<not> linked_to d b"
    using assms(1,2) by (auto elim!: app_stepE simp: disconnect_master_def linked_to_def)
  from suppressed_run [OF assms(3) b assms(4)] have "d \<in> ap_suppressed c" "\<not> linked_to d c" by simp_all
  from suppressed_frame [OF this] assms(5,6) show ?thesis unfolding app_step_frame by auto
qed

section \<open>A concrete run\<close>

definition demo_known :: known_peers where
  "demo_known = \<lparr>kp_peers = [(1, replicate 32 2), (2, replicate 32 3)], kp_file = [], kp_writable = True\<rparr>"

definition demo_app :: app where
  "demo_app = app_start 7 [] demo_known (save_last_role Slave) None 0"

lemma demo_app_fields:
  "ap_screen demo_app = Discovery" "ap_role demo_app = Slave" "ap_client demo_app = None" "ap_suppressed demo_app = {}"
  "ap_known demo_app = demo_known" "ap_auto demo_app = True" "ap_timeout demo_app = 10" "ap_listener demo_app = Some []"
  by (simp_all add: demo_app_def app_start_def resume_last_role_def get_save_last_role start_discovery_def Let_def
      default_settings_def)

text \<open>A second trusted Master next to the one of the automatic connection's examples.\<close>

definition demo_table :: peer_table where
  "demo_table = [(1, demo_master), (2, demo_master\<lparr>device_id := 2\<rparr>)]"

definition demo_connected :: app where
  "demo_connected = demo_app
     \<lparr>ap_listener := Some demo_table,
      ap_client := Some \<lparr>link_ip = [], link_port = 9000, link_timeout = 10000,
                        link_status = demo_status Connected False\<rparr>\<rparr>"

theorem app_always_consistent_witness:
  "\<exists>a. app_run demo_app [Manage_devices, Back] a \<and> ap_screen a = Discovery \<and> ap_listener a \<noteq> None"
proof -
  let ?m = "demo_app\<lparr>ap_previous := ap_screen demo_app, ap_screen := ManageDevices\<rparr>"
  let ?b = "?m\<lparr>ap_screen := ap_previous ?m\<rparr>"
  have "app_run demo_app ([] @ [Manage_devices]) ?m"
    by (rule run_snoc [OF run_Nil]) (rule app_step.manage, simp add: demo_app_fields)
  then have "app_run demo_app (([] @ [Manage_devices]) @ [Back]) ?b"
    by (rule run_snoc) (rule app_step.go_back, simp)
  then have run: "app_run demo_app [Manage_devices, Back] ?b" by simp
  have "ap_screen ?b = Discovery" by (simp add: demo_app_fields)
  moreover from this have "ap_listener ?b \<noteq> None"
    using app_always_consistent [OF run [unfolded demo_app_def]] unfolding demo_app_def by simp
  ultimately show ?thesis using run by blast
qed


theorem disconnect_sticks_witness:
  "\<exists>b c. app_step demo_connected Disconnect_master b \<and> app_step b Frame c \<and> ap_client c \<noteq> None \<and>
     ap_client c = ap_client (connect_to (demo_master\<lparr>device_id := 2\<rparr>) b)"
proof -
  let ?b = "disconnect_master demo_connected"
  let ?c = "auto_frame ?b"
  have b: "app_step demo_connected Disconnect_master ?b"
    by (rule app_step.disconnect_master [where l = "the (ap_client demo_connected)"])
      (simp_all add: demo_connected_def demo_app_fields demo_status_def)
  have c: "app_step ?b Frame ?c" by (rule app_step.auto_frame)
  have d: "ci_peer (link_status (the (ap_client demo_connected))) = 1"
    by (simp add: demo_connected_def demo_status_def)
  have n: "ap_client ?b = None" "ap_client ?c \<noteq> None"
    by (simp_all add: disconnect_master_def demo_connected_def auto_frame_def pump_auto_connect_def demo_app_fields
        demo_table_def peer_snapshot_def demo_master_def demo_status_def eligible_def is_known_def demo_known_def
        connect_to_def Let_def)
  then obtain p where "p \<in> set (peer_snapshot (the (ap_listener ?b)))" "device_id p \<noteq> 1" "ap_client ?c = ap_client (connect_to p ?b)"
    using disconnect_sticks [OF b d run_Nil _ c] by auto
  moreover from this have "p = demo_master\<lparr>device_id := 2\<rparr>"
    by (simp add: disconnect_master_def demo_connected_def demo_table_def peer_snapshot_def demo_master_def) auto
  ultimately show ?thesis using b c n by blast
qed

end
