(* ===== verification/AudioChannel.thy ===== *)
theory AudioChannel
  imports Noise JitterBuffer
begin

text \<open>
  The audio datagrams: \<^verbatim>\<open>src/audio/protocol.cpp\<close> (key derivation, packet format) and
  \<^verbatim>\<open>src/audio/channel.cpp\<close> (the sending and receiving end).
\<close>

section \<open>Packets\<close>

definition kAudioLabel :: bytes where "kAudioLabel = bytes_of ''nockvm-audio-v1''"

definition derive_audio_key :: "crypto \<Rightarrow> bytes \<Rightarrow> bytes" where
  "derive_audio_key c transport_key = generichash c (transport_key @ kAudioLabel)"

definition encode_frame :: "crypto \<Rightarrow> bytes \<Rightarrow> u32 \<Rightarrow> bytes \<Rightarrow> bytes" where
  "encode_frame c k seq data = write_be32 seq @ aead_encrypt c k (ucast seq) [] data"

definition decode_frame :: "crypto \<Rightarrow> bytes \<Rightarrow> bytes \<Rightarrow> (u32 \<times> bytes) option" where
  "decode_frame c k packet =
     (if length packet < 4 then None
      else let seq = read_be32 packet in
        map_option (Pair seq) (aead_decrypt c k (ucast seq) [] (drop 4 packet)))"

lemma decode_encode_frame: "crypto_ok c \<Longrightarrow> decode_frame c k (encode_frame c k seq data) = Some (seq, data)"
  by (simp add: decode_frame_def encode_frame_def Let_def crypto_ok_def aead_encrypt_def aead_decrypt_def)

lemma length_encode_frame: "crypto_ok c \<Longrightarrow> length (encode_frame c k seq data) = length data + 20"
  by (simp add: encode_frame_def crypto_ok_def aead_encrypt_def)

section \<open>The channel\<close>

definition kMaxPacketSize :: nat where "kMaxPacketSize = 2048"

record audio_channel =
  ac_key :: bytes
  ac_send_seq :: u32

definition audio_channel_new :: "bytes \<Rightarrow> audio_channel" where
  "audio_channel_new k = \<lparr>ac_key = k, ac_send_seq = 0\<rparr>"

text \<open>The packet handed to \<^verbatim>\<open>sendto\<close> and the channel afterwards.\<close>

definition send_to :: "crypto \<Rightarrow> bytes \<Rightarrow> audio_channel \<Rightarrow> bytes \<times> audio_channel" where
  "send_to c data ch = (encode_frame c (ac_key ch) (ac_send_seq ch) data, ch\<lparr>ac_send_seq := ac_send_seq ch + 1\<rparr>)"

text \<open>
  \<^verbatim>\<open>receive_nonblocking\<close> on the datagrams waiting at the socket: the decoded frame, if there is one,
  the remaining datagrams, and the increments of the \<open>received\<close> and \<open>rejected\<close> counters.
\<close>

definition receive_nonblocking ::
    "crypto \<Rightarrow> bytes \<Rightarrow> bytes list \<Rightarrow> (u32 \<times> bytes) option \<times> bytes list \<times> nat \<times> nat" where
  "receive_nonblocking c k waiting =
     (case waiting of
        [] \<Rightarrow> (None, [], 0, 0)
      | datagram # rest \<Rightarrow>
          (let buf = take kMaxPacketSize datagram in
           if buf = [] then (None, rest, 0, 0)
           else case decode_frame c k buf of
                  None \<Rightarrow> (None, rest, 1, 1)
                | Some frame \<Rightarrow> (Some frame, rest, 1, 0)))"

fun send_frames :: "crypto \<Rightarrow> bytes list \<Rightarrow> audio_channel \<Rightarrow> bytes list \<times> audio_channel" where
  "send_frames c [] ch = ([], ch)"
| "send_frames c (data # ds) ch =
     (let (p, ch1) = send_to c data ch; (ps, ch2) = send_frames c ds ch1 in (p # ps, ch2))"

lemma send_frames_packets:
  "send_frames c ds ch =
     (map (\<lambda>(seq, data). encode_frame c (ac_key ch) seq data) (number_from (ac_send_seq ch) ds),
      ch\<lparr>ac_send_seq := ac_send_seq ch + of_nat (length ds)\<rparr>)"
  by (induction c ds ch rule: send_frames.induct) (simp_all add: send_to_def Let_def add.assoc)

lemma number_from_nth: "i < length ds \<Longrightarrow> number_from n ds ! i = (n + of_nat i, ds ! i)"
  by (induction n ds arbitrary: i rule: number_from.induct) (auto simp: nth_Cons' of_nat_diff)

lemma length_numbered [simp]: "length (number_from n ds) = length ds"
  by (induction n ds rule: number_from.induct) auto

text \<open>The nonces a channel encrypts with.\<close>

definition nonces_of :: "audio_channel \<Rightarrow> bytes list \<Rightarrow> bytes list" where
  "nonces_of ch ds = map (\<lambda>(seq, _). nonce_bytes (ucast seq)) (number_from (ac_send_seq ch) ds)"

lemma ucast_32_inj:
  assumes "(ucast (x :: u32) :: u64) = ucast y"
  shows "x = y"
proof (rule bit_word_eqI)
  fix n assume "n < LENGTH(32)"
  moreover have "bit (ucast x :: u64) n = bit (ucast y :: u64) n" using assms by simp
  ultimately show "bit x n = bit y n" by (simp add: bit_simps)
qed

text \<open>
  A receiver with the sender's key decodes the packet of the \<open>i\<close>-th frame, whenever it arrives, to
  exactly that frame and its number, if the frame fits the receive buffer; and the channel
  encrypts up to \<open>2\<^sup>3\<^sup>2\<close> frames without using a nonce twice.
\<close>

theorem audio_packets_decode:
  assumes "crypto_ok c" "i < length ds" "length (ds ! i) + 20 \<le> kMaxPacketSize" "length ds \<le> 2 ^ 32"
  shows "fst (receive_nonblocking c (ac_key ch) (fst (send_frames c ds ch) ! i # waiting)) =
      Some (ac_send_seq ch + of_nat i, ds ! i) \<and> distinct (nonces_of ch ds)"
proof
  have p: "fst (send_frames c ds ch) ! i = encode_frame c (ac_key ch) (ac_send_seq ch + of_nat i) (ds ! i)"
    using assms(2) by (simp add: send_frames_packets number_from_nth)
  show "fst (receive_nonblocking c (ac_key ch) (fst (send_frames c ds ch) ! i # waiting)) =
      Some (ac_send_seq ch + of_nat i, ds ! i)"
    unfolding p using assms(1,3) decode_encode_frame [OF assms(1)]
      length_encode_frame [OF assms(1), of "ac_key ch" "ac_send_seq ch + of_nat i" "ds ! i"]
    by (auto simp: receive_nonblocking_def Let_def)
  have "nonces_of ch ds ! a = nonce_bytes (ucast (ac_send_seq ch + of_nat a))" if "a < length ds" for a
    using that by (simp add: nonces_of_def number_from_nth)
  moreover have "a = b" if "a < length ds" "b < length ds"
    "(ucast (ac_send_seq ch + of_nat a) :: u64) = ucast (ac_send_seq ch + of_nat b)" for a b
  proof -
    have "(of_nat a :: u32) = of_nat b" using ucast_32_inj [OF that(3)] by simp
    moreover have "unat (of_nat a :: u32) = a" "unat (of_nat b :: u32) = b"
      using that(1,2) assms(4) by (simp_all add: unat_of_nat)
    ultimately show ?thesis by metis
  qed
  moreover have "length (nonces_of ch ds) = length ds" by (simp add: nonces_of_def)
  ultimately show "distinct (nonces_of ch ds)"
    by (auto simp: distinct_conv_nth nonce_bytes_eq_iff)
qed

theorem audio_packets_decode_witness:
  "fst (receive_nonblocking toy_crypto (replicate 32 3)
     (fst (send_frames toy_crypto [[1], [2, 2]] (audio_channel_new (replicate 32 3))) ! 1 # [])) = Some (1, [2, 2])"
  using audio_packets_decode [OF toy_crypto_ok, of 1 "[[1], [2, 2]]" "audio_channel_new (replicate 32 3)" "[]"]
  by (simp add: kMaxPacketSize_def audio_channel_new_def)

end
