(* ===== verification/RollingWindows.thy ===== *)
theory RollingWindows
  imports Prelude
begin

text \<open>
  The two rolling windows of the audio statistics: \<^verbatim>\<open>AudioLossWindow\<close>
  (\<^verbatim>\<open>src/app/audio_loss_window.h\<close>) and \<^verbatim>\<open>BufferDepthWindow\<close>
  (\<^verbatim>\<open>src/app/buffer_depth_window.h\<close>). Points of time and durations of the steady clock are
  integers; the deque of samples is a list with its front first.
\<close>

section \<open>AudioLossWindow\<close>

record loss_sample =
  ls_at :: int
  ls_misses :: u64
  ls_played :: u64

record loss_window =
  lw_window :: int
  lw_samples :: "loss_sample list"
  lw_first_at :: int
  lw_has_first :: bool
  lw_ready :: bool

definition loss_new :: "int \<Rightarrow> loss_window" where
  "loss_new window =
     \<lparr>lw_window = window, lw_samples = [], lw_first_at = 0, lw_has_first = False, lw_ready = False\<rparr>"

text \<open>The eviction loop: the front goes while the second sample is already old enough.\<close>

fun loss_evict :: "int \<Rightarrow> int \<Rightarrow> loss_sample list \<Rightarrow> loss_sample list" where
  "loss_evict now window (a # b # rest) =
     (if now - ls_at b \<ge> window then loss_evict now window (b # rest) else a # b # rest)"
| "loss_evict now window samples = samples"

definition loss_record :: "int \<Rightarrow> u64 \<Rightarrow> u64 \<Rightarrow> loss_window \<Rightarrow> loss_window" where
  "loss_record now misses played w =
     (let w1 = (if lw_samples w \<noteq> [] \<and> now - ls_at (last (lw_samples w)) > lw_window w
                then w\<lparr>lw_samples := [], lw_has_first := False\<rparr> else w);
          w2 = (if \<not> lw_has_first w1 then w1\<lparr>lw_first_at := now, lw_has_first := True\<rparr> else w1);
          w3 = w2\<lparr>lw_samples := loss_evict now (lw_window w2)
                    (lw_samples w2 @ [\<lparr>ls_at = now, ls_misses = misses, ls_played = played\<rparr>])\<rparr>
      in w3\<lparr>lw_ready := now - lw_first_at w3 \<ge> lw_window w3\<rparr>)"

definition loss_reset :: "loss_window \<Rightarrow> loss_window" where
  "loss_reset w = w\<lparr>lw_samples := [], lw_has_first := False, lw_ready := False\<rparr>"

record window_reading =
  rd_ready :: bool
  rd_misses :: u64
  rd_attempts :: u64

definition loss_reading :: "loss_window \<Rightarrow> window_reading" where
  "loss_reading w =
     (if \<not> lw_ready w \<or> lw_samples w = []
      then \<lparr>rd_ready = lw_ready w, rd_misses = 0, rd_attempts = 0\<rparr>
      else let oldest = hd (lw_samples w); newest = last (lw_samples w);
               misses = (if ls_misses newest \<ge> ls_misses oldest then ls_misses newest - ls_misses oldest else 0);
               played_delta = (if ls_played newest \<ge> ls_played oldest then ls_played newest - ls_played oldest else 0)
        in \<lparr>rd_ready = True, rd_misses = misses, rd_attempts = misses + played_delta\<rparr>)"

definition loss_run :: "loss_window \<Rightarrow> loss_sample list \<Rightarrow> loss_window" where
  "loss_run w es = fold (\<lambda>e. loss_record (ls_at e) (ls_misses e) (ls_played e)) es w"

text \<open>
  The invariant after a sample at \<open>now\<close>: the samples are the last ones of the history \<open>h\<close>,
  consecutive ones at most a window apart, the second is younger than the window, and the first one
  is the anchor of the episode unless it is already older than the window.
\<close>

fun close_gaps :: "int \<Rightarrow> loss_sample list \<Rightarrow> bool" where
  "close_gaps window (a # b # rest) \<longleftrightarrow>
     0 \<le> ls_at b - ls_at a \<and> ls_at b - ls_at a \<le> window \<and> close_gaps window (b # rest)"
| "close_gaps window samples \<longleftrightarrow> True"

definition loss_inv :: "int \<Rightarrow> loss_sample list \<Rightarrow> loss_window \<Rightarrow> bool" where
  "loss_inv window h w \<longleftrightarrow>
     lw_window w = window \<and> (\<exists>p. h = p @ lw_samples w) \<and> close_gaps window (lw_samples w) \<and>
     (h = [] \<longrightarrow> lw_samples w = [] \<and> \<not> lw_has_first w \<and> \<not> lw_ready w) \<and>
     (h \<noteq> [] \<longrightarrow> lw_samples w \<noteq> [] \<and> lw_has_first w \<and>
        lw_ready w = (ls_at (last h) - lw_first_at w \<ge> window) \<and>
        lw_first_at w \<le> ls_at (hd (lw_samples w)) \<and>
        (lw_first_at w = ls_at (hd (lw_samples w)) \<or> ls_at (last h) - ls_at (hd (lw_samples w)) \<ge> window) \<and>
        (case lw_samples w of a # b # _ \<Rightarrow> ls_at (last h) - ls_at b < window | _ \<Rightarrow> True))"

lemma loss_evict_suffix: "\<exists>p. samples = p @ loss_evict now window samples"
proof (induction now window samples rule: loss_evict.induct)
  case (1 now window a b rest)
  show ?case
  proof (cases "now - ls_at b \<ge> window")
    case True
    with 1 obtain p where "b # rest = p @ loss_evict now window (b # rest)" by auto
    with True show ?thesis by (intro exI [where x = "a # p"]) simp
  qed simp
qed auto

lemma loss_evict_props:
  assumes "close_gaps window samples" "samples \<noteq> []"
  shows "close_gaps window (loss_evict now window samples)" "loss_evict now window samples \<noteq> []"
    "ls_at (hd samples) \<le> ls_at (hd (loss_evict now window samples))"
    "hd (loss_evict now window samples) = hd samples \<or> now - ls_at (hd (loss_evict now window samples)) \<ge> window"
    "case loss_evict now window samples of a # b # _ \<Rightarrow> now - ls_at b < window | _ \<Rightarrow> True"
proof -
  have "close_gaps window (loss_evict now window samples) \<and> loss_evict now window samples \<noteq> [] \<and>
    ls_at (hd samples) \<le> ls_at (hd (loss_evict now window samples)) \<and>
    (hd (loss_evict now window samples) = hd samples \<or> now - ls_at (hd (loss_evict now window samples)) \<ge> window) \<and>
    (case loss_evict now window samples of a # b # _ \<Rightarrow> now - ls_at b < window | _ \<Rightarrow> True)"
    using assms by (induction now window samples rule: loss_evict.induct) auto
  then show "close_gaps window (loss_evict now window samples)" "loss_evict now window samples \<noteq> []"
    "ls_at (hd samples) \<le> ls_at (hd (loss_evict now window samples))"
    "hd (loss_evict now window samples) = hd samples \<or> now - ls_at (hd (loss_evict now window samples)) \<ge> window"
    "case loss_evict now window samples of a # b # _ \<Rightarrow> now - ls_at b < window | _ \<Rightarrow> True"
    by auto
qed

lemma close_gaps_snoc:
  "close_gaps window samples \<Longrightarrow>
   samples \<noteq> [] \<longrightarrow> 0 \<le> ls_at e - ls_at (last samples) \<and> ls_at e - ls_at (last samples) \<le> window \<Longrightarrow>
   close_gaps window (samples @ [e])"
  by (induction window samples rule: close_gaps.induct) auto

lemma loss_inv_last:
  assumes "loss_inv window h w" "h \<noteq> []"
  shows "lw_samples w \<noteq> []" "last (lw_samples w) = last h"
proof -
  obtain p where p: "h = p @ lw_samples w" using assms(1) by (auto simp: loss_inv_def)
  show ne: "lw_samples w \<noteq> []" using assms by (simp add: loss_inv_def)
  from ne show "last (lw_samples w) = last h" by (subst p) simp
qed

lemma loss_record_inv:
  assumes inv: "loss_inv window h w" and time: "h \<noteq> [] \<longrightarrow> ls_at (last h) \<le> ls_at e"
  shows "loss_inv window (h @ [e]) (loss_record (ls_at e) (ls_misses e) (ls_played e) w)"
proof -
  have e: "\<lparr>ls_at = ls_at e, ls_misses = ls_misses e, ls_played = ls_played e\<rparr> = e" by simp
  have last: "lw_samples w \<noteq> [] \<Longrightarrow> last h = last (lw_samples w)"
    using inv by (auto simp: loss_inv_def)
  show ?thesis
  proof (cases "h = [] \<or> ls_at e - ls_at (last h) > window")
    case True
    then have "loss_record (ls_at e) (ls_misses e) (ls_played e) w =
        w\<lparr>lw_samples := [e], lw_has_first := True, lw_first_at := ls_at e, lw_ready := 0 \<ge> window\<rparr>"
      using inv last by (auto simp: loss_record_def loss_inv_def Let_def e)
    then show ?thesis using inv by (simp add: loss_inv_def)
  next
    case False
    let ?s = "lw_samples w @ [e]"
    from False inv have ne: "h \<noteq> []" "lw_samples w \<noteq> []" by (auto simp: loss_inv_def)
    have r: "loss_record (ls_at e) (ls_misses e) (ls_played e) w =
        w\<lparr>lw_samples := loss_evict (ls_at e) window ?s, lw_ready := ls_at e - lw_first_at w \<ge> window\<rparr>"
      using False ne inv last by (simp add: loss_record_def loss_inv_def Let_def e)
    have gaps: "close_gaps window ?s"
      using inv ne False time last by (intro close_gaps_snoc) (auto simp: loss_inv_def)
    obtain p where "?s = p @ loss_evict (ls_at e) window ?s" using loss_evict_suffix by blast
    moreover obtain q where "h = q @ lw_samples w" using inv by (auto simp: loss_inv_def)
    ultimately have suffix: "\<exists>p. h @ [e] = p @ loss_evict (ls_at e) window ?s"
      by (intro exI [where x = "q @ p"]) simp
    have "?s \<noteq> []" by simp
    note evicted = loss_evict_props [OF gaps this, of "ls_at e"]
    have hd: "hd ?s = hd (lw_samples w)" using ne by simp
    have fst: "lw_first_at w \<le> ls_at (hd (loss_evict (ls_at e) window ?s))"
      using evicted(3) inv ne unfolding hd by (auto simp: loss_inv_def)
    have anchor: "lw_first_at w = ls_at (hd (loss_evict (ls_at e) window ?s)) \<or>
        ls_at e - ls_at (hd (loss_evict (ls_at e) window ?s)) \<ge> window"
      using evicted(4) inv ne time unfolding hd by (auto simp: loss_inv_def)
    show ?thesis unfolding r using inv ne evicted(1,2,5) suffix fst anchor
      unfolding loss_inv_def last_snoc by simp
  qed
qed

lemma loss_run_inv:
  assumes "sorted (map ls_at es)"
  shows "loss_inv window es (loss_run (loss_new window) es)"
  using assms
proof (induction es rule: rev_induct)
  case Nil
  then show ?case by (simp add: loss_run_def loss_new_def loss_inv_def)
next
  case (snoc e es)
  then have "loss_inv window es (loss_run (loss_new window) es)" by (simp add: sorted_append)
  moreover have "es \<noteq> [] \<longrightarrow> ls_at (last es) \<le> ls_at e" using snoc.prems by (simp add: sorted_append)
  ultimately show ?case using loss_record_inv by (simp add: loss_run_def)
qed

text \<open>
  Whatever samples are recorded, at non-decreasing times, a reading that is ready compares the
  newest sample with a recorded sample that is at least one window and less than two windows old,
  and a record after a silence longer than the window is never ready.
\<close>

theorem loss_reading_spans_window:
  assumes "0 < window" "sorted (map ls_at (es @ [e]))"
    and "w = loss_run (loss_new window) (es @ [e])"
  shows "(rd_ready (loss_reading w) \<longrightarrow>
      (\<exists>s \<in> set es. window \<le> ls_at e - ls_at s \<and> ls_at e - ls_at s < 2 * window \<and>
         rd_misses (loss_reading w) = (if ls_misses e \<ge> ls_misses s then ls_misses e - ls_misses s else 0) \<and>
         rd_attempts (loss_reading w) = rd_misses (loss_reading w) +
           (if ls_played e \<ge> ls_played s then ls_played e - ls_played s else 0))) \<and>
    (es \<noteq> [] \<and> ls_at e - ls_at (last es) > window \<longrightarrow> \<not> rd_ready (loss_reading w))"
proof -
  have inv: "loss_inv window (es @ [e]) w"
    unfolding assms(3) by (rule loss_run_inv [OF assms(2)])
  obtain p where h: "es @ [e] = p @ lw_samples w" using inv by (auto simp: loss_inv_def)
  have ne: "lw_samples w \<noteq> []" using inv by (simp add: loss_inv_def)
  then have le: "last (lw_samples w) = e" using h by (metis last_appendR last_snoc)
  have "hd (lw_samples w) \<in> set es \<and> window \<le> ls_at e - ls_at (hd (lw_samples w)) \<and>
      ls_at e - ls_at (hd (lw_samples w)) < 2 * window" if r: "lw_ready w"
  proof -
    have old: "window \<le> ls_at e - ls_at (hd (lw_samples w))" using inv r by (auto simp: loss_inv_def)
    obtain a b rest where s: "lw_samples w = a # b # rest"
      using ne le old assms(1) by (cases "lw_samples w"; cases "tl (lw_samples w)") auto
    have "ls_at e - ls_at b < window" "ls_at b - ls_at a \<le> window"
      using inv by (simp_all add: loss_inv_def s)
    moreover have "es = p @ a # butlast (b # rest)"
      using arg_cong [OF h, of butlast] by (simp add: s butlast_append)
    ultimately show ?thesis using old s by simp
  qed
  moreover have "rd_ready (loss_reading w) \<longleftrightarrow> lw_ready w"
    by (simp add: loss_reading_def Let_def)
  moreover have "\<not> lw_ready w" if "es \<noteq> []" "ls_at e - ls_at (last es) > window"
  proof -
    have i: "loss_inv window es (loss_run (loss_new window) es)"
      using assms(2) by (intro loss_run_inv) (simp add: sorted_append)
    from loss_inv_last [OF i that(1)] show ?thesis using i that(2) assms(1,3)
      by (simp add: loss_run_def loss_record_def Let_def loss_inv_def)
  qed
  ultimately show ?thesis using ne le by (auto simp: loss_reading_def Let_def)
qed

theorem loss_reading_spans_window_witness:
  "rd_misses (loss_reading (loss_run (loss_new 60)
     [\<lparr>ls_at = 0, ls_misses = 5, ls_played = 100\<rparr>, \<lparr>ls_at = 30, ls_misses = 6, ls_played = 200\<rparr>,
      \<lparr>ls_at = 61, ls_misses = 9, ls_played = 300\<rparr>])) = 4"
proof -
  let ?es = "[\<lparr>ls_at = 0, ls_misses = 5, ls_played = 100\<rparr>, \<lparr>ls_at = 30, ls_misses = 6, ls_played = 200\<rparr>]"
  let ?e = "\<lparr>ls_at = 61, ls_misses = 9, ls_played = 300\<rparr>"
  have "rd_ready (loss_reading (loss_run (loss_new 60) (?es @ [?e])))"
    by (simp add: loss_run_def loss_new_def loss_record_def loss_reading_def)
  with loss_reading_spans_window [of 60 ?es ?e, OF _ _ refl] show ?thesis by auto
qed

section \<open>BufferDepthWindow\<close>

record depth_window =
  dw_window :: int
  dw_samples :: "(int \<times> nat) list"
  dw_first_at :: int
  dw_has_first :: bool
  dw_ready :: bool

definition depth_new :: "int \<Rightarrow> depth_window" where
  "depth_new window =
     \<lparr>dw_window = window, dw_samples = [], dw_first_at = 0, dw_has_first = False, dw_ready = False\<rparr>"

definition depth_record :: "int \<Rightarrow> nat \<Rightarrow> depth_window \<Rightarrow> depth_window" where
  "depth_record now depth w =
     (let w1 = (if dw_samples w \<noteq> [] \<and> now - fst (last (dw_samples w)) > dw_window w
                then w\<lparr>dw_samples := [], dw_has_first := False, dw_ready := False\<rparr> else w);
          w2 = (if \<not> dw_has_first w1 then w1\<lparr>dw_first_at := now, dw_has_first := True\<rparr> else w1);
          w3 = w2\<lparr>dw_samples := dropWhile (\<lambda>s. now - fst s > dw_window w2) (dw_samples w2 @ [(now, depth)])\<rparr>
      in w3\<lparr>dw_ready := now - dw_first_at w3 \<ge> dw_window w3\<rparr>)"

definition depth_reset :: "depth_window \<Rightarrow> depth_window" where
  "depth_reset w = w\<lparr>dw_samples := [], dw_has_first := False, dw_ready := False\<rparr>"

definition depth_maximum :: "depth_window \<Rightarrow> nat" where
  "depth_maximum w = foldl (\<lambda>result s. max result (snd s)) 0 (dw_samples w)"

definition depth_run :: "depth_window \<Rightarrow> (int \<times> nat) list \<Rightarrow> depth_window" where
  "depth_run w es = fold (\<lambda>(now, d). depth_record now d) es w"

lemma dropWhile_sorted_filter:
  "sorted (map fst es) \<Longrightarrow> dropWhile (\<lambda>s. now - fst s > (w :: int)) es = filter (\<lambda>s. now - fst s \<le> w) es"
  by (induction es) (auto simp: filter_id_conv not_less intro!: filter_True [symmetric])

text \<open>The specification of the window: the samples of the whole history that are young enough.\<close>

definition young :: "int \<Rightarrow> int \<Rightarrow> (int \<times> nat) list \<Rightarrow> (int \<times> nat) list" where
  "young window now es = filter (\<lambda>s. now - fst s \<le> window) es"

lemma young_young: "now \<le> now' \<Longrightarrow> young window now' (young window now es) = young window now' es"
  by (auto simp: young_def intro!: filter_cong)

lemma sorted_le_last: "sorted (map fst es) \<Longrightarrow> s \<in> set es \<Longrightarrow> fst s \<le> fst (last es)"
  by (induction es rule: rev_induct) (auto simp: sorted_append)

lemma depth_run_samples:
  assumes "0 \<le> window" "sorted (map fst es)"
  shows "dw_window (depth_run (depth_new window) es) = window \<and>
    (es \<noteq> [] \<longrightarrow> dw_samples (depth_run (depth_new window) es) = young window (fst (last es)) es) \<and>
    (es = [] \<longrightarrow> dw_samples (depth_run (depth_new window) es) = [])"
  using assms(2)
proof (induction es rule: rev_induct)
  case Nil
  then show ?case by (simp add: depth_run_def depth_new_def)
next
  case (snoc e es)
  obtain now d where e: "e = (now, d)" by (cases e)
  let ?w = "depth_run (depth_new window) es"
  have srt: "sorted (map fst es)" using snoc.prems by (simp add: sorted_append)
  note ih = snoc.IH [OF srt]
  have run: "depth_run (depth_new window) (es @ [e]) = depth_record now d ?w"
    by (simp add: depth_run_def e)
  show ?case
  proof (cases "es = []")
    case True
    with ih assms(1) show ?thesis unfolding run
      by (simp add: depth_record_def Let_def young_def e)
  next
    case False
    have le: "fst (last es) \<le> now" "\<forall>s \<in> set es. fst s \<le> fst (last es)"
      using snoc.prems False srt
      by (auto simp: e sorted_append sorted_le_last)
    have s: "dw_samples ?w = young window (fst (last es)) es" using ih False by simp
    have lastin: "last es \<in> set (young window (fst (last es)) es)"
      using False assms(1) by (simp add: young_def)
    have ne: "dw_samples ?w \<noteq> []" using lastin unfolding s by auto
    have last: "last (dw_samples ?w) = last es"
      using False assms(1) unfolding s young_def by (cases es rule: rev_cases) simp_all
    show ?thesis
    proof (cases "now - fst (last es) > window")
      case True
      have "young window now es = []" using True le(2) by (auto simp: young_def filter_empty_conv)
      then show ?thesis unfolding run using True ne last ih assms(1)
        by (simp add: depth_record_def Let_def young_def e)
    next
      case small: False
      have "sorted (map fst (dw_samples ?w @ [(now, d)]))"
        using snoc.prems unfolding s young_def e by (auto simp: sorted_append sorted_filter)
      from dropWhile_sorted_filter [OF this, where now = now and w = window]
      have "dropWhile (\<lambda>s. now - fst s > window) (dw_samples ?w @ [(now, d)]) =
          young window now (young window (fst (last es)) es @ [(now, d)])"
        by (simp add: young_def s)
      also have "\<dots> = young window now (es @ [e])"
        using young_young [OF le(1)] by (simp add: young_def e)
      finally show ?thesis unfolding run using small ne last ih
        by (simp add: depth_record_def Let_def e)
    qed
  qed
qed

lemma foldl_max: "foldl (\<lambda>r s. max r (f s)) (a :: nat) xs = Max (insert a (f ` set xs))"
proof (induction xs arbitrary: a)
  case (Cons x xs)
  then show ?case by (cases "xs = []") (simp_all add: max.assoc)
qed simp

text \<open>
  After any non-empty sequence of samples at non-decreasing times, the maximum the window reports is
  the largest depth sampled during the last \<open>window\<close>, the newest sample included.
\<close>

theorem depth_maximum_correct:
  assumes "0 \<le> window" "sorted (map fst es)" "es \<noteq> []"
  shows "depth_maximum (depth_run (depth_new window) es) =
    Max (snd ` {s \<in> set es. fst (last es) - fst s \<le> window})"
proof -
  let ?S = "{s \<in> set es. fst (last es) - fst s \<le> window}"
  have "last es \<in> ?S" using assms by simp
  then have "snd ` ?S \<noteq> {}" by blast
  then have "Max (insert 0 (snd ` ?S)) = Max (snd ` ?S)"
    by (subst Max_insert) auto
  then show ?thesis
    using depth_run_samples [OF assms(1,2)] assms(3)
    by (simp add: depth_maximum_def foldl_max young_def)
qed

theorem depth_maximum_correct_witness:
  "depth_maximum (depth_run (depth_new 10) [(0, 50), (5, 8), (12, 9)]) =
     Max (snd ` {s \<in> set [(0, 50), (5, 8), (12, 9 :: nat)]. 12 - fst s \<le> (10::int)})"
  using depth_maximum_correct [of 10 "[(0, 50), (5, 8), (12, 9)]"] by simp

end
