(* ===== verification/RetryPolicies.thy ===== *)
theory RetryPolicies
  imports Prelude
begin

text \<open>
  The small state machines the pumps share: \<^verbatim>\<open>RetryBackoff\<close> (\<^verbatim>\<open>src/app/retry_backoff.h\<close>),
  \<^verbatim>\<open>track_reconnect\<close> (\<^verbatim>\<open>src/app/reconnect_tracker.h\<close>) and \<^verbatim>\<open>generation_delta\<close>
  (\<^verbatim>\<open>include/nockvm/telemetry/counter_delta.h\<close>).
\<close>

section \<open>RetryBackoff\<close>

record retry_backoff =
  rb_backoff :: int
  rb_retry_after :: int
  rb_has_retry :: bool
  rb_logged :: bool

definition rb_new :: "int \<Rightarrow> retry_backoff" where
  "rb_new backoff = \<lparr>rb_backoff = backoff, rb_retry_after = 0, rb_has_retry = False, rb_logged = False\<rparr>"

definition should_attempt :: "int \<Rightarrow> retry_backoff \<Rightarrow> bool" where
  "should_attempt now b \<longleftrightarrow> \<not> rb_has_retry b \<or> now \<ge> rb_retry_after b"

definition on_failure :: "int \<Rightarrow> retry_backoff \<Rightarrow> bool \<times> retry_backoff" where
  "on_failure now b =
     (let b1 = b\<lparr>rb_retry_after := now + rb_backoff b, rb_has_retry := True\<rparr> in
      if rb_logged b1 then (False, b1) else (True, b1\<lparr>rb_logged := True\<rparr>))"

definition on_success :: "retry_backoff \<Rightarrow> retry_backoff" where
  "on_success b = b\<lparr>rb_has_retry := False, rb_logged := False\<rparr>"

definition rb_reset :: "retry_backoff \<Rightarrow> retry_backoff" where
  "rb_reset b = b\<lparr>rb_has_retry := False, rb_logged := False\<rparr>"

lemmas rb_defs = should_attempt_def on_failure_def on_success_def rb_reset_def rb_new_def

text \<open>
  A caller polling once per frame: for every poll, the clock and whether the operation would succeed
  there. The result lists the attempts: time, success, and whether the failure was logged.
\<close>

fun poll_loop :: "retry_backoff \<Rightarrow> (int \<times> bool) list \<Rightarrow> (int \<times> bool \<times> bool) list" where
  "poll_loop b [] = []"
| "poll_loop b ((now, succeeds) # polls) =
     (if should_attempt now b
      then (if succeeds then (now, True, False) # poll_loop (on_success b) polls
            else let (logged, b') = on_failure now b in (now, False, logged) # poll_loop b' polls)
      else poll_loop b polls)"

text \<open>What the attempts after a given outcome have to look like.\<close>

fun well_paced :: "int \<Rightarrow> (int \<times> bool) option \<Rightarrow> (int \<times> bool \<times> bool) list \<Rightarrow> bool" where
  "well_paced backoff prev [] = True"
| "well_paced backoff prev ((t, succeeded, logged) # as) \<longleftrightarrow>
     (case prev of
        Some (t0, False) \<Rightarrow> t \<ge> t0 + backoff \<and> \<not> logged
      | _ \<Rightarrow> logged = (\<not> succeeded)) \<and>
     well_paced backoff (Some (t, succeeded)) as"

definition rb_after :: "int \<Rightarrow> (int \<times> bool) option \<Rightarrow> retry_backoff \<Rightarrow> bool" where
  "rb_after backoff prev b \<longleftrightarrow> rb_backoff b = backoff \<and>
     (case prev of
        Some (t0, False) \<Rightarrow> rb_has_retry b \<and> rb_retry_after b = t0 + backoff \<and> rb_logged b
      | _ \<Rightarrow> \<not> rb_has_retry b \<and> \<not> rb_logged b)"

lemma rb_after_steps:
  assumes "rb_after backoff prev b"
  shows "rb_after backoff (Some (now, True)) (on_success b)"
    and "rb_after backoff (Some (now, False)) (snd (on_failure now b))"
    and "fst (on_failure now b) = (case prev of Some (t0, False) \<Rightarrow> False | _ \<Rightarrow> True)"
    and "should_attempt now b = (case prev of Some (t0, False) \<Rightarrow> now \<ge> t0 + backoff | _ \<Rightarrow> True)"
  using assms by (auto simp: rb_after_def rb_defs Let_def split: option.splits prod.splits bool.splits)

lemma poll_loop_paced: "rb_after backoff prev b \<Longrightarrow> well_paced backoff prev (poll_loop b polls)"
proof (induction polls arbitrary: prev b)
  case (Cons p polls)
  obtain now succeeds where p: "p = (now, succeeds)" by (cases p)
  note steps = rb_after_steps [OF Cons.prems, of now]
  obtain l b' where f: "on_failure now b = (l, b')" by (cases "on_failure now b")
  show ?case
    using steps f Cons.IH [OF steps(1)] Cons.IH [OF steps(2)] Cons.IH [OF Cons.prems]
    by (auto simp: p split: option.splits bool.splits prod.splits)
qed simp

lemma poll_loop_live:
  assumes "rb_after backoff prev b" "(now, s) \<in> set polls"
  shows "(\<exists>l. (now, s, l) \<in> set (poll_loop b polls)) \<or>
    (\<exists>t0. now < t0 + backoff \<and> (prev = Some (t0, False) \<or> (\<exists>l. (t0, False, l) \<in> set (poll_loop b polls))))"
  using assms
proof (induction polls arbitrary: prev b)
  case (Cons p polls)
  obtain n0 s0 where p: "p = (n0, s0)" by (cases p)
  note steps = rb_after_steps [OF Cons.prems(1), of n0]
  obtain l b' where f: "on_failure n0 b = (l, b')" by (cases "on_failure n0 b")
  have here: ?case if "(now, s) = p"
  proof (cases "should_attempt n0 b")
    case True
    with that f show ?thesis by (cases s) (auto simp: p)
  next
    case False
    with steps(4) obtain t0 where "prev = Some (t0, False)" "n0 < t0 + backoff"
      by (auto split: option.splits bool.splits)
    with that show ?thesis by (auto simp: p)
  qed
  have later: ?case if "(now, s) \<in> set polls"
    using Cons.IH [OF steps(1) that] Cons.IH [OF steps(2) that] Cons.IH [OF Cons.prems(1) that] f
    by (auto simp: p)
  from here later Cons.prems(2) show ?case by auto
qed simp

text \<open>
  Polling a failing operation at any rate: two attempts after a failure are at least the backoff
  apart, exactly the first failure of an episode is logged, and a poll that is not attempted falls
  inside the backoff of an earlier failed attempt.
\<close>

theorem backoff_paces_attempts:
  "well_paced backoff None (poll_loop (rb_new backoff) polls) \<and>
   (\<forall>(now, s) \<in> set polls. (\<exists>l. (now, s, l) \<in> set (poll_loop (rb_new backoff) polls)) \<or>
      (\<exists>t0 l. now < t0 + backoff \<and> (t0, False, l) \<in> set (poll_loop (rb_new backoff) polls)))"
proof -
  have n: "rb_after backoff None (rb_new backoff)" by (simp add: rb_after_def rb_new_def)
  show ?thesis using poll_loop_paced [OF n] poll_loop_live [OF n] by blast
qed

theorem backoff_paces_attempts_witness:
  "(30, True, False) \<in> set (poll_loop (rb_new 10) [(0, False), (5, True), (12, False), (30, True)])"
proof -
  have "(30, True) \<in> set [(0, False), (5, True), (12, False), (30::int, True)]" by simp
  from conjunct2 [OF backoff_paces_attempts [of 10 "[(0, False), (5, True), (12, False), (30, True)]"], THEN bspec, OF this]
  show ?thesis by (auto simp: rb_defs)
qed

section \<open>Counting reconnects\<close>

definition track_reconnect :: "bool \<Rightarrow> bool \<Rightarrow> bool \<times> u32 \<Rightarrow> bool \<times> u32" where
  "track_reconnect was_connected is_connected = (\<lambda>(ever_connected, reconnect_count).
     if was_connected \<or> \<not> is_connected then (ever_connected, reconnect_count)
     else (True, if ever_connected then reconnect_count + 1 else reconnect_count))"

text \<open>The caller's loop: one call per frame, remembering the previous frame's state.\<close>

fun track_frames :: "bool \<Rightarrow> bool list \<Rightarrow> bool \<times> u32 \<Rightarrow> bool \<times> u32" where
  "track_frames was [] st = st"
| "track_frames was (is_connected # frames) st =
     track_frames is_connected frames (track_reconnect was is_connected st)"

fun connects :: "bool \<Rightarrow> bool list \<Rightarrow> nat" where
  "connects was [] = 0"
| "connects was (c # cs) = (if \<not> was \<and> c then 1 else 0) + connects c cs"

lemma track_frames_count:
  "track_frames was frames (ever, n) =
     (ever \<or> 0 < connects was frames,
      n + of_nat (if ever then connects was frames else connects was frames - 1))"
  by (induction frames arbitrary: was ever n)
    (auto simp: track_reconnect_def of_nat_diff)

text \<open>
  Over any sequence of frames the reconnect counter is the number of transitions into the connected
  state, less the very first one, modulo the width of the counter.
\<close>

theorem reconnects_counted:
  "track_frames False frames (False, 0) =
     (0 < connects False frames, of_nat (connects False frames - 1))"
  by (simp add: track_frames_count)

section \<open>Counters of recreated instances\<close>

record generation_counter =
  gc_generation :: u64
  gc_value :: u64

definition generation_delta :: "generation_counter \<Rightarrow> generation_counter \<Rightarrow> u64" where
  "generation_delta previous current =
     (if gc_generation current \<noteq> gc_generation previous then gc_value current
      else if gc_value current \<ge> gc_value previous then gc_value current - gc_value previous else 0)"

fun deltas :: "generation_counter \<Rightarrow> generation_counter list \<Rightarrow> nat" where
  "deltas previous [] = 0"
| "deltas previous (c # cs) = unat (generation_delta previous c) + deltas c cs"

text \<open>What the instances counted in all: the last value of every instance, less what the first one
  had counted before the first reading.\<close>

fun counted :: "generation_counter \<Rightarrow> generation_counter list \<Rightarrow> nat" where
  "counted previous [] = unat (gc_value previous)"
| "counted previous (c # cs) =
     (if gc_generation c = gc_generation previous then 0 else unat (gc_value previous)) + counted c cs"

fun monotone_readings :: "generation_counter \<Rightarrow> generation_counter list \<Rightarrow> bool" where
  "monotone_readings previous [] = True"
| "monotone_readings previous (c # cs) \<longleftrightarrow>
     (gc_generation c = gc_generation previous \<longrightarrow> gc_value previous \<le> gc_value c) \<and> monotone_readings c cs"

text \<open>
  Adding up the deltas of successive readings gives exactly what the sequence of instances counted,
  however often the counted object was recreated in between.
\<close>

theorem deltas_add_up:
  assumes "monotone_readings first readings"
  shows "unat (gc_value first) + deltas first readings = counted first readings"
  using assms
proof (induction readings arbitrary: first)
  case (Cons c cs)
  then have ih: "unat (gc_value c) + deltas c cs = counted c cs" by simp
  have "unat (generation_delta first c) =
      (if gc_generation c = gc_generation first then unat (gc_value c) - unat (gc_value first) else unat (gc_value c))"
    using Cons.prems by (auto simp: generation_delta_def unat_sub)
  moreover have "gc_generation c = gc_generation first \<Longrightarrow> unat (gc_value first) \<le> unat (gc_value c)"
    using Cons.prems by (simp add: word_le_nat_alt)
  ultimately show ?case using ih by auto
qed simp

theorem deltas_add_up_witness:
  "deltas \<lparr>gc_generation = 1, gc_value = 10\<rparr>
     [\<lparr>gc_generation = 1, gc_value = 15\<rparr>, \<lparr>gc_generation = 2, gc_value = 3\<rparr>] = 8"
  using deltas_add_up [of "\<lparr>gc_generation = 1, gc_value = 10\<rparr>"
      "[\<lparr>gc_generation = 1, gc_value = 15\<rparr>, \<lparr>gc_generation = 2, gc_value = 3\<rparr>]"] by simp

end
