(* ===== verification/AudioPump.thy ===== *)
theory AudioPump
  imports Connection AudioChannel Playback RollingWindows RetryPolicies TextIO
begin

text \<open>
  The per-frame audio logic of \<^verbatim>\<open>src/app/audio_pump.cpp\<close> and the audio fields of \<^verbatim>\<open>AppState\<close>
  (\<^verbatim>\<open>src/app/app_state.h\<close>). The status of the connection object (\<open>None\<close> when there is no such
  object), the clock, and whether the audio device opens are inputs of a frame; messages sent,
  events logged and failures counted are its output.
\<close>

datatype pump_out = PSend byte bytes | PLog string string | PStartFailure

definition format_desc :: "audio_format \<Rightarrow> string" where
  "format_desc f = show_nat 10 (unat (sample_rate f)) @ ''hz/'' @ show_nat 10 (unat (bit_depth f)) @ ''bit''"

definition settings_payload :: "bool \<Rightarrow> audio_format \<Rightarrow> bytes" where
  "settings_payload enabled f = encode_audio_settings (enabled, sample_rate f, bit_depth f)"

abbreviation is_connected :: "connection_info \<Rightarrow> bool" where
  "is_connected info \<equiv> ci_state info = Connected"

section \<open>The Slave: capturing and sending\<close>

text \<open>\<open>sl_capture\<close> is the running capture device: its format and the address it sends to.\<close>

record slave_audio =
  sl_active :: bool
  sl_capture :: "(audio_format \<times> bytes \<times> u16) option"
  sl_channel :: "audio_channel option"
  sl_active_format :: audio_format
  sl_backoff :: retry_backoff
  sl_send_enabled :: bool
  sl_desired :: audio_format
  sl_last_applied_seq :: u32
  sl_status_reported :: bool
  sl_last_enabled :: bool
  sl_last_format :: audio_format

definition slave_audio_init :: slave_audio where
  "slave_audio_init =
     \<lparr>sl_active = False, sl_capture = None, sl_channel = None, sl_active_format = default_format,
      sl_backoff = rb_new 2000, sl_send_enabled = True, sl_desired = default_format, sl_last_applied_seq = 0,
      sl_status_reported = False, sl_last_enabled = True, sl_last_format = default_format\<rparr>"

definition stop_slave_audio :: "slave_audio \<Rightarrow> pump_out list \<times> slave_audio" where
  "stop_slave_audio st =
     (if sl_active st then [PLog ''audio.slave_stopped'' ''capture stopped''] else [],
      st\<lparr>sl_capture := None, sl_channel := None\<rparr>)"

definition stop_if_active :: "slave_audio \<Rightarrow> pump_out list \<times> slave_audio" where
  "stop_if_active st =
     (if sl_active st then (let (out, st1) = stop_slave_audio st in (out, st1\<lparr>sl_active := False\<rparr>)) else ([], st))"

definition apply_master_request :: "connection_info \<Rightarrow> slave_audio \<Rightarrow> slave_audio" where
  "apply_master_request info st =
     (if ci_control_received info \<and> ci_control_seq info \<noteq> sl_last_applied_seq st
      then st\<lparr>sl_send_enabled := ci_requested_enabled info,
              sl_desired := \<lparr>sample_rate = ci_requested_rate info, bit_depth = ci_requested_depth info\<rparr>,
              sl_last_applied_seq := ci_control_seq info\<rparr>
      else st)"

definition report_status :: "slave_audio \<Rightarrow> pump_out list \<times> slave_audio" where
  "report_status st =
     (if \<not> sl_status_reported st \<or> sl_send_enabled st \<noteq> sl_last_enabled st \<or>
         sl_send_enabled st \<and> sl_desired st \<noteq> sl_last_format st
      then ([PSend kMsgAudioStatus (settings_payload (sl_send_enabled st) (sl_desired st))],
            st\<lparr>sl_status_reported := True, sl_last_enabled := sl_send_enabled st, sl_last_format := sl_desired st\<rparr>)
      else ([], st))"

text \<open>The rest of \<open>pump_slave\<close> once sending is wanted and a (re)start is due.\<close>

definition start_capture :: "crypto \<Rightarrow> connection_info \<Rightarrow> int \<Rightarrow> bool \<Rightarrow> slave_audio \<Rightarrow> pump_out list \<times> slave_audio" where
  "start_capture c info now device_opens st =
     (let format_changed = sl_active st \<and> sl_active_format st \<noteq> sl_desired st;
          st1 = st\<lparr>sl_capture := None\<rparr>;
          st2 = (case sl_channel st1 of
                   None \<Rightarrow> st1\<lparr>sl_channel := Some (audio_channel_new (derive_audio_key c (ci_audio_key info)))\<rparr>
                 | Some _ \<Rightarrow> st1)
      in if \<not> device_opens
         then (let (log, b) = on_failure now (sl_backoff st2);
                   st3 = st2\<lparr>sl_backoff := b\<rparr>;
                   (out, st4) = stop_slave_audio st3
               in (PStartFailure #
                   (if log then [PLog ''audio.slave_start_failed''
                                   (''capture device failed to open, format='' @ format_desc (sl_desired st))] else []) @ out,
                   st4\<lparr>sl_active := False\<rparr>))
         else ([PLog (if format_changed then ''audio.slave_restarted'' else ''audio.slave_started'')
                  (''format='' @ format_desc (sl_desired st))],
               st2\<lparr>sl_capture := Some (sl_desired st, ci_peer_ip info, ci_audio_port info),
                   sl_backoff := on_success (sl_backoff st2), sl_active_format := sl_desired st, sl_active := True\<rparr>))"

definition pump_slave ::
    "crypto \<Rightarrow> connection_info option \<Rightarrow> int \<Rightarrow> bool \<Rightarrow> slave_audio \<Rightarrow> pump_out list \<times> slave_audio" where
  "pump_slave c client now device_opens st =
     (case client of
        None \<Rightarrow>
          (let (out, st1) = stop_if_active st
           in (out, st1\<lparr>sl_status_reported := False, sl_backoff := rb_reset (sl_backoff st1)\<rparr>))
      | Some info \<Rightarrow>
          if \<not> is_connected info then
            (let (out, st1) = stop_if_active st
             in (out, st1\<lparr>sl_status_reported := False, sl_backoff := rb_reset (sl_backoff st1)\<rparr>))
          else
            let st1 = apply_master_request info st;
                (out1, st2) = report_status st1
            in if \<not> sl_send_enabled st2 \<or> ci_audio_port info = 0
               then (let (out2, st3) = stop_if_active st2
                     in (out1 @ out2, st3\<lparr>sl_backoff := rb_reset (sl_backoff st3)\<rparr>))
               else if sl_active st2 \<and> \<not> (sl_active st2 \<and> sl_active_format st2 \<noteq> sl_desired st2) then (out1, st2)
               else if \<not> should_attempt now (sl_backoff st2) then (out1, st2)
               else (let (out2, st3) = start_capture c info now device_opens st2 in (out1 @ out2, st3)))"

text \<open>The capture callback: one recorded packet goes out through the channel.\<close>

definition capture_callback :: "crypto \<Rightarrow> bytes \<Rightarrow> slave_audio \<Rightarrow> bytes option \<times> slave_audio" where
  "capture_callback c data st =
     (case (sl_capture st, sl_channel st) of
        (Some _, Some ch) \<Rightarrow> (let (packet, ch1) = send_to c data ch in (Some packet, st\<lparr>sl_channel := Some ch1\<rparr>))
      | _ \<Rightarrow> (None, st))"

section \<open>The Slave captures only when it should\<close>

definition slave_ok :: "slave_audio \<Rightarrow> bool" where
  "slave_ok st \<longleftrightarrow> (sl_active st \<longleftrightarrow> sl_capture st \<noteq> None) \<and>
     (sl_active st \<longleftrightarrow> sl_channel st \<noteq> None) \<and>
     (\<forall>f ip port. sl_capture st = Some (f, ip, port) \<longrightarrow> f = sl_active_format st)"

lemmas slave_defs = stop_slave_audio_def stop_if_active_def apply_master_request_def report_status_def
  start_capture_def pump_slave_def

lemma slave_ok_init: "slave_ok slave_audio_init"
  by (simp add: slave_ok_def slave_audio_init_def)

lemma slave_ok_stop:
  "slave_ok st \<Longrightarrow> slave_ok (snd (stop_if_active st)) \<and> \<not> sl_active (snd (stop_if_active st)) \<and>
    sl_capture (snd (stop_if_active st)) = None"
  by (cases "sl_capture st") (auto simp: stop_if_active_def stop_slave_audio_def slave_ok_def)

lemma slave_ok_apply [simp]: "slave_ok (apply_master_request info st) = slave_ok st"
  by (simp add: apply_master_request_def slave_ok_def)

lemma slave_ok_report [simp]: "slave_ok (snd (report_status st)) = slave_ok st"
  by (simp add: report_status_def slave_ok_def)

lemma slave_ok_start: "slave_ok st \<Longrightarrow> slave_ok (snd (start_capture c info now opens st))"
  by (auto simp: start_capture_def stop_slave_audio_def slave_ok_def Let_def split: option.split prod.split)

lemma slave_ok_fields [simp]:
  "slave_ok (st\<lparr>sl_status_reported := a\<rparr>) = slave_ok st" "slave_ok (st\<lparr>sl_backoff := b\<rparr>) = slave_ok st"
  by (simp_all add: slave_ok_def)

lemma pump_slave_ok: "slave_ok st \<Longrightarrow> slave_ok (snd (pump_slave c client now opens st))"
  using slave_ok_stop slave_ok_start
  by (auto simp: pump_slave_def Let_def split_def split: option.split)

datatype slave_event = SFrame "connection_info option" int bool | SCaptured bytes | SUser bool audio_format

text \<open>Frames, captured packets and changes by the user, in any order.\<close>

fun slave_step :: "crypto \<Rightarrow> slave_event \<Rightarrow> slave_audio \<Rightarrow> slave_audio" where
  "slave_step c (SFrame client now opens) st = snd (pump_slave c client now opens st)"
| "slave_step c (SCaptured data) st = snd (capture_callback c data st)"
| "slave_step c (SUser enabled f) st = st\<lparr>sl_send_enabled := enabled, sl_desired := f\<rparr>"

lemma slave_run_ok: "slave_ok st \<Longrightarrow> slave_ok (fold (slave_step c) es st)"
proof (induction es arbitrary: st)
  case (Cons e es)
  have "slave_ok (slave_step c e st)"
  proof (cases e)
    case (SFrame client now opens)
    with Cons.prems show ?thesis by (simp add: pump_slave_ok)
  next
    case (SCaptured data)
    with Cons.prems show ?thesis
      by (auto simp: capture_callback_def slave_ok_def send_to_def split: option.split)
  next
    case (SUser enabled f)
    with Cons.prems show ?thesis by (auto simp: slave_ok_def)
  qed
  with Cons show ?case by simp
qed simp

lemma pump_slave_captures:
  assumes "slave_ok st" "sl_capture (snd (pump_slave c client now opens st)) \<noteq> None"
  shows "\<exists>info. client = Some info \<and> is_connected info \<and> ci_audio_port info \<noteq> 0 \<and>
    sl_send_enabled (snd (pump_slave c client now opens st))"
proof -
  have stopped: "sl_capture (snd (stop_if_active s)) = None" if "slave_ok s" for s
    using that slave_ok_stop [of s] by simp
  show ?thesis
  proof (cases client)
    case None
    with assms stopped [of st] show ?thesis by (simp add: pump_slave_def split_def Let_def)
  next
    case (Some info)
    have r: "slave_ok (snd (report_status (apply_master_request info st)))" using assms(1) by simp
    have keeps: "sl_send_enabled (snd (start_capture c info now opens s)) = sl_send_enabled s" for s
      by (simp add: start_capture_def stop_slave_audio_def Let_def split_def split: option.split)
    from Some assms stopped [of st] stopped [OF r] show ?thesis
      by (auto simp: pump_slave_def split_def Let_def keeps split: if_splits)
  qed
qed

text \<open>
  Whatever happened before, right after a frame the capture device runs only if the Slave is
  connected, knows the Master's audio port and sending is enabled; it then runs with the active
  format and a channel to send through, and while it does not run no packet leaves the machine.
\<close>

theorem slave_captures_only_when_enabled:
  assumes "st = fold (slave_step c) es slave_audio_init" "st' = snd (pump_slave c client now opens st)"
  shows "(case sl_capture st' of
      Some (f, ip, port) \<Rightarrow> (\<exists>info. client = Some info \<and> is_connected info \<and> ci_audio_port info \<noteq> 0) \<and>
        sl_send_enabled st' \<and> f = sl_active_format st' \<and> sl_channel st' \<noteq> None
    | None \<Rightarrow> \<not> sl_active st' \<and> sl_channel st' = None \<and> fst (capture_callback c data st') = None)"
proof -
  have ok: "slave_ok st" unfolding assms(1) by (rule slave_run_ok [OF slave_ok_init])
  have "slave_ok st'" unfolding assms(2) by (rule pump_slave_ok [OF ok])
  then show ?thesis
    using pump_slave_captures [OF ok, of c client now opens] unfolding assms(2) [symmetric]
    by (auto simp: slave_ok_def capture_callback_def split: option.split)
qed

theorem slave_captures_only_when_enabled_witness:
  "sl_capture (snd (pump_slave toy_crypto None 50 True
     (fold (slave_step toy_crypto) [SFrame (Some ((connection_at Connected 1 [] [])\<lparr>ci_audio_port := 9\<rparr>)) 10 True]
       slave_audio_init))) = None"
  using slave_captures_only_when_enabled [OF refl refl, of toy_crypto None 50 True
      "[SFrame (Some ((connection_at Connected 1 [] [])\<lparr>ci_audio_port := 9\<rparr>)) 10 True]" "[]"]
  by (auto split: option.splits)

text \<open>
  While connected, the Slave reports its settings exactly when they differ from what it reported
  last on this connection; after the frame the Master has been told the current settings, and the
  message decodes to them.
\<close>

theorem slave_reports_settings:
  assumes "is_connected info" "out = fst (pump_slave c (Some info) now opens st)"
    and "st' = snd (pump_slave c (Some info) now opens st)"
  shows "sl_status_reported st' \<and> sl_last_enabled st' = sl_send_enabled st' \<and>
    (sl_send_enabled st' \<longrightarrow> sl_last_format st' = sl_desired st') \<and>
    (\<forall>ty p. PSend ty p \<in> set out \<longrightarrow> ty = kMsgAudioStatus \<and>
       decode_audio_settings p = Some (sl_send_enabled st', sample_rate (sl_desired st'), bit_depth (sl_desired st'))) \<and>
    ((\<exists>ty p. PSend ty p \<in> set out) \<longleftrightarrow>
       (let s = apply_master_request info st in
        \<not> sl_status_reported s \<or> sl_send_enabled s \<noteq> sl_last_enabled s \<or>
        sl_send_enabled s \<and> sl_desired s \<noteq> sl_last_format s))"
proof -
  let ?s = "apply_master_request info st"
  have dec: "decode_audio_settings (settings_payload a f) = Some (a, sample_rate f, bit_depth f)" for a f
    using audio_settings.dec_enc_append [of "(a, sample_rate f, bit_depth f)" "[]"] by (simp add: settings_payload_def)
  have quiet: "PSend ty p \<notin> set (fst (stop_if_active s))" "PSend ty p \<notin> set (fst (start_capture c info now opens s))" for ty p s
    by (auto simp: stop_if_active_def stop_slave_audio_def start_capture_def Let_def split_def split: option.splits)
  define r where "r = snd (report_status ?s)"
  have rep: "sl_status_reported r" "sl_last_enabled r = sl_send_enabled r"
    "sl_send_enabled r \<longrightarrow> sl_last_format r = sl_desired r" "sl_send_enabled r = sl_send_enabled ?s" "sl_desired r = sl_desired ?s"
    by (auto simp: r_def report_status_def)
  have same: "sl_status_reported (snd (stop_if_active s)) = sl_status_reported s"
    "sl_last_enabled (snd (stop_if_active s)) = sl_last_enabled s" "sl_send_enabled (snd (stop_if_active s)) = sl_send_enabled s"
    "sl_last_format (snd (stop_if_active s)) = sl_last_format s" "sl_desired (snd (stop_if_active s)) = sl_desired s"
    "sl_status_reported (snd (start_capture c info now opens s)) = sl_status_reported s"
    "sl_last_enabled (snd (start_capture c info now opens s)) = sl_last_enabled s"
    "sl_send_enabled (snd (start_capture c info now opens s)) = sl_send_enabled s"
    "sl_last_format (snd (start_capture c info now opens s)) = sl_last_format s"
    "sl_desired (snd (start_capture c info now opens s)) = sl_desired s" for s
    by (auto simp: stop_if_active_def stop_slave_audio_def start_capture_def Let_def split_def split: option.splits)
  have fields: "sl_status_reported st' = sl_status_reported r \<and> sl_last_enabled st' = sl_last_enabled r \<and>
      sl_send_enabled st' = sl_send_enabled r \<and> sl_last_format st' = sl_last_format r \<and> sl_desired st' = sl_desired r"
    using assms by (auto simp: pump_slave_def split_def Let_def r_def [symmetric] same split: if_splits)
  have out: "PSend ty p \<in> set out \<longleftrightarrow> PSend ty p \<in> set (fst (report_status ?s))" for ty p
    using assms quiet by (auto simp: pump_slave_def split_def Let_def split: if_splits)
  have sent: "PSend ty p \<in> set (fst (report_status ?s)) \<longleftrightarrow> ty = kMsgAudioStatus \<and>
      p = settings_payload (sl_send_enabled ?s) (sl_desired ?s) \<and>
      (\<not> sl_status_reported ?s \<or> sl_send_enabled ?s \<noteq> sl_last_enabled ?s \<or> sl_send_enabled ?s \<and> sl_desired ?s \<noteq> sl_last_format ?s)"
    for ty p by (auto simp: report_status_def)
  show ?thesis using fields rep unfolding out sent Let_def by (auto simp: dec)
qed

theorem slave_reports_settings_witness:
  "sl_status_reported (snd (pump_slave toy_crypto (Some (connection_at Connected 1 [] [])) 10 True slave_audio_init))"
  using slave_reports_settings [of "connection_at Connected 1 [] []", OF _ refl refl,
      of toy_crypto 10 True slave_audio_init]
  by (simp add: connection_defs)

section \<open>Two faults\<close>

definition settings_of :: "slave_audio \<Rightarrow> bool \<times> audio_format \<times> u32" where
  "settings_of st = (sl_send_enabled st, sl_desired st, sl_last_applied_seq st)"

lemma settings_of_parts [simp]:
  "settings_of (snd (stop_if_active s)) = settings_of s" "settings_of (snd (report_status s)) = settings_of s"
  "settings_of (snd (start_capture c info now opens s)) = settings_of s"
  "settings_of (s\<lparr>sl_backoff := b\<rparr>) = settings_of s" "settings_of (s\<lparr>sl_status_reported := r\<rparr>) = settings_of s"
  by (auto simp: stop_if_active_def stop_slave_audio_def report_status_def start_capture_def settings_of_def Let_def
      split_def split: option.split)

lemma pump_slave_settings:
  "is_connected info \<Longrightarrow> settings_of (snd (pump_slave c (Some info) now opens st)) = settings_of (apply_master_request info st)"
  "settings_of (snd (pump_slave c None now opens st)) = settings_of st"
  by (simp_all add: pump_slave_def split_def Let_def)

lemma frame_starts:
  assumes "is_connected info" "ci_audio_port info \<noteq> 0" "\<not> ci_control_received info"
    and "\<not> sl_active st" "sl_channel st = None" "sl_send_enabled st" "\<not> rb_has_retry (sl_backoff st)"
    and "st' = slave_step c (SFrame (Some info) now True) st"
  shows "sl_active st'" "sl_capture st' \<noteq> None" "sl_send_enabled st'" "\<not> rb_has_retry (sl_backoff st')"
    "sl_channel st' = Some (audio_channel_new (derive_audio_key c (ci_audio_key info)))"
  using assms(1-7) unfolding assms(8)
  by (auto simp: slave_defs rb_defs Let_def split_def)

lemma frame_stops:
  assumes "is_connected info" "\<not> ci_control_received info" "sl_active st" "\<not> sl_send_enabled st"
    and "st' = slave_step c (SFrame (Some info) now True) st"
  shows "\<not> sl_active st'" "sl_channel st' = None" "\<not> rb_has_retry (sl_backoff st')"
  using assms(1-4) unfolding assms(5)
  by (auto simp: slave_defs rb_defs Let_def split_def)

text \<open>
  C39. Switching sending off and on again within one connection reuses nonces: the new channel has the
  same key and counts from zero again, so the first packets before and after the pause are
  encrypted under the same key and nonce.
\<close>

theorem toggling_reuses_nonce:
  assumes "is_connected info" "ci_audio_port info \<noteq> 0" "\<not> ci_control_received info"
    and "frame1 = SFrame (Some info) now True"
    and "st1 = fold (slave_step c) [frame1] slave_audio_init"
    and "st2 = fold (slave_step c) [frame1, SCaptured a, SUser False default_format, frame1, SUser True default_format, frame1]
      slave_audio_init"
  shows "fst (capture_callback c a st1) = Some (encode_frame c (derive_audio_key c (ci_audio_key info)) 0 a) \<and>
    fst (capture_callback c b st2) = Some (encode_frame c (derive_audio_key c (ci_audio_key info)) 0 b)"
proof -
  let ?K = "audio_channel_new (derive_audio_key c (ci_audio_key info))"
  have first: "capture_callback c x s = (Some (encode_frame c (derive_audio_key c (ci_audio_key info)) 0 x),
      s\<lparr>sl_channel := Some (?K\<lparr>ac_send_seq := 1\<rparr>)\<rparr>)"
    if "sl_capture s \<noteq> None" "sl_channel s = Some ?K" for s x
    using that by (auto simp: capture_callback_def send_to_def audio_channel_new_def)
  have st1: "st1 = slave_step c (SFrame (Some info) now True) slave_audio_init" unfolding assms(4,5) by simp
  have "\<not> sl_active slave_audio_init" "sl_channel slave_audio_init = None" "sl_send_enabled slave_audio_init"
    "\<not> rb_has_retry (sl_backoff slave_audio_init)" by (simp_all add: slave_audio_init_def rb_new_def)
  note on1 = frame_starts [OF assms(1-3) this st1]
  define s2 where "s2 = slave_step c (SUser False default_format) (slave_step c (SCaptured a) st1)"
  have s2: "sl_active s2" "\<not> sl_send_enabled s2" using on1 by (simp_all add: s2_def first)
  define s3 where "s3 = slave_step c (SFrame (Some info) now True) s2"
  note off = frame_stops [OF assms(1,3) s2 s3_def]
  define s4 where "s4 = slave_step c (SUser True default_format) s3"
  have s4: "\<not> sl_active s4" "sl_channel s4 = None" "sl_send_enabled s4" "\<not> rb_has_retry (sl_backoff s4)"
    using off by (simp_all add: s4_def)
  have st2: "st2 = slave_step c (SFrame (Some info) now True) s4"
    unfolding assms(6) s4_def s3_def s2_def st1 assms(4) by simp
  note on2 = frame_starts [OF assms(1-3) s4 st2]
  show ?thesis using first [OF on1(2,5)] first [OF on2(2,5)] by simp
qed

theorem toggling_reuses_nonce_witness:
  "fst (capture_callback toy_crypto [1] (fold (slave_step toy_crypto)
     [SFrame (Some ((connection_at Connected 1 [] [])\<lparr>ci_audio_port := 9\<rparr>)) 10 True] slave_audio_init)) =
   Some (encode_frame toy_crypto (derive_audio_key toy_crypto (replicate 32 0)) 0 [1])"
  using toggling_reuses_nonce [of "(connection_at Connected 1 [] [])\<lparr>ci_audio_port := 9\<rparr>", OF _ _ _ refl refl refl,
      where c = toy_crypto and now = 10 and a = "[1]"]
  by (simp add: connection_defs)

text \<open>
  A Slave whose last applied request had number \<open>n\<close> ignores request number \<open>n\<close> of a later
  connection, although the numbers restart at 1 with every connection: after one request in the first
  connection, the first request of the second one has no effect.
\<close>

theorem request_of_new_connection_ignored:
  assumes "is_connected info1" "ci_control_received info1" "ci_control_seq info1 = 1"
    and "is_connected info2" "ci_control_received info2" "ci_control_seq info2 = 1"
    and "st = fold (slave_step c) [SFrame (Some info1) t1 o1, SFrame None t2 o2] slave_audio_init"
  shows "sl_send_enabled (snd (pump_slave c (Some info2) t3 o3 st)) = ci_requested_enabled info1 \<and>
    sl_desired (snd (pump_slave c (Some info2) t3 o3 st)) =
      \<lparr>sample_rate = ci_requested_rate info1, bit_depth = ci_requested_depth info1\<rparr>"
proof -
  let ?s1 = "snd (pump_slave c (Some info1) t1 o1 slave_audio_init)"
  have "sl_last_applied_seq slave_audio_init = 0" by (simp add: slave_audio_init_def)
  with pump_slave_settings(1) [OF assms(1), of c t1 o1 slave_audio_init] assms(2,3)
  have s1: "settings_of ?s1 = (ci_requested_enabled info1,
      \<lparr>sample_rate = ci_requested_rate info1, bit_depth = ci_requested_depth info1\<rparr>, 1)"
    by (simp add: apply_master_request_def settings_of_def)
  have "settings_of st = settings_of ?s1" unfolding assms(7) by (simp add: pump_slave_settings(2))
  with s1 pump_slave_settings(1) [OF assms(4), of c t3 o3 st] assms(6) show ?thesis
    by (auto simp: apply_master_request_def settings_of_def)
qed

theorem request_of_new_connection_ignored_witness:
  "sl_send_enabled (snd (pump_slave toy_crypto
      (Some ((connection_at Connected 1 [] [])\<lparr>ci_control_received := True, ci_control_seq := 1, ci_requested_enabled := False\<rparr>)) 30 True
      (fold (slave_step toy_crypto)
        [SFrame (Some ((connection_at Connected 1 [] [])\<lparr>ci_control_received := True, ci_control_seq := 1\<rparr>)) 10 True, SFrame None 20 True]
        slave_audio_init)))"
proof -
  let ?i = "(connection_at Connected 1 [] [])\<lparr>ci_control_received := True, ci_control_seq := 1\<rparr>"
  let ?j = "(connection_at Connected 1 [] [])\<lparr>ci_control_received := True, ci_control_seq := 1, ci_requested_enabled := False\<rparr>"
  have "is_connected ?i" "is_connected ?j" "ci_requested_enabled ?i" by (simp_all add: connection_defs)
  with request_of_new_connection_ignored [of ?i ?j, OF _ _ _ _ _ _ refl,
      where c = toy_crypto and ?t1.0 = 10 and ?o1.0 = True and ?t2.0 = 20 and ?o2.0 = True and ?t3.0 = 30 and ?o3.0 = True]
  show ?thesis by simp
qed

end
