(* ===== verification/AudioMaster.thy ===== *)
theory AudioMaster
  imports AudioPump
begin

text \<open>
  The Master's half of \<^verbatim>\<open>src/app/audio_pump.cpp\<close>: receiving, playing back and requesting settings.
  Inputs of a frame are the status of the server (\<open>None\<close> when there is no server), the clock, whether
  the playback device opens, the process-wide underrun counter and the datagrams waiting at the
  audio socket.
\<close>

section \<open>State and operations\<close>

text \<open>\<open>ma_playback\<close> is the jitter buffer of the \<^verbatim>\<open>AudioPlayback\<close> object, when there is one.\<close>

record master_audio =
  ma_active :: bool
  ma_playback :: "jitter option"
  ma_generation :: u64
  ma_underruns_baseline :: u64
  ma_loss :: loss_window
  ma_last_sample :: int
  ma_depth :: depth_window
  ma_recv_key :: "bytes option"
  ma_active_format :: audio_format
  ma_desired_enabled :: bool
  ma_desired :: audio_format
  ma_overridden :: bool
  ma_control_sent :: bool
  ma_last_enabled :: bool
  ma_last_format :: audio_format

definition kTargetDepth :: nat where "kTargetDepth = 8"
definition kMaxDepth :: nat where "kMaxDepth = 200"
definition kAudioLossSampleInterval :: int where "kAudioLossSampleInterval = 1000"

definition master_audio_init :: master_audio where
  "master_audio_init =
     \<lparr>ma_active = False, ma_playback = None, ma_generation = 0, ma_underruns_baseline = 0,
      ma_loss = loss_new 60000, ma_last_sample = 0, ma_depth = depth_new 10000, ma_recv_key = None,
      ma_active_format = default_format, ma_desired_enabled = True, ma_desired = default_format,
      ma_overridden = False, ma_control_sent = False, ma_last_enabled = True, ma_last_format = default_format\<rparr>"

definition stop_master_audio :: "master_audio \<Rightarrow> pump_out list \<times> master_audio" where
  "stop_master_audio st =
     ([PLog ''audio.master_stopped'' ''playback stopped''],
      st\<lparr>ma_playback := None, ma_recv_key := None, ma_loss := loss_reset (ma_loss st),
         ma_depth := depth_reset (ma_depth st)\<rparr>)"

definition stop_master_if_active :: "master_audio \<Rightarrow> pump_out list \<times> master_audio" where
  "stop_master_if_active st =
     (if ma_active st then (let (out, st1) = stop_master_audio st in (out, st1\<lparr>ma_active := False\<rparr>)) else ([], st))"

text \<open>Mirror the Slave's settings, or push the user's request when it changed.\<close>

definition sync_control :: "connection_info \<Rightarrow> master_audio \<Rightarrow> pump_out list \<times> master_audio" where
  "sync_control info st =
     (if \<not> ma_overridden st
      then ([], st\<lparr>ma_desired_enabled := ci_audio_send_enabled info,
                   ma_desired := \<lparr>sample_rate = ci_audio_rate info, bit_depth = ci_audio_depth info\<rparr>\<rparr>)
      else if \<not> ma_control_sent st \<or> ma_desired_enabled st \<noteq> ma_last_enabled st \<or>
              ma_desired_enabled st \<and> ma_desired st \<noteq> ma_last_format st
      then ([PSend kMsgAudioControl (settings_payload (ma_desired_enabled st) (ma_desired st))],
            st\<lparr>ma_control_sent := True, ma_last_enabled := ma_desired_enabled st, ma_last_format := ma_desired st\<rparr>)
      else ([], st))"

definition peer_format :: "connection_info \<Rightarrow> audio_format" where
  "peer_format info = \<lparr>sample_rate = ci_audio_rate info, bit_depth = ci_audio_depth info\<rparr>"

definition start_playback ::
    "crypto \<Rightarrow> connection_info \<Rightarrow> bool \<Rightarrow> u64 \<Rightarrow> master_audio \<Rightarrow> pump_out list \<times> master_audio" where
  "start_playback c info device_opens underruns st =
     (let format_changed = ma_active st \<and> peer_format info \<noteq> ma_active_format st;
          st1 = st\<lparr>ma_playback := (if device_opens then Some (jb_new kTargetDepth kMaxDepth) else None),
                   ma_generation := ma_generation st + 1, ma_underruns_baseline := underruns,
                   ma_loss := loss_reset (ma_loss st), ma_last_sample := 0, ma_depth := depth_reset (ma_depth st),
                   ma_active_format := peer_format info,
                   ma_recv_key := (case ma_recv_key st of
                       None \<Rightarrow> Some (derive_audio_key c (ci_audio_key info)) | Some k \<Rightarrow> Some k),
                   ma_active := True\<rparr>
      in ([if device_opens
           then PLog (if format_changed then ''audio.master_restarted'' else ''audio.master_started'')
                  (''format='' @ format_desc (peer_format info))
           else PLog ''audio.master_start_failed''
                  (''playback device failed to open, format='' @ format_desc (peer_format info))], st1))"

text \<open>
  The receive loop: it ends with the first datagram that does not decode. The result is the buffer and
  the increments of the counters \<open>received\<close>, \<open>rejected\<close>, \<open>decoded\<close> and \<open>dropped_cap\<close>.
\<close>

record packet_counts =
  pc_received :: nat
  pc_rejected :: nat
  pc_decoded :: nat
  pc_dropped :: nat

definition no_packets :: packet_counts where
  "no_packets = \<lparr>pc_received = 0, pc_rejected = 0, pc_decoded = 0, pc_dropped = 0\<rparr>"

fun drain_packets :: "crypto \<Rightarrow> bytes \<Rightarrow> bytes list \<Rightarrow> jitter \<Rightarrow> packet_counts \<Rightarrow> jitter \<times> packet_counts" where
  "drain_packets c k [] buf n = (buf, n)"
| "drain_packets c k (d # ds) buf n =
     (let (r, rest, received, rejected) = receive_nonblocking c k (d # ds);
          n1 = n\<lparr>pc_received := pc_received n + received, pc_rejected := pc_rejected n + rejected\<rparr>
      in case r of
           None \<Rightarrow> (buf, n1)
         | Some (seq, data) \<Rightarrow>
             (let (buf', dropped) = jb_push seq data buf in
              drain_packets c k ds buf' (n1\<lparr>pc_decoded := Suc (pc_decoded n1), pc_dropped := pc_dropped n1 + dropped\<rparr>)))"

definition sample_windows :: "int \<Rightarrow> jitter \<Rightarrow> master_audio \<Rightarrow> master_audio" where
  "sample_windows now buf st =
     (if now - ma_last_sample st \<ge> kAudioLossSampleInterval
      then st\<lparr>ma_loss := loss_record now (jb_playout_misses buf) (jb_frames_played buf) (ma_loss st),
              ma_depth := depth_record now (jb_depth buf) (ma_depth st), ma_last_sample := now\<rparr>
      else st)"

definition ensure_playback ::
    "crypto \<Rightarrow> connection_info \<Rightarrow> bool \<Rightarrow> u64 \<Rightarrow> master_audio \<Rightarrow> pump_out list \<times> master_audio" where
  "ensure_playback c info device_opens underruns st =
     (if \<not> ma_active st \<or> peer_format info \<noteq> ma_active_format st
      then start_playback c info device_opens underruns st else ([], st))"

definition receive_audio :: "crypto \<Rightarrow> int \<Rightarrow> bytes list \<Rightarrow> master_audio \<Rightarrow> packet_counts \<times> master_audio" where
  "receive_audio c now waiting st =
     (case (ma_playback st, ma_recv_key st) of
        (Some buf, Some k) \<Rightarrow>
          (let st1 = sample_windows now buf st; (buf', n) = drain_packets c k waiting buf no_packets
           in (n, st1\<lparr>ma_playback := Some buf'\<rparr>))
      | _ \<Rightarrow> (no_packets, st))"

definition pump_master ::
    "crypto \<Rightarrow> connection_info option \<Rightarrow> int \<Rightarrow> bool \<Rightarrow> u64 \<Rightarrow> bytes list \<Rightarrow> master_audio \<Rightarrow>
     pump_out list \<times> packet_counts \<times> master_audio" where
  "pump_master c server now device_opens underruns waiting st =
     (let stopped = (let (out, st1) = stop_master_if_active st
                     in (out, no_packets, st1\<lparr>ma_control_sent := False, ma_overridden := False\<rparr>))
      in case server of
        None \<Rightarrow> stopped
      | Some info \<Rightarrow>
          if \<not> is_connected info then stopped
          else
            let (out1, st1) = sync_control info st in
            if \<not> ci_audio_send_enabled info
            then (let (out2, st2) = stop_master_if_active st1 in (out1 @ out2, no_packets, st2))
            else
              let (out2, st2) = ensure_playback c info device_opens underruns st1;
                  (n, st3) = receive_audio c now waiting st2
              in (out1 @ out2, n, st3))"

text \<open>The playback device asks for audio: one packet leaves the buffer.\<close>

definition playback_pop :: "master_audio \<Rightarrow> bytes option \<times> master_audio" where
  "playback_pop st =
     (case ma_playback st of
        None \<Rightarrow> (None, st)
      | Some buf \<Rightarrow> (case jb_pop buf of None \<Rightarrow> (None, st) | Some (r, buf') \<Rightarrow> (r, st\<lparr>ma_playback := Some buf'\<rparr>)))"

section \<open>The invariant\<close>

definition master_ok :: "master_audio \<Rightarrow> bool" where
  "master_ok st \<longleftrightarrow> (\<forall>buf. ma_playback st = Some buf \<longrightarrow> jb_inv buf \<and> jb_max buf = kMaxDepth \<and> ma_active st) \<and>
     (ma_active st \<longleftrightarrow> ma_recv_key st \<noteq> None)"

lemma drain_packets_inv:
  "jb_inv buf \<Longrightarrow> drain_packets c k ds buf n = (buf', n') \<Longrightarrow> jb_inv buf' \<and> jb_max buf' = jb_max buf"
proof (induction ds arbitrary: buf n)
  case (Cons d ds)
  obtain r rest a b where r: "receive_nonblocking c k (d # ds) = (r, rest, a, b)" by (metis surj_pair)
  show ?case
  proof (cases r)
    case None
    with Cons.prems r show ?thesis by (simp add: Let_def)
  next
    case (Some f)
    obtain seq data where f: "f = (seq, data)" by (cases f)
    obtain buf1 dr where p: "jb_push seq data buf = (buf1, dr)" by fastforce
    have "jb_inv buf1" "jb_max buf1 = jb_max buf"
      using jb_push_inv [OF Cons.prems(1) p] p evict_frame_fields(1) [of seq data buf] by auto
    with Cons.IH [of buf1] Cons.prems(2) r Some f p show ?thesis by (auto simp: Let_def)
  qed
qed simp

lemma jb_new_depth [simp]: "jb_inv (jb_new kTargetDepth kMaxDepth)" "jb_max (jb_new kTargetDepth kMaxDepth) = kMaxDepth"
  by (auto simp: kTargetDepth_def kMaxDepth_def) (simp add: jb_new_def Let_def)

lemma master_ok_stop: "master_ok st \<Longrightarrow> master_ok (snd (stop_master_if_active st))"
  by (auto simp: master_ok_def stop_master_if_active_def stop_master_audio_def)

lemma master_ok_sync: "master_ok st \<Longrightarrow> master_ok (snd (sync_control info st))"
  by (auto simp: master_ok_def sync_control_def)

lemma master_ok_start: "master_ok st \<Longrightarrow> master_ok (snd (start_playback c info opens u st))"
  by (auto simp: master_ok_def start_playback_def Let_def split: option.split)

lemma master_ok_fields [simp]:
  "master_ok (st\<lparr>ma_control_sent := a\<rparr>) = master_ok st" "master_ok (st\<lparr>ma_overridden := b\<rparr>) = master_ok st"
  "master_ok (sample_windows now buf st) = master_ok st"
  by (simp_all add: master_ok_def sample_windows_def)

lemma master_ok_ensure: "master_ok st \<Longrightarrow> master_ok (snd (ensure_playback c info opens u st))"
  by (simp add: ensure_playback_def master_ok_start)

lemma master_ok_receive:
  assumes "master_ok st"
  shows "master_ok (snd (receive_audio c now waiting st))"
proof (cases "ma_playback st = None \<or> ma_recv_key st = None")
  case True
  with assms show ?thesis by (auto simp: receive_audio_def split: option.split)
next
  case False
  then obtain buf k where bk: "ma_playback st = Some buf" "ma_recv_key st = Some k" by auto
  obtain buf' n where d: "drain_packets c k waiting buf no_packets = (buf', n)" by fastforce
  have "master_ok (sample_windows now buf st)" "ma_playback (sample_windows now buf st) = Some buf"
    using assms bk by simp (simp add: bk sample_windows_def)
  with drain_packets_inv [OF _ d] show ?thesis
    by (auto simp: receive_audio_def bk d master_ok_def)
qed

lemma pump_master_ok:
  assumes "master_ok st"
  shows "master_ok (snd (snd (pump_master c server now opens u waiting st)))"
proof -
  have stop: "master_ok (snd (stop_master_if_active s))" if "master_ok s" for s using that by (rule master_ok_stop)
  show ?thesis
  proof (cases server)
    case None
    with stop [OF assms] show ?thesis by (simp add: pump_master_def split_def Let_def)
  next
    case (Some info)
    have "master_ok (snd (sync_control info st))" using assms by (rule master_ok_sync)
    with Some stop [OF assms] stop [OF this] show ?thesis
      by (simp add: pump_master_def split_def Let_def master_ok_ensure master_ok_receive)
  qed
qed

datatype master_event = MFrame "connection_info option" int bool u64 "bytes list" | MPop | MUser bool bool audio_format

fun master_step :: "crypto \<Rightarrow> master_event \<Rightarrow> master_audio \<Rightarrow> master_audio" where
  "master_step c (MFrame server now opens u waiting) st = snd (snd (pump_master c server now opens u waiting st))"
| "master_step c MPop st = snd (playback_pop st)"
| "master_step c (MUser ov enabled f) st = st\<lparr>ma_overridden := ov, ma_desired_enabled := enabled, ma_desired := f\<rparr>"

lemma master_run_ok: "master_ok st \<Longrightarrow> master_ok (fold (master_step c) es st)"
proof (induction es arbitrary: st)
  case (Cons e es)
  have "master_ok (master_step c e st)"
  proof (cases e)
    case (MFrame server now opens u waiting)
    with Cons.prems show ?thesis by (simp add: pump_master_ok)
  next
    case MPop
    with MPop Cons.prems show ?thesis
      by (auto simp: playback_pop_def master_ok_def dest: jb_pop_inv jb_pop_fields split: option.split)
  next
    case (MUser ov enabled f)
    with Cons.prems show ?thesis by (auto simp: master_ok_def)
  qed
  with Cons show ?case by simp
qed simp



text \<open>
  C10. From one end to the other: if every waiting datagram is the packet of some frame of the Slave's
  stream, in any order, with losses and duplicates, then the playback buffer receives exactly those
  frames under their sequence numbers, and none is rejected.
\<close>

theorem audio_end_to_end:
  assumes "crypto_ok c" "\<forall>i \<in> set arriving. i < length ds" "\<forall>d \<in> set ds. length d + 20 \<le> AudioChannel.kMaxPacketSize"
    and "k = ac_key ch" "packets = fst (send_frames c ds ch)"
  shows "fst (drain_packets c k (map ((!) packets) arriving) buf n) =
      jb_push_all buf (map (\<lambda>i. (ac_send_seq ch + of_nat i, ds ! i)) arriving) \<and>
    pc_rejected (snd (drain_packets c k (map ((!) packets) arriving) buf n)) = pc_rejected n"
  using assms(2)
proof (induction arriving arbitrary: buf n)
  case (Cons i js)
  have p: "packets ! i = encode_frame c k (ac_send_seq ch + of_nat i) (ds ! i)"
    using Cons.prems unfolding assms(4,5) by (simp add: send_frames_packets number_from_nth)
  have len: "length (packets ! i) \<le> AudioChannel.kMaxPacketSize" "packets ! i \<noteq> []"
    using Cons.prems assms(3) length_encode_frame [OF assms(1), of k "ac_send_seq ch + of_nat i" "ds ! i"]
    unfolding p by (auto simp flip: length_greater_0_conv)
  have "receive_nonblocking c k (packets ! i # w) = (Some (ac_send_seq ch + of_nat i, ds ! i), w, 1, 0)" for w
    using len decode_encode_frame [OF assms(1)] by (simp add: receive_nonblocking_def Let_def p)
  with Cons show ?case by (simp add: Let_def split_def)
qed simp

theorem audio_end_to_end_witness:
  "fst (drain_packets toy_crypto (replicate 32 3)
     (map ((!) (fst (send_frames toy_crypto [[1], [2]] (audio_channel_new (replicate 32 3))))) [1, 0]) (jb_new 8 200) no_packets) =
   jb_push_all (jb_new 8 200) [(1, [2]), (0, [1])]"
  using audio_end_to_end [OF toy_crypto_ok, of "[1, 0]" "[[1], [2]]", OF _ _ refl refl, of "audio_channel_new (replicate 32 3)" "jb_new 8 200" no_packets]
  by (simp add: AudioChannel.kMaxPacketSize_def audio_channel_new_def)

text \<open>
  A request of the Master's user does not survive a frame without a connection: the override flag,
  restored from the settings file at program start, is cleared by the first frame, since no
  Slave is connected yet, and the requested settings are then overwritten by the Slave's.
\<close>

theorem override_lost_before_connecting:
  assumes "ma_overridden st" "case server of None \<Rightarrow> True | Some info \<Rightarrow> \<not> is_connected info"
    and "st1 = snd (snd (pump_master c server now opens u waiting st))"
    and "is_connected info" "\<not> ci_audio_send_enabled info"
    and "st2 = snd (snd (pump_master c (Some info) now' opens' u' waiting' st1))"
  shows "\<not> ma_overridden st1 \<and> \<not> ma_desired_enabled st2 \<and> ma_desired st2 = peer_format info"
proof -
  have st1: "\<not> ma_overridden st1"
    using assms(2) unfolding assms(3)
    by (cases server) (auto simp: pump_master_def split_def Let_def)
  have "ma_desired_enabled (snd (stop_master_if_active s)) = ma_desired_enabled s"
    "ma_desired (snd (stop_master_if_active s)) = ma_desired s" for s
    by (simp_all add: stop_master_if_active_def stop_master_audio_def)
  with st1 assms(4,5) show ?thesis unfolding assms(6)
    by (simp add: pump_master_def split_def Let_def sync_control_def peer_format_def)
qed

theorem override_lost_before_connecting_witness:
  "\<not> ma_overridden (snd (snd (pump_master toy_crypto None 5 True 0 [] (master_audio_init\<lparr>ma_overridden := True\<rparr>))))"
  using override_lost_before_connecting [of "master_audio_init\<lparr>ma_overridden := True\<rparr>" None, OF _ _ refl _ _ refl,
      of "connection_at Connected 1 [] []" toy_crypto 5 True 0 "[]"]
  by (simp add: connection_defs)

end
