(* ===== verification/RotatingLog.thy ===== *)
theory RotatingLog
  imports TextIO
begin

text \<open>
  The log files, \<^verbatim>\<open>src/telemetry/logger.cpp\<close>: one active file and up to \<open>max_files - 1\<close> backups.
  A file system call that has nothing to act on fails without an effect, as the code expects when it
  ignores the error code; any other failure, and other programs' access to the files, is left out,
  except that the system may refuse to open the active file.
\<close>

section \<open>State\<close>

text \<open>
  \<open>lg_files 0\<close> is \<^verbatim>\<open>dir/base_name\<close> and \<open>lg_files i\<close> is \<^verbatim>\<open>dir/base_name.i\<close>; \<open>lg_may_open\<close> is the answer of
  the system when the active file is to be opened.
\<close>

record logger =
  lg_max_bytes :: nat
  lg_max_files :: nat
  lg_files :: "nat \<rightharpoonup> string"
  lg_open :: bool
  lg_current_size :: nat
  lg_rotation_count :: nat
  lg_may_open :: bool

definition new_logger :: "nat \<Rightarrow> int \<Rightarrow> (nat \<rightharpoonup> string) \<Rightarrow> bool \<Rightarrow> logger" where
  "new_logger max_bytes max_files files may_open =
     \<lparr>lg_max_bytes = max_bytes, lg_max_files = nat (if max_files < 1 then 1 else max_files), lg_files = files,
      lg_open = False, lg_current_size = 0, lg_rotation_count = 0, lg_may_open = may_open\<rparr>"

section \<open>Operations\<close>

definition remove_file :: "nat \<Rightarrow> (nat \<rightharpoonup> string) \<Rightarrow> (nat \<rightharpoonup> string)" where
  "remove_file i fs = fs(i := None)"

definition rename_file :: "nat \<Rightarrow> nat \<Rightarrow> (nat \<rightharpoonup> string) \<Rightarrow> (nat \<rightharpoonup> string)" where
  "rename_file i j fs = (case fs i of None \<Rightarrow> fs | Some c \<Rightarrow> fs(j := Some c, i := None))"

definition open_log :: "logger \<Rightarrow> logger \<times> bool" where
  "open_log s =
     (if \<not> lg_may_open s then (s, False)
      else let content = (case lg_files s 0 of None \<Rightarrow> [] | Some c \<Rightarrow> c)
           in (s\<lparr>lg_files := (lg_files s)(0 \<mapsto> content), lg_open := True, lg_current_size := length content\<rparr>, True))"

definition shift_backups :: "nat \<Rightarrow> (nat \<rightharpoonup> string) \<Rightarrow> (nat \<rightharpoonup> string)" where
  "shift_backups max_files fs =
     (if max_files > 1
      then rename_file 0 1 (fold (\<lambda>i. rename_file i (i + 1)) (rev [1..<max_files - 1]) (remove_file (max_files - 1) fs))
      else fs)"

definition rotate_log :: "logger \<Rightarrow> logger" where
  "rotate_log s =
     (let s1 = s\<lparr>lg_files := shift_backups (lg_max_files s) (lg_files s), lg_open := False\<rparr>;
          s2 = (if lg_may_open s1 then s1\<lparr>lg_files := (lg_files s1)(0 \<mapsto> []), lg_open := True\<rparr> else s1)
      in s2\<lparr>lg_current_size := 0, lg_rotation_count := lg_rotation_count s2 + 1\<rparr>)"

definition append_active :: "string \<Rightarrow> logger \<Rightarrow> logger" where
  "append_active t s =
     (if lg_open s then s\<lparr>lg_files := (lg_files s)(0 \<mapsto> (case lg_files s 0 of None \<Rightarrow> [] | Some c \<Rightarrow> c) @ t)\<rparr> else s)"

definition write_line :: "string \<Rightarrow> logger \<Rightarrow> logger" where
  "write_line line s =
     (if \<not> lg_open s then s
      else let needed = length line + 1;
               s1 = (if lg_current_size s > 0 \<and> lg_current_size s + needed > lg_max_bytes s then rotate_log s else s);
               s2 = append_active (line @ [newline]) s1
           in s2\<lparr>lg_current_size := lg_current_size s2 + needed\<rparr>)"

section \<open>What rotating does to the files\<close>

text \<open>The content of a file, empty if there is none, and of the whole log, oldest first.\<close>

definition content :: "(nat \<rightharpoonup> string) \<Rightarrow> nat \<Rightarrow> string" where
  "content fs i = (case fs i of None \<Rightarrow> [] | Some c \<Rightarrow> c)"

definition log_text :: "logger \<Rightarrow> string" where
  "log_text s = concat (map (content (lg_files s)) (rev [0..<lg_max_files s]))"

lemma fold_rename:
  assumes "k \<le> m" "fs m = None" "1 \<le> k"
  shows "fold (\<lambda>i. rename_file i (i + 1)) (rev [k..<m]) fs =
    (\<lambda>i. if k < i \<and> i \<le> m then fs (i - 1) else if i = k then None else fs i)"
  using assms
proof (induction m arbitrary: fs)
  case (Suc m)
  show ?case
  proof (cases "k = Suc m")
    case True
    then show ?thesis using Suc.prems by (auto simp: fun_eq_iff)
  next
    case False
    then have k: "k \<le> m" using Suc.prems by simp
    let ?fs = "rename_file m (Suc m) fs"
    have fs: "?fs = fs(Suc m := fs m, m := None)"
      using Suc.prems(2) by (auto simp: rename_file_def fun_eq_iff split: option.split)
    then have "?fs m = None" by simp
    have "fold (\<lambda>i. rename_file i (i + 1)) (rev [k..<Suc m]) fs = fold (\<lambda>i. rename_file i (i + 1)) (rev [k..<m]) ?fs"
      using k by simp
    also have "\<dots> = (\<lambda>i. if k < i \<and> i \<le> m then ?fs (i - 1) else if i = k then None else ?fs i)"
      by (rule Suc.IH) (use k \<open>?fs m = None\<close> Suc.prems(3) in simp_all)
    also have "\<dots> = (\<lambda>i. if k < i \<and> i \<le> Suc m then fs (i - 1) else if i = k then None else fs i)"
      unfolding fs using k Suc.prems(2,3) by (auto simp: fun_eq_iff)
    finally show ?thesis .
  qed
qed simp

lemma shift_backups_eq:
  assumes "1 < m" "fs 0 \<noteq> None"
  shows "shift_backups m fs = (\<lambda>i. if i = 0 then None else if i < m then fs (i - 1) else fs i)"
proof -
  have "(1::nat) \<le> m - 1" using assms by simp
  from fold_rename [OF this, of "remove_file (m - 1) fs"]
  have f: "fold (\<lambda>i. rename_file i (i + 1)) (rev [1..<m - 1]) (remove_file (m - 1) fs) =
      (\<lambda>i. if 1 < i \<and> i \<le> m - 1 then remove_file (m - 1) fs (i - 1) else if i = 1 then None else remove_file (m - 1) fs i)"
    by (simp add: remove_file_def)
  show ?thesis
    unfolding shift_backups_def f using assms
    by (auto simp: rename_file_def remove_file_def fun_eq_iff split: option.split)
qed

definition backup_text :: "logger \<Rightarrow> string" where
  "backup_text s = concat (map (content (lg_files s)) (rev [1..<lg_max_files s]))"

lemma log_text_split: "0 < lg_max_files s \<Longrightarrow> log_text s = backup_text s @ content (lg_files s) 0"
  by (simp add: log_text_def backup_text_def upt_conv_Cons)

text \<open>An open log whose active file is as long as recorded.\<close>

definition log_ready :: "logger \<Rightarrow> bool" where
  "log_ready s \<longleftrightarrow> lg_open s \<and> lg_may_open s \<and> lg_max_files s > 0 \<and>
     (\<exists>c. lg_files s 0 = Some c \<and> lg_current_size s = length c)"

lemma rotate_fields [simp]:
  "lg_max_bytes (rotate_log s) = lg_max_bytes s" "lg_max_files (rotate_log s) = lg_max_files s"
  "lg_may_open (rotate_log s) = lg_may_open s" "lg_current_size (rotate_log s) = 0"
  "lg_rotation_count (rotate_log s) = lg_rotation_count s + 1"
  by (simp_all add: rotate_log_def Let_def)

lemma rotate_ready:
  assumes "log_ready s"
  shows "log_ready (rotate_log s) \<and> lg_files (rotate_log s) =
    (\<lambda>i. if i = 0 then Some [] else if i < lg_max_files s then lg_files s (i - 1) else lg_files s i)"
proof -
  from assms obtain c where a: "lg_files s 0 = Some c" "lg_may_open s" "lg_max_files s > 0" by (auto simp: log_ready_def)
  have "(shift_backups (lg_max_files s) (lg_files s))(0 \<mapsto> []) =
      (\<lambda>i. if i = 0 then Some [] else if i < lg_max_files s then lg_files s (i - 1) else lg_files s i)"
  proof (cases "1 < lg_max_files s")
    case True
    then show ?thesis using a by (subst shift_backups_eq) (auto simp: fun_eq_iff)
  next
    case False
    then show ?thesis using a by (auto simp: shift_backups_def fun_eq_iff)
  qed
  then show ?thesis using a by (simp add: log_ready_def rotate_log_def Let_def)
qed

lemma rotate_text:
  assumes "log_ready s"
  shows "log_text s = content (lg_files s) (lg_max_files s - 1) @ log_text (rotate_log s)"
proof -
  have m: "lg_max_files s > 0" using assms by (simp add: log_ready_def)
  obtain n where n: "lg_max_files s = Suc n" using m by (cases "lg_max_files s") auto
  have "map (content (lg_files (rotate_log s))) (rev [1..<Suc n]) = map (content (lg_files s)) (rev [0..<n])"
    using conjunct2 [OF rotate_ready [OF assms]] n
    by (simp add: rev_map [symmetric] map_Suc_upt [symmetric] o_def content_def del: upt_Suc)
  moreover have "content (lg_files (rotate_log s)) 0 = []"
    using conjunct2 [OF rotate_ready [OF assms]] by (simp add: content_def)
  moreover have "log_text s = content (lg_files s) n @ concat (map (content (lg_files s)) (rev [0..<n]))"
    using n by (simp add: log_text_def)
  moreover have "log_text (rotate_log s) = backup_text (rotate_log s) @ content (lg_files (rotate_log s)) 0"
    using m by (intro log_text_split) simp
  ultimately show ?thesis using n by (simp add: backup_text_def del: upt_Suc One_nat_def)
qed

section \<open>Writing\<close>

text \<open>The step of \<^verbatim>\<open>write_line\<close> after the decision to rotate.\<close>

definition put_line :: "string \<Rightarrow> logger \<Rightarrow> logger" where
  "put_line t s = (append_active t s)\<lparr>lg_current_size := lg_current_size s + length t\<rparr>"

lemma write_line_eq:
  "write_line l s =
    (if \<not> lg_open s then s
     else put_line (l @ [newline])
       (if lg_current_size s > 0 \<and> lg_current_size s + (length l + 1) > lg_max_bytes s then rotate_log s else s))"
  by (simp add: write_line_def put_line_def append_active_def Let_def)

lemma put_ready:
  assumes "log_ready s"
  shows "log_ready (put_line t s) \<and> log_text (put_line t s) = log_text s @ t \<and>
    lg_files (put_line t s) = (lg_files s)(0 \<mapsto> content (lg_files s) 0 @ t)"
proof -
  from assms obtain c where c: "lg_files s 0 = Some c" "lg_current_size s = length c" "lg_open s" "lg_max_files s > 0"
    by (auto simp: log_ready_def)
  then have f: "lg_files (put_line t s) = (lg_files s)(0 \<mapsto> c @ t)" and m: "lg_max_files (put_line t s) = lg_max_files s"
    by (simp_all add: put_line_def append_active_def)
  have "map (content (lg_files (put_line t s))) (rev [1..<lg_max_files s]) = map (content (lg_files s)) (rev [1..<lg_max_files s])"
    by (rule map_cong [OF refl]) (simp add: f content_def)
  then have "backup_text (put_line t s) = backup_text s" by (simp only: backup_text_def m)
  then have "log_text (put_line t s) = log_text s @ t" using c m f by (simp add: log_text_split content_def)
  moreover have "log_ready (put_line t s)" using assms c f by (simp add: log_ready_def put_line_def append_active_def)
  ultimately show ?thesis using f c by (simp add: content_def)
qed

lemma put_fields [simp]:
  "lg_max_bytes (put_line t s) = lg_max_bytes s" "lg_max_files (put_line t s) = lg_max_files s"
  "lg_rotation_count (put_line t s) = lg_rotation_count s"
  by (simp_all add: put_line_def append_active_def)

lemma write_line_fields [simp]:
  "lg_max_bytes (write_line l s) = lg_max_bytes s" "lg_max_files (write_line l s) = lg_max_files s"
  by (simp_all add: write_line_eq)

definition line_text :: "string list \<Rightarrow> string" where
  "line_text ls = concat (map (\<lambda>l. l @ [newline]) ls)"

text \<open>What the log holds of the text \<open>h\<close> that went into it: its end, and when something is missing more than the limit.\<close>

definition keeps_end :: "string \<Rightarrow> logger \<Rightarrow> bool" where
  "keeps_end h s \<longleftrightarrow> log_ready s \<and> (\<exists>k. log_text s = drop k h \<and> k \<le> length h \<and>
     (0 < k \<and> 1 < lg_max_files s \<longrightarrow> lg_max_bytes s < length (content (lg_files s) 1) + length (content (lg_files s) 0)))"

lemma keeps_end_put:
  assumes "keeps_end h s"
  shows "keeps_end (h @ t) (put_line t s)"
proof -
  from assms obtain k where k: "log_ready s" "log_text s = drop k h" "k \<le> length h"
    "0 < k \<and> 1 < lg_max_files s \<longrightarrow> lg_max_bytes s < length (content (lg_files s) 1) + length (content (lg_files s) 0)"
    by (auto simp: keeps_end_def)
  with put_ready [OF k(1), of t] show ?thesis
    unfolding keeps_end_def by (intro conjI exI [of _ k]) (auto simp: content_def)
qed

lemma keeps_end_write:
  assumes "keeps_end h s"
  shows "keeps_end (h @ l @ [newline]) (write_line l s)"
proof (cases "lg_current_size s > 0 \<and> lg_current_size s + (length l + 1) > lg_max_bytes s")
  case False
  moreover have "lg_open s" using assms by (simp add: keeps_end_def log_ready_def)
  ultimately have "write_line l s = put_line (l @ [newline]) s" by (auto simp: write_line_eq)
  then show ?thesis using keeps_end_put [OF assms, of "l @ [newline]"] by simp
next
  case True
  let ?r = "rotate_log s" and ?t = "l @ [newline]"
  have ready: "log_ready s" using assms by (simp add: keeps_end_def)
  note rr = rotate_ready [OF ready]
  note pp = put_ready [OF conjunct1 [OF rr], of ?t]
  from assms obtain k where k: "log_text s = drop k h" "k \<le> length h" by (auto simp: keeps_end_def)
  let ?k = "k + length (content (lg_files s) (lg_max_files s - 1))"
  have rest: "log_text ?r = drop ?k h"
    using rotate_text [OF ready] k by (metis append_eq_conv_conj drop_drop add.commute)
  have le: "?k \<le> length h"
    using arg_cong [OF rotate_text [OF ready], of length] k by simp
  have "lg_max_bytes s < length (content (lg_files (put_line ?t ?r)) 1) + length (content (lg_files (put_line ?t ?r)) 0)"
    if "1 < lg_max_files s"
    using that True ready rr pp by (auto simp: content_def log_ready_def)
  then have "keeps_end (h @ ?t) (put_line ?t ?r)" using pp rest le by (auto simp: keeps_end_def intro!: exI [of _ ?k])
  then show ?thesis using True ready by (simp add: write_line_eq log_ready_def)
qed

lemma keeps_end_lines:
  "keeps_end h s \<Longrightarrow> keeps_end (h @ line_text ls) (fold write_line ls s)"
proof (induction ls arbitrary: h s)
  case (Cons l ls)
  from Cons.IH [OF keeps_end_write [OF Cons.prems, of l]] show ?case by (simp add: line_text_def)
qed (simp add: line_text_def)

lemma keeps_end_fresh: "log_ready s \<Longrightarrow> keeps_end (log_text s) s"
  unfolding keeps_end_def by (intro conjI exI [of _ 0]) simp_all

lemma open_log_ready:
  "open_log (new_logger max_bytes max_files files True) = (s0, ok) \<Longrightarrow> ok \<and> log_ready s0 \<and> lg_max_bytes s0 = max_bytes \<and>
    lg_max_files s0 = nat (if max_files < 1 then 1 else max_files) \<and> lg_files s0 = files(0 \<mapsto> content files 0)"
  by (auto simp: open_log_def new_logger_def log_ready_def content_def Let_def)


section \<open>Bounded files\<close>

definition files_bounded :: "nat \<Rightarrow> logger \<Rightarrow> bool" where
  "files_bounded b s \<longleftrightarrow> (\<forall>i < lg_max_files s. length (content (lg_files s) i) \<le> b)"

lemma files_bounded_write:
  assumes "log_ready s" "files_bounded b s" "lg_max_bytes s \<le> b" "length l < b"
  shows "log_ready (write_line l s) \<and> files_bounded b (write_line l s) \<and>
    (\<forall>i \<ge> lg_max_files s. lg_files (write_line l s) i = lg_files s i)"
proof -
  let ?big = "lg_current_size s > 0 \<and> lg_current_size s + (length l + 1) > lg_max_bytes s"
  let ?s = "if ?big then rotate_log s else s"
  have w: "write_line l s = put_line (l @ [newline]) ?s" using assms(1) by (simp add: write_line_eq log_ready_def)
  have ready: "log_ready ?s" using rotate_ready [OF assms(1)] assms(1) by simp
  have m: "0 < lg_max_files s" using assms(1) by (simp add: log_ready_def)
  have size: "length (content (lg_files ?s) 0) + (length l + 1) \<le> b"
    using assms rotate_ready [OF assms(1)] by (auto simp: log_ready_def content_def)
  have other: "\<forall>i < lg_max_files s. length (content (lg_files ?s) i) \<le> b"
    using assms(2) rotate_ready [OF assms(1)] by (auto simp: files_bounded_def content_def)
  have outside: "\<forall>i \<ge> lg_max_files s. lg_files ?s i = lg_files s i"
    using m rotate_ready [OF assms(1)] by auto
  note p = put_ready [OF ready, of "l @ [newline]"]
  show ?thesis
    unfolding w files_bounded_def using p size other outside m by (auto simp: content_def)
qed

lemma files_bounded_lines:
  assumes "log_ready s" "files_bounded b s" "lg_max_bytes s \<le> b" "\<forall>l \<in> set ls. length l < b"
  shows "files_bounded b (fold write_line ls s) \<and> (\<forall>i \<ge> lg_max_files s. lg_files (fold write_line ls s) i = lg_files s i)"
  using assms
proof (induction ls arbitrary: s)
  case (Cons l ls)
  from files_bounded_write [OF Cons.prems(1-3), of l] Cons.prems(4)
  have w: "log_ready (write_line l s)" "files_bounded b (write_line l s)"
    "\<forall>i \<ge> lg_max_files s. lg_files (write_line l s) i = lg_files s i" by simp_all
  from Cons.IH [OF w(1,2)] Cons.prems w(3) show ?case by simp
qed simp

text \<open>
  The log cannot grow without limit: however much is written, every file stays within the limit (or
  the longest single line, where that is longer), so all of them together within that times their
  number, and no file besides the active one and its \<open>max_files - 1\<close> backups is touched.
\<close>

theorem log_bounded:
  assumes "open_log (new_logger max_bytes max_files files True) = (s0, ok)" "1 \<le> max_files"
    and "max_bytes \<le> b" "\<forall>i < nat max_files. length (content files i) \<le> b" "\<forall>l \<in> set ls. length l < b"
  shows "(\<forall>i < nat max_files. length (content (lg_files (fold write_line ls s0)) i) \<le> b) \<and>
    length (log_text (fold write_line ls s0)) \<le> nat max_files * b \<and>
    (\<forall>i \<ge> nat max_files. lg_files (fold write_line ls s0) i = files i)"
proof -
  let ?s = "fold write_line ls s0"
  have s0: "lg_max_files s0 = nat max_files" "lg_max_bytes s0 = max_bytes" "log_ready s0"
    "lg_files s0 = files(0 \<mapsto> content files 0)"
    using open_log_ready [OF assms(1)] assms(2) by simp_all
  have "files_bounded b s0" using assms(4) s0 by (auto simp: files_bounded_def content_def)
  from files_bounded_lines [OF s0(3) this] assms(3,5) s0(1,2)
  have r: "files_bounded b ?s" "\<forall>i \<ge> nat max_files. lg_files ?s i = lg_files s0 i" by simp_all
  have m: "lg_max_files ?s = nat max_files" unfolding s0(1) [symmetric] by (induction ls arbitrary: s0) simp_all
  have "length (log_text ?s) = sum_list (map (\<lambda>i. length (content (lg_files ?s) i)) (rev [0..<nat max_files]))"
    by (simp add: log_text_def m length_concat o_def)
  also have "\<dots> \<le> sum_list (map (\<lambda>i. b) (rev [0..<nat max_files]))"
    by (rule sum_list_mono) (use r(1) m in \<open>auto simp: files_bounded_def\<close>)
  finally have "length (log_text ?s) \<le> nat max_files * b" by (simp add: sum_list_triv)
  moreover have "\<forall>i \<ge> nat max_files. lg_files ?s i = files i" using r(2) s0(4) assms(2) by auto
  ultimately show ?thesis using r(1) m by (simp add: files_bounded_def)
qed

section \<open>A concrete run\<close>

text \<open>Files of at most eight characters, three of them.\<close>

definition demo_lines :: "string list" where
  "demo_lines = [''abc'', ''def'', ''ghi'', ''jkl'', ''mno'', ''pqr'', ''stu'', ''vwx'']"

definition demo_log :: logger where
  "demo_log = fst (open_log (new_logger 8 3 (\<lambda>i. None) True))"

lemma demo_open: "open_log (new_logger 8 3 (\<lambda>i. None) True) = (demo_log, True)"
  by (simp add: demo_log_def open_log_def new_logger_def Let_def)


theorem log_bounded_witness:
  "length (log_text (fold write_line demo_lines demo_log)) \<le> 24"
  using log_bounded [OF demo_open, of 8 demo_lines] by (simp add: content_def demo_lines_def)

end
