(* ===== verification/Telemetry.thy ===== *)
theory Telemetry
  imports Complex_Main RotatingLog RetryPolicies Connection
begin

text \<open>
  What the program writes into its log: \<^verbatim>\<open>src/telemetry/format.cpp\<close>, \<^verbatim>\<open>src/telemetry/telemetry.cpp\<close> and
  \<^verbatim>\<open>src/app/telemetry_pump.cpp\<close>. The wall clock's time stamps and what the system says about the
  process are parameters; a \<^verbatim>\<open>double\<close> is an exact rational number.
\<close>

section \<open>Lines\<close>

definition escape_char :: "char \<Rightarrow> string" where
  "escape_char c = (if c = CHR 0x22 \<or> c = CHR 0x5C then [CHR 0x5C, c] else [c])"

definition format_event_line :: "string \<Rightarrow> string \<Rightarrow> string" where
  "format_event_line key message =
     ''event='' @ key @ '' message='' @ [CHR 0x22] @ concat (map escape_char message) @ [CHR 0x22]"

text \<open>A reader of such lines.\<close>

fun unescape :: "string \<Rightarrow> (string \<times> string) option" where
  "unescape [] = None"
| "unescape (c # cs) =
     (if c = CHR 0x22 then Some ([], cs)
      else if c = CHR 0x5C
      then (case cs of [] \<Rightarrow> None | d # ds \<Rightarrow> map_option (\<lambda>(m, r). (d # m, r)) (unescape ds))
      else map_option (\<lambda>(m, r). (c # m, r)) (unescape cs))"

definition parse_event_line :: "string \<Rightarrow> (string \<times> string) option" where
  "parse_event_line line =
     (let rest = drop 6 line; key = takeWhile (\<lambda>c. c \<noteq> CHR '' '') rest; tail = dropWhile (\<lambda>c. c \<noteq> CHR '' '') rest in
      if take 6 line \<noteq> ''event='' \<or> take 10 tail \<noteq> '' message='' @ [CHR 0x22] then None
      else case unescape (drop 10 tail) of Some (m, []) \<Rightarrow> Some (key, m) | _ \<Rightarrow> None)"

lemma unescape_escape: "unescape (concat (map escape_char m) @ CHR 0x22 # r) = Some (m, r)"
  by (induction m) (simp_all add: escape_char_def)

text \<open>
  An event line can be read back: whatever characters the message holds, quotes and backslashes
  included, the line yields the key and the message it was made from, so no message can pass for the end
  of its line or for another field.
\<close>

theorem event_line_roundtrip:
  assumes "CHR '' '' \<notin> set key"
  shows "parse_event_line (format_event_line key message) = Some (key, message)"
proof -
  have tw: "takeWhile (\<lambda>c. c \<noteq> CHR '' '') (key @ CHR '' '' # r) = key"
    and dw: "dropWhile (\<lambda>c. c \<noteq> CHR '' '') (key @ CHR '' '' # r) = CHR '' '' # r" for r
    using assms by (induction key) auto
  show ?thesis
    using unescape_escape [of message "[]"]
    by (simp add: parse_event_line_def format_event_line_def tw dw numeral_eq_Suc Let_def)
qed

theorem event_line_roundtrip_witness:
  "parse_event_line (format_event_line ''connection.dropped'' [CHR 0x5C, CHR 0x22]) = Some (''connection.dropped'', [CHR 0x5C, CHR 0x22])"
  by (rule event_line_roundtrip) simp

section \<open>The periodic summary\<close>

record counters =
  ct_raw_input_events :: u64
  ct_raw_input_processed :: u64
  ct_received :: u64
  ct_decoded :: u64
  ct_rejected :: u64
  ct_dropped_cap :: u64
  ct_underruns :: u64
  ct_start_failures :: u64
  ct_clipboard_sent :: u64
  ct_clipboard_received :: u64

record periodic_summary =
  ps_uptime_s :: u64
  ps_cpu_pct :: rat
  ps_working_set_mib :: rat
  ps_private_mib :: rat
  ps_handles :: u32
  ps_fps :: rat
  ps_frame_avg_ms :: rat
  ps_frame_max_ms :: rat
  ps_window_visible :: bool
  ps_buffer_depth :: nat
  ps_buffer_cap :: nat
  ps_audio_rx_pps :: rat
  ps_raw_input_pps :: rat
  ps_counters :: counters
  ps_connected :: bool
  ps_connection_state :: string
  ps_role :: string

text \<open>\<^verbatim>\<open>%.nf\<close>: the nearest number with \<open>n\<close> decimals, the even one of two.\<close>

definition round_even :: "rat \<Rightarrow> int" where
  "round_even q = (if q - of_int \<lfloor>q\<rfloor> = 1 / 2 \<and> even \<lfloor>q\<rfloor> then \<lfloor>q\<rfloor> else \<lfloor>q + 1 / 2\<rfloor>)"

definition show_fixed :: "nat \<Rightarrow> rat \<Rightarrow> string" where
  "show_fixed n q =
     (let m = nat (round_even (\<bar>q\<bar> * 10 ^ n)); frac = show_nat 10 (m mod 10 ^ n) in
      (if q < 0 then ''-'' else []) @ show_nat 10 (m div 10 ^ n) @
      (if n = 0 then [] else ''.'' @ replicate (n - length frac) (CHR ''0'') @ frac))"

definition show_word :: "'a::len word \<Rightarrow> string" where
  "show_word w = show_nat 10 (unat w)"

definition show_bool :: "bool \<Rightarrow> string" where
  "show_bool b = (if b then ''true'' else ''false'')"

text \<open>The buffer of the source holds 767 characters and the terminating zero.\<close>

definition format_periodic_summary :: "periodic_summary \<Rightarrow> string" where
  "format_periodic_summary s = (let c = ps_counters s in take 767 (concat
     [''uptime_s='', show_word (ps_uptime_s s), '' cpu_pct='', show_fixed 1 (ps_cpu_pct s),
      '' working_set_mib='', show_fixed 0 (ps_working_set_mib s), '' private_mib='', show_fixed 0 (ps_private_mib s),
      '' handles='', show_word (ps_handles s), '' fps='', show_fixed 1 (ps_fps s),
      '' frame_avg_ms='', show_fixed 1 (ps_frame_avg_ms s), '' frame_max_ms='', show_fixed 1 (ps_frame_max_ms s),
      '' window_visible='', show_bool (ps_window_visible s),
      '' audio_buffer='', show_nat 10 (ps_buffer_depth s), ''/'', show_nat 10 (ps_buffer_cap s),
      '' audio_rx_pps='', show_fixed 1 (ps_audio_rx_pps s), '' audio_rx='', show_word (ct_received c),
      '' audio_decoded='', show_word (ct_decoded c), '' audio_rejected='', show_word (ct_rejected c),
      '' audio_dropped='', show_word (ct_dropped_cap c), '' audio_underruns='', show_word (ct_underruns c),
      '' audio_start_failures='', show_word (ct_start_failures c),
      '' raw_input_pps='', show_fixed 1 (ps_raw_input_pps s), '' raw_input_total='', show_word (ct_raw_input_events c),
      '' raw_input_processed='', show_word (ct_raw_input_processed c),
      '' clipboard_sent='', show_word (ct_clipboard_sent c), '' clipboard_received='', show_word (ct_clipboard_received c),
      '' connected='', show_bool (ps_connected s), '' role='', ps_role s, '' state='', ps_connection_state s]))"

section \<open>Writing lines\<close>

definition kMaxLogFileBytes :: nat where "kMaxLogFileBytes = 5 * 1024 * 1024"
definition kMaxLogFiles :: int where "kMaxLogFiles = 3"
definition kReportIntervalSeconds :: int where "kReportIntervalSeconds = 60"
definition kSustainedUnderrunThreshold :: u64 where "kSustainedUnderrunThreshold = 100"

text \<open>\<open>stamp\<close> and \<open>stamp'\<close> are the times of the two possible writes.\<close>

definition log_write :: "string \<times> string \<Rightarrow> string \<Rightarrow> logger option \<Rightarrow> logger option" where
  "log_write = (\<lambda>(stamp, stamp') line g. case g of None \<Rightarrow> None | Some l \<Rightarrow>
     (let l1 = write_line (stamp @ '' '' @ line) l
      in Some (if lg_rotation_count l1 \<noteq> lg_rotation_count l
               then write_line (stamp' @ '' '' @ format_event_line ''telemetry.rotated'' ''log file rotated'') l1
               else l1)))"

definition log_event :: "string \<times> string \<Rightarrow> string \<Rightarrow> string \<Rightarrow> logger option \<Rightarrow> logger option" where
  "log_event stamps key message = log_write stamps (format_event_line key message)"

record telemetry =
  tm_log :: "logger option"
  tm_start :: int
  tm_interval_start :: int
  tm_frame_count :: u64
  tm_frame_sum_ms :: rat
  tm_frame_max_ms :: rat
  tm_prev_received :: u64
  tm_prev_underruns :: u64
  tm_prev_raw_input :: u64
  tm_prev_cap :: generation_counter

definition telemetry_init :: "string \<times> string \<Rightarrow> (nat \<rightharpoonup> string) \<Rightarrow> bool \<Rightarrow> int \<Rightarrow> telemetry \<Rightarrow> telemetry" where
  "telemetry_init stamps files may_open now t =
     (case open_log (new_logger kMaxLogFileBytes kMaxLogFiles files may_open) of
        (_, False) \<Rightarrow> t
      | (l, True) \<Rightarrow> t\<lparr>tm_log := log_event stamps ''telemetry.started'' ''telemetry logging initialized'' (Some l),
                       tm_start := now, tm_interval_start := now\<rparr>)"

section \<open>The periodic report\<close>

record frame_context =
  fc_visible :: bool
  fc_depth :: nat
  fc_cap :: nat
  fc_cap_counter :: generation_counter
  fc_connected :: bool
  fc_role :: string
  fc_state :: string

text \<open>What a call of \<open>tick\<close> reads from outside: clock (in nanoseconds), counters, the process, and the
  times of its writes.\<close>

record tick_env =
  te_now :: int
  te_counters :: counters
  te_cpu_pct :: rat
  te_working_set :: rat
  te_private :: rat
  te_handles :: u32
  te_stamps :: "nat \<Rightarrow> string \<times> string"

definition seconds_between :: "int \<Rightarrow> int \<Rightarrow> rat" where
  "seconds_between a b = of_int (b - a) / 10 ^ 9"

definition count_frame :: "rat \<Rightarrow> telemetry \<Rightarrow> telemetry" where
  "count_frame frame_time_ms t =
     t\<lparr>tm_frame_count := tm_frame_count t + 1, tm_frame_sum_ms := tm_frame_sum_ms t + frame_time_ms,
       tm_frame_max_ms := (if frame_time_ms > tm_frame_max_ms t then frame_time_ms else tm_frame_max_ms t)\<rparr>"

definition make_summary :: "tick_env \<Rightarrow> frame_context \<Rightarrow> telemetry \<Rightarrow> periodic_summary" where
  "make_summary e ctx t =
     (let c = te_counters e;
          interval_s = seconds_between (tm_interval_start t) (te_now e);
          per_second = (\<lambda>n :: u64. if interval_s > 0 then of_nat (unat n) / interval_s else 0);
          frames = of_nat (unat (tm_frame_count t))
      in \<lparr>ps_uptime_s = word_of_int \<lfloor>seconds_between (tm_start t) (te_now e)\<rfloor>, ps_cpu_pct = te_cpu_pct e,
          ps_working_set_mib = te_working_set e, ps_private_mib = te_private e, ps_handles = te_handles e,
          ps_fps = per_second (tm_frame_count t),
          ps_frame_avg_ms = (if tm_frame_count t > 0 then tm_frame_sum_ms t / frames else 0),
          ps_frame_max_ms = tm_frame_max_ms t, ps_window_visible = fc_visible ctx,
          ps_buffer_depth = fc_depth ctx, ps_buffer_cap = fc_cap ctx,
          ps_audio_rx_pps = per_second (ct_received c - tm_prev_received t),
          ps_raw_input_pps = per_second (ct_raw_input_events c - tm_prev_raw_input t),
          ps_counters = c, ps_connected = fc_connected ctx, ps_connection_state = fc_state ctx, ps_role = fc_role ctx\<rparr>)"

text \<open>The lines of a report, in the order they are written.\<close>

definition report_lines :: "tick_env \<Rightarrow> frame_context \<Rightarrow> telemetry \<Rightarrow> string list" where
  "report_lines e ctx t =
     (let c = te_counters e;
          underrun_delta = ct_underruns c - tm_prev_underruns t;
          cap_episode_delta = generation_delta (tm_prev_cap t) (fc_cap_counter ctx);
          interval_s = seconds_between (tm_interval_start t) (te_now e)
      in [format_periodic_summary (make_summary e ctx t)] @
         (if underrun_delta \<ge> kSustainedUnderrunThreshold
          then [format_event_line ''audio.sustained_underruns''
                  (''underruns='' @ show_word underrun_delta @ '' over_last_s='' @ show_int \<lfloor>interval_s\<rfloor>)]
          else []) @
         (if cap_episode_delta > 0
          then [format_event_line ''audio.jitter_buffer_cap_reached''
                  (''episodes='' @ show_word cap_episode_delta @ '' max_depth='' @ show_nat 10 (fc_cap ctx) @
                   '' total_dropped='' @ show_word (ct_dropped_cap c))]
          else []))"

definition start_interval :: "tick_env \<Rightarrow> frame_context \<Rightarrow> telemetry \<Rightarrow> telemetry" where
  "start_interval e ctx t =
     t\<lparr>tm_prev_received := ct_received (te_counters e), tm_prev_underruns := ct_underruns (te_counters e),
       tm_prev_raw_input := ct_raw_input_events (te_counters e), tm_prev_cap := fc_cap_counter ctx,
       tm_frame_count := 0, tm_frame_sum_ms := 0, tm_frame_max_ms := 0, tm_interval_start := te_now e\<rparr>"

text \<open>The lines \<open>tick\<close> writes, and the state after it.\<close>

definition tick :: "tick_env \<Rightarrow> rat \<Rightarrow> frame_context \<Rightarrow> telemetry \<Rightarrow> string list \<times> telemetry" where
  "tick e frame_time_ms ctx t =
     (case tm_log t of
        None \<Rightarrow> ([], t)
      | Some l \<Rightarrow>
          (let t1 = count_frame frame_time_ms t in
           if seconds_between (tm_interval_start t1) (te_now e) < of_int kReportIntervalSeconds then ([], t1)
           else let ls = report_lines e ctx t1;
                    g = fold (\<lambda>(i, line). log_write (te_stamps e i) line) (enumerate 0 ls) (Some l)
                in (ls, (start_interval e ctx t1)\<lparr>tm_log := g\<rparr>)))"

section \<open>Transitions\<close>

fun state_name :: "connection_state \<Rightarrow> string" where
  "state_name Idle_state = ''idle''"
| "state_name Connecting = ''connecting''"
| "state_name Pairing = ''pairing''"
| "state_name Connected = ''connected''"
| "state_name Failed = ''failed''"

record pump_state =
  pt_last_visible :: bool
  pt_last_state :: connection_state
  pt_ever_connected :: bool
  pt_reconnect_count :: u32

definition pump_init :: pump_state where
  "pump_init = \<lparr>pt_last_visible = True, pt_last_state = Idle_state, pt_ever_connected = False, pt_reconnect_count = 0\<rparr>"

definition window_events :: "bool \<Rightarrow> pump_state \<Rightarrow> (string \<times> string) list \<times> pump_state" where
  "window_events visible p =
     (if pt_last_visible p \<noteq> visible
      then ([if visible then (''window.shown'', ''window restored from tray'') else (''window.hidden'', ''window hidden to tray'')],
            p\<lparr>pt_last_visible := visible\<rparr>)
      else ([], p))"

definition connection_events :: "connection_state \<Rightarrow> pump_state \<Rightarrow> (string \<times> string) list \<times> pump_state" where
  "connection_events s p =
     (let (ever, n) = track_reconnect (pt_last_state p = Connected) (s = Connected) (pt_ever_connected p, pt_reconnect_count p);
          p1 = p\<lparr>pt_ever_connected := ever, pt_reconnect_count := n\<rparr>
      in if s \<noteq> pt_last_state p1
         then ([(if s = Connected then ''connection.established''
                 else if pt_last_state p1 = Connected then ''connection.dropped'' else ''connection.state_changed'',
                 state_name s)],
               p1\<lparr>pt_last_state := s\<rparr>)
         else ([], p1))"

text \<open>
  A frame: the status of the connection object of the role, if there is one, and for the Master the
  depth, capacity, cap episodes and generation of its playback, if it has one.
\<close>

definition pump_telemetry :: "role \<Rightarrow> connection_state option \<Rightarrow> (nat \<times> nat \<times> generation_counter) option \<Rightarrow> rat \<Rightarrow> bool \<Rightarrow>
    tick_env \<Rightarrow> (nat \<Rightarrow> string \<times> string) \<Rightarrow> pump_state \<times> telemetry \<Rightarrow>
    ((string \<times> string) list \<times> string list) \<times> pump_state \<times> telemetry" where
  "pump_telemetry r connection playback frame_time_ms visible e stamps = (\<lambda>(p, t).
     let (evs1, p1) = window_events visible p;
         s = (case connection of None \<Rightarrow> Idle_state | Some s \<Rightarrow> s);
         (evs2, p2) = connection_events s p1;
         evs = evs1 @ evs2;
         g = fold (\<lambda>(i, key, message). log_event (stamps i) key message) (enumerate 0 evs) (tm_log t);
         (depth, cap, counter) =
           (case (r, playback) of (Master, Some pb) \<Rightarrow> pb | _ \<Rightarrow> (0, 0, \<lparr>gc_generation = 0, gc_value = 0\<rparr>));
         ctx = \<lparr>fc_visible = visible, fc_depth = depth, fc_cap = cap, fc_cap_counter = counter,
                fc_connected = (s = Connected), fc_role = (if r = Master then ''master'' else ''slave''),
                fc_state = state_name s\<rparr>;
         (ls, t1) = tick e frame_time_ms ctx (t\<lparr>tm_log := g\<rparr>)
     in ((evs, ls), p2, t1))"

section \<open>Reports are paced\<close>

text \<open>A run of \<open>tick\<close>: the frames at which a report was written.\<close>

fun tick_run :: "(tick_env \<times> rat \<times> frame_context) list \<Rightarrow> telemetry \<Rightarrow> int list \<times> telemetry" where
  "tick_run [] t = ([], t)"
| "tick_run ((e, ft, ctx) # fs) t =
     (let (ls, t1) = tick e ft ctx t; (ts, t2) = tick_run fs t1
      in (if ls = [] then ts else te_now e # ts, t2))"

definition report_gap :: int where "report_gap = kReportIntervalSeconds * 10 ^ 9"

lemma log_write_some [simp]: "\<exists>l'. log_write stamps line (Some l) = Some l'"
  by (cases stamps) (simp add: log_write_def Let_def)

lemma log_fold_some: "\<exists>l'. fold (\<lambda>(i, line). log_write (st i) line) xs (Some l) = Some l'"
proof (induction xs arbitrary: l)
  case (Cons x xs)
  obtain i line where x: "x = (i, line)" by fastforce
  obtain l1 where "log_write (st i) line (Some l) = Some l1" using log_write_some by blast
  with Cons.IH [of l1] x show ?case by simp
qed simp

lemma report_lines_some [simp]: "report_lines e ctx t \<noteq> []"
  by (simp add: report_lines_def Let_def)

lemma seconds_less: "seconds_between a b < of_int kReportIntervalSeconds \<longleftrightarrow> b - a < report_gap"
proof -
  have "seconds_between a b < of_int kReportIntervalSeconds \<longleftrightarrow> (of_int (b - a) :: rat) < of_int report_gap"
    by (simp add: seconds_between_def report_gap_def kReportIntervalSeconds_def field_simps)
  then show ?thesis by (simp only: of_int_less_iff)
qed

lemma tick_idle:
  "te_now e - tm_interval_start t < report_gap \<Longrightarrow> tm_log t = Some l \<Longrightarrow> tick e ft ctx t = ([], count_frame ft t)"
  by (simp add: tick_def count_frame_def seconds_less Let_def)

lemma tick_report:
  assumes "\<not> te_now e - tm_interval_start t < report_gap" "tm_log t = Some l" "tick e ft ctx t = (ls, t1)"
  shows "ls \<noteq> [] \<and> tm_interval_start t1 = te_now e \<and> tm_log t1 \<noteq> None"
proof -
  let ?ls = "report_lines e ctx (count_frame ft t)"
  obtain l' where "fold (\<lambda>(i, line). log_write (te_stamps e i) line) (enumerate 0 ?ls) (Some l) = Some l'"
    using log_fold_some by blast
  moreover have "tm_interval_start (count_frame ft t) = tm_interval_start t" by (simp add: count_frame_def)
  ultimately show ?thesis
    using assms by (auto simp: tick_def seconds_less start_interval_def Let_def)
qed

fun due_times :: "int \<Rightarrow> int list \<Rightarrow> int list" where
  "due_times since [] = []"
| "due_times since (now # nows) =
     (if now - since < report_gap then due_times since nows else now # due_times now nows)"

text \<open>
  Once the log is open a report is written exactly at the first frame that comes a minute or more
  after the previous one, for every sequence of frames: never earlier, never skipped, whatever the
  files and counters are.
\<close>

theorem reports_on_time:
  assumes "tm_log t = Some l"
  shows "fst (tick_run fs t) = due_times (tm_interval_start t) (map (\<lambda>(e, _). te_now e) fs)"
  using assms
proof (induction fs arbitrary: t l)
  case (Cons f fs)
  obtain e ft ctx where f: "f = (e, ft, ctx)" by (metis surj_pair)
  show ?case
  proof (cases "te_now e - tm_interval_start t < report_gap")
    case True
    have "tm_log (count_frame ft t) = Some l" "tm_interval_start (count_frame ft t) = tm_interval_start t"
      using Cons.prems by (simp_all add: count_frame_def)
    with Cons.IH [of "count_frame ft t" l] tick_idle [OF True Cons.prems] True f show ?thesis by (simp split: prod.split)
  next
    case False
    obtain ls t1 where r: "tick e ft ctx t = (ls, t1)" by fastforce
    with tick_report [OF False Cons.prems] obtain l1 where "ls \<noteq> []" "tm_interval_start t1 = te_now e" "tm_log t1 = Some l1" by blast
    moreover obtain ts t2 where "tick_run fs t1 = (ts, t2)" by fastforce
    ultimately show ?thesis using Cons.IH [of t1 l1] r False f by simp
  qed
qed simp

section \<open>The log tells the history of the connection\<close>

fun connection_run :: "connection_state list \<Rightarrow> pump_state \<Rightarrow> (string \<times> string) list \<times> pump_state" where
  "connection_run [] p = ([], p)"
| "connection_run (s # ss) p =
     (let (evs, p1) = connection_events s p; (rest, p2) = connection_run ss p1 in (evs @ rest, p2))"

definition count_key :: "string \<Rightarrow> (string \<times> string) list \<Rightarrow> nat" where
  "count_key key evs = length (filter (\<lambda>(k, _). k = key) evs)"

lemma count_key_simps [simp]:
  "count_key key [] = 0" "count_key key ((k, m) # evs) = (if k = key then 1 else 0) + count_key key evs"
  "count_key key (as @ bs) = count_key key as + count_key key bs"
  by (simp_all add: count_key_def)

lemma connection_step:
  assumes "connection_events s p = (evs, p1)"
  shows "pt_last_state p1 = s \<and> map snd evs = (if s = pt_last_state p then [] else [state_name s]) \<and>
    count_key ''connection.established'' evs = (if s = Connected \<and> pt_last_state p \<noteq> Connected then 1 else 0) \<and>
    count_key ''connection.dropped'' evs = (if s \<noteq> Connected \<and> pt_last_state p = Connected then 1 else 0) \<and>
    (pt_ever_connected p1, pt_reconnect_count p1) =
      track_reconnect (pt_last_state p = Connected) (s = Connected) (pt_ever_connected p, pt_reconnect_count p)"
  using assms by (auto simp: connection_events_def track_reconnect_def split: if_splits)

lemma connection_run_history:
  assumes "connection_run ss p = (evs, p')"
  shows "map snd evs = map state_name (tl (remdups_adj (pt_last_state p # ss))) \<and>
    pt_last_state p' = last (pt_last_state p # ss) \<and>
    count_key ''connection.established'' evs + (if pt_last_state p = Connected then 1 else 0) =
      count_key ''connection.dropped'' evs + (if pt_last_state p' = Connected then 1 else 0) \<and>
    count_key ''connection.established'' evs = connects (pt_last_state p = Connected) (map (\<lambda>s. s = Connected) ss) \<and>
    (pt_ever_connected p', pt_reconnect_count p') =
      track_frames (pt_last_state p = Connected) (map (\<lambda>s. s = Connected) ss) (pt_ever_connected p, pt_reconnect_count p)"
  using assms
proof (induction ss arbitrary: p evs)
  case (Cons s ss)
  obtain evs1 p1 where 1: "connection_events s p = (evs1, p1)" by fastforce
  obtain evs2 p2 where 2: "connection_run ss p1 = (evs2, p2)" by fastforce
  have r: "evs = evs1 @ evs2" "p2 = p'" using Cons.prems 1 2 by auto
  note st = connection_step [OF 1]
  have adj: "tl (remdups_adj (pt_last_state p # s # ss)) =
      (if s = pt_last_state p then [] else [s]) @ tl (remdups_adj (s # ss))"
    by (simp add: remdups_adj_Cons_alt)
  from Cons.IH [OF 2 [unfolded r]] st show ?case unfolding r(1) adj by auto
qed simp

text \<open>
  The log tells the history of the connection: the states its connection lines name are exactly the
  states the connection passed through, in order and without repetition; an established connection and
  the loss of it are announced alternately; and the number of reconnections shown in the window is the
  number of established connections after the first.
\<close>

theorem log_tells_history:
  assumes "connection_run ss pump_init = (evs, p)"
  shows "map snd evs = map state_name (tl (remdups_adj (Idle_state # ss))) \<and>
    count_key ''connection.established'' evs =
      count_key ''connection.dropped'' evs + (if last (Idle_state # ss) = Connected then 1 else 0) \<and>
    pt_reconnect_count p = of_nat (count_key ''connection.established'' evs - 1)"
proof -
  have i: "pt_last_state pump_init = Idle_state" by (simp add: pump_init_def)
  note h = connection_run_history [OF assms, unfolded i]
  have e: "count_key ''connection.established'' evs = connects (Idle_state = Connected) (map (\<lambda>s. s = Connected) ss)"
    using h by blast
  have "pt_reconnect_count p = of_nat (connects (Idle_state = Connected) (map (\<lambda>s. s = Connected) ss) - 1)"
    using h by (simp add: pump_init_def track_frames_count)
  then have "pt_reconnect_count p = of_nat (count_key ''connection.established'' evs - 1)" by (simp only: e)
  moreover have "count_key ''connection.established'' evs =
      count_key ''connection.dropped'' evs + (if last (Idle_state # ss) = Connected then 1 else 0)"
  proof -
    have l: "pt_last_state p = last (Idle_state # ss)" using h by blast
    have "count_key ''connection.established'' evs + (if Idle_state = Connected then 1 else 0) =
        count_key ''connection.dropped'' evs + (if pt_last_state p = Connected then 1 else 0)" using h by blast
    then show ?thesis unfolding l by simp
  qed
  ultimately show ?thesis using h by blast
qed

section \<open>Concrete runs\<close>

theorem log_tells_history_witness:
  "let (evs, p) = connection_run [Connecting, Connected, Connected, Connecting, Connected] pump_init
   in map snd evs = [''connecting'', ''connected'', ''connecting'', ''connected''] \<and> pt_reconnect_count p = 1"
proof -
  obtain evs p where r: "connection_run [Connecting, Connected, Connected, Connecting, Connected] pump_init = (evs, p)"
    by fastforce
  have "count_key ''connection.established'' evs = 2"
    using connection_run_history [OF r] by (auto simp: pump_init_def)
  then have "pt_reconnect_count p = 1" using log_tells_history [OF r] by (simp only:) simp
  with log_tells_history [OF r] show ?thesis unfolding r Let_def prod.case by simp
qed

definition demo_telemetry :: telemetry where
  "demo_telemetry = \<lparr>tm_log = Some (fst (open_log (new_logger kMaxLogFileBytes kMaxLogFiles (\<lambda>i. None) True))),
     tm_start = 0, tm_interval_start = 0, tm_frame_count = 0, tm_frame_sum_ms = 0, tm_frame_max_ms = 0,
     tm_prev_received = 0, tm_prev_underruns = 0, tm_prev_raw_input = 0, tm_prev_cap = \<lparr>gc_generation = 0, gc_value = 0\<rparr>\<rparr>"

definition demo_tick :: "int \<Rightarrow> tick_env \<times> rat \<times> frame_context" where
  "demo_tick seconds =
     (\<lparr>te_now = seconds * 10 ^ 9,
       te_counters = \<lparr>ct_raw_input_events = 0, ct_raw_input_processed = 0, ct_received = 0, ct_decoded = 0, ct_rejected = 0,
         ct_dropped_cap = 0, ct_underruns = 0, ct_start_failures = 0, ct_clipboard_sent = 0, ct_clipboard_received = 0\<rparr>,
       te_cpu_pct = 0, te_working_set = 0, te_private = 0, te_handles = 0, te_stamps = (\<lambda>i. ('''', ''''))\<rparr>,
      16, \<lparr>fc_visible = True, fc_depth = 0, fc_cap = 0, fc_cap_counter = \<lparr>gc_generation = 0, gc_value = 0\<rparr>,
       fc_connected = False, fc_role = ''master'', fc_state = ''idle''\<rparr>)"

theorem reports_on_time_witness:
  "fst (tick_run (map demo_tick [1, 59, 61, 120, 121]) demo_telemetry) = [61 * 10 ^ 9, 121 * 10 ^ 9]"
proof -
  obtain l where "tm_log demo_telemetry = Some l" by (simp add: demo_telemetry_def)
  from reports_on_time [OF this, of "map demo_tick [1, 59, 61, 120, 121]"] show ?thesis
    by (simp add: demo_tick_def demo_telemetry_def report_gap_def kReportIntervalSeconds_def)
qed

end
