(* ===== verification/TrayLinux.thy ===== *)
theory TrayLinux
  imports IcoDecode
begin

text \<open>
  The tray icon on Linux, \<^verbatim>\<open>src/app/tray_linux.cpp\<close>, with \<^verbatim>\<open>src/app/quit.cpp\<close>: an object on the session bus
  that a panel asks for its properties and calls when it is clicked, and a menu object. Values are those
  of D-Bus with the signatures that the code hands to \<^verbatim>\<open>libdbus\<close>; a call is answered with values, with an
  error, or not at all.
\<close>

section \<open>D-Bus values\<close>

datatype dvalue =
    DString string
  | DPath string
  | DInt int
  | DUint u32
  | DBool bool
  | DByte byte
  | DArray string "dvalue list"
  | DStruct "dvalue list"
  | DEntry dvalue dvalue
  | DVariant string dvalue

fun signature :: "dvalue \<Rightarrow> string" where
  "signature (DString s) = ''s''"
| "signature (DPath s) = ''o''"
| "signature (DInt i) = ''i''"
| "signature (DUint u) = ''u''"
| "signature (DBool b) = ''b''"
| "signature (DByte b) = ''y''"
| "signature (DArray es vs) = ''a'' @ es"
| "signature (DStruct vs) = ''('' @ concat (map signature vs) @ '')''"
| "signature (DEntry k v) = ''{'' @ signature k @ signature v @ ''}''"
| "signature (DVariant s v) = ''v''"

text \<open>What \<^verbatim>\<open>libdbus\<close> demands of the caller: containers hold what they were opened for.\<close>

fun well_typed :: "dvalue \<Rightarrow> bool" where
  "well_typed (DArray es vs) \<longleftrightarrow> (\<forall>v \<in> set vs. signature v = es \<and> well_typed v)"
| "well_typed (DStruct vs) \<longleftrightarrow> (\<forall>v \<in> set vs. well_typed v)"
| "well_typed (DEntry k v) \<longleftrightarrow> well_typed k \<and> well_typed v"
| "well_typed (DVariant s v) \<longleftrightarrow> signature v = s \<and> well_typed v"
| "well_typed _ \<longleftrightarrow> True"

text \<open>A method call and the answer to it.\<close>

record method_call =
  mc_interface :: "string option"
  mc_member :: string
  mc_args :: "dvalue list"

datatype answer = Reply "dvalue list" | Error_reply string | No_reply

section \<open>State\<close>

text \<open>\<open>tr_window\<close>: the window is known; \<open>tr_restored\<close> counts how often it was shown and focused.\<close>

record tray =
  tr_connected :: bool
  tr_window :: bool
  tr_icon :: "decoded_icon option"
  tr_restored :: nat
  tr_quit :: bool

definition kObjectPath :: string where "kObjectPath = ''/StatusNotifierItem''"
definition kInterface :: string where "kInterface = ''org.kde.StatusNotifierItem''"
definition kMenuObjectPath :: string where "kMenuObjectPath = ''/NoCapKVM/Menu''"
definition kMenuInterface :: string where "kMenuInterface = ''com.canonical.dbusmenu''"
definition kMenuRootId :: int where "kMenuRootId = 0"
definition kQuitMenuItemId :: int where "kQuitMenuItemId = 1"
definition kMenuRevision :: u32 where "kMenuRevision = 1"

lemmas tray_constants = kObjectPath_def kInterface_def kMenuObjectPath_def kMenuInterface_def kMenuRootId_def
  kQuitMenuItemId_def kMenuRevision_def

definition request_quit :: "tray \<Rightarrow> tray" where
  "request_quit t = t\<lparr>tr_quit := True\<rparr>"

definition restore_window :: "tray \<Rightarrow> tray" where
  "restore_window t = (if tr_window t then t\<lparr>tr_restored := tr_restored t + 1\<rparr> else t)"

text \<open>The text of the description, line by line.\<close>

definition kIntrospectionLines :: "string list" where
  "kIntrospectionLines =
   [''<!DOCTYPE node PUBLIC \"-//freedesktop//DTD D-BUS Object Introspection 1.0//EN\"'',
    ''\"http://www.freedesktop.org/standards/dbus/1.0/introspect.dtd\">'',
    ''<node>'',
    ''  <interface name=\"org.freedesktop.DBus.Introspectable\">'',
    ''    <method name=\"Introspect\"><arg name=\"xml\" type=\"s\" direction=\"out\"/></method>'',
    ''  </interface>'',
    ''  <interface name=\"org.freedesktop.DBus.Properties\">'',
    ''    <method name=\"Get\">'',
    ''      <arg name=\"interface\" type=\"s\" direction=\"in\"/>'',
    ''      <arg name=\"name\" type=\"s\" direction=\"in\"/>'',
    ''      <arg name=\"value\" type=\"v\" direction=\"out\"/>'',
    ''    </method>'',
    ''    <method name=\"GetAll\">'',
    ''      <arg name=\"interface\" type=\"s\" direction=\"in\"/>'',
    ''      <arg name=\"values\" type=\"a{sv}\" direction=\"out\"/>'',
    ''    </method>'',
    ''  </interface>'',
    ''  <interface name=\"org.kde.StatusNotifierItem\">'',
    ''    <method name=\"Activate\"><arg type=\"i\" direction=\"in\"/><arg type=\"i\" direction=\"in\"/></method>'',
    ''    <method name=\"SecondaryActivate\"><arg type=\"i\" direction=\"in\"/><arg type=\"i\" direction=\"in\"/></method>'',
    ''    <method name=\"ContextMenu\"><arg type=\"i\" direction=\"in\"/><arg type=\"i\" direction=\"in\"/></method>'',
    ''    <method name=\"Scroll\"><arg type=\"i\" direction=\"in\"/><arg type=\"s\" direction=\"in\"/></method>'',
    ''    <property name=\"Category\" type=\"s\" access=\"read\"/>'',
    ''    <property name=\"Id\" type=\"s\" access=\"read\"/>'',
    ''    <property name=\"Title\" type=\"s\" access=\"read\"/>'',
    ''    <property name=\"Status\" type=\"s\" access=\"read\"/>'',
    ''    <property name=\"IconName\" type=\"s\" access=\"read\"/>'',
    ''    <property name=\"IconPixmap\" type=\"a(iiay)\" access=\"read\"/>'',
    ''    <property name=\"Menu\" type=\"o\" access=\"read\"/>'',
    ''    <property name=\"ItemIsMenu\" type=\"b\" access=\"read\"/>'',
    ''    <property name=\"ToolTip\" type=\"(sa(iiay)ss)\" access=\"read\"/>'',
    ''  </interface>'',
    ''</node>'']"

definition kIntrospectionXml :: string where
  "kIntrospectionXml = concat (map (\<lambda>l. l @ [CHR 0x0A]) kIntrospectionLines)"

section \<open>Properties\<close>

definition append_icon_pixmap_array :: "decoded_icon option \<Rightarrow> dvalue" where
  "append_icon_pixmap_array icon =
     DArray ''(iiay)''
       (case icon of
          None \<Rightarrow> []
        | Some i \<Rightarrow> [DStruct [DInt (int (ic_width i)), DInt (int (ic_height i)), DArray ''y'' (map DByte (ic_argb i))]])"

definition append_variant_string :: "string \<Rightarrow> dvalue" where
  "append_variant_string v = DVariant ''s'' (DString v)"

definition append_variant_bool :: "bool \<Rightarrow> dvalue" where
  "append_variant_bool v = DVariant ''b'' (DBool v)"

definition append_variant_object_path :: "string \<Rightarrow> dvalue" where
  "append_variant_object_path v = DVariant ''o'' (DPath v)"

definition append_variant_icon_pixmap :: "decoded_icon option \<Rightarrow> dvalue" where
  "append_variant_icon_pixmap icon = DVariant ''a(iiay)'' (append_icon_pixmap_array icon)"

definition append_variant_tooltip :: "decoded_icon option \<Rightarrow> dvalue" where
  "append_variant_tooltip icon =
     DVariant ''(sa(iiay)ss)'' (DStruct [DString [], append_icon_pixmap_array icon, DString ''NoCapKVM'', DString []])"

lemmas variant_defs = append_icon_pixmap_array_def append_variant_string_def append_variant_bool_def
  append_variant_object_path_def append_variant_icon_pixmap_def append_variant_tooltip_def

definition kPropertyNames :: "string list" where
  "kPropertyNames = [''Category'', ''Id'', ''Title'', ''Status'', ''IconName'', ''IconPixmap'', ''Menu'', ''ItemIsMenu'', ''ToolTip'']"

definition append_property_variant :: "decoded_icon option \<Rightarrow> string \<Rightarrow> dvalue option" where
  "append_property_variant icon name =
     (if name = ''Category'' then Some (append_variant_string ''ApplicationStatus'')
      else if name = ''Id'' then Some (append_variant_string ''NoCapKVM'')
      else if name = ''Title'' then Some (append_variant_string ''NoCapKVM'')
      else if name = ''Status'' then Some (append_variant_string ''Active'')
      else if name = ''IconName'' then Some (append_variant_string (if icon \<noteq> None then [] else ''utilities-terminal''))
      else if name = ''IconPixmap'' then Some (append_variant_icon_pixmap icon)
      else if name = ''Menu'' then Some (append_variant_object_path kMenuObjectPath)
      else if name = ''ItemIsMenu'' then Some (append_variant_bool False)
      else if name = ''ToolTip'' then Some (append_variant_tooltip icon)
      else None)"

section \<open>The menu\<close>

definition wants_menu_property :: "string list \<Rightarrow> string \<Rightarrow> bool" where
  "wants_menu_property names name \<longleftrightarrow> names = [] \<or> name \<in> set names"

definition append_menu_properties :: "int \<Rightarrow> string list \<Rightarrow> dvalue" where
  "append_menu_properties item_id names =
     (let entry = (\<lambda>name v. if wants_menu_property names name then [DEntry (DString name) v] else []) in
      DArray ''{sv}''
        (if item_id = kMenuRootId then entry ''children-display'' (append_variant_string ''submenu'')
         else if item_id = kQuitMenuItemId
         then entry ''label'' (append_variant_string ''Quit'') @ entry ''enabled'' (append_variant_bool True) @
              entry ''visible'' (append_variant_bool True)
         else []))"

text \<open>The recursion of the source ends at the second level, where children are not included.\<close>

definition menu_item :: "int \<Rightarrow> string list \<Rightarrow> dvalue list \<Rightarrow> dvalue" where
  "menu_item item_id names children = DStruct [DInt item_id, append_menu_properties item_id names, DArray ''v'' children]"

definition append_menu_layout :: "int \<Rightarrow> string list \<Rightarrow> bool \<Rightarrow> dvalue" where
  "append_menu_layout item_id names include_children =
     menu_item item_id names
       (if include_children \<and> item_id = kMenuRootId
        then [DVariant ''(ia{sv}av)'' (menu_item kQuitMenuItemId names [])] else [])"

fun read_names :: "dvalue list \<Rightarrow> string list" where
  "read_names (DString s # vs) = s # read_names vs"
| "read_names _ = []"

fun read_menu_properties :: "dvalue list \<Rightarrow> (int \<times> string list) option" where
  "read_menu_properties (DInt item_id # DInt depth # DArray es vs # _) = Some (item_id, read_names vs)"
| "read_menu_properties _ = None"

section \<open>Calls\<close>

definition handle_introspect :: answer where
  "handle_introspect = Reply [DString kIntrospectionXml]"

fun handle_get :: "decoded_icon option \<Rightarrow> dvalue list \<Rightarrow> answer" where
  "handle_get icon (DString interface # DString name # _) =
     (case append_property_variant icon name of
        None \<Rightarrow> Error_reply ''org.freedesktop.DBus.Error.UnknownProperty''
      | Some v \<Rightarrow> Reply [v])"
| "handle_get icon _ = No_reply"

definition handle_get_all :: "decoded_icon option \<Rightarrow> answer" where
  "handle_get_all icon =
     Reply [DArray ''{sv}'' (map (\<lambda>name. DEntry (DString name) (the (append_property_variant icon name))) kPropertyNames)]"

definition handle_menu_get_layout :: "dvalue list \<Rightarrow> answer" where
  "handle_menu_get_layout args =
     (case read_menu_properties args of
        Some (item_id, names) \<Rightarrow>
          if item_id \<noteq> kMenuRootId \<and> item_id \<noteq> kQuitMenuItemId
          then Error_reply ''com.canonical.dbusmenu.Error.UnknownId''
          else Reply [DUint kMenuRevision, append_menu_layout item_id names (item_id = kMenuRootId)]
      | None \<Rightarrow> Error_reply ''com.canonical.dbusmenu.Error.UnknownId'')"

fun handle_menu_event :: "dvalue list \<Rightarrow> tray \<Rightarrow> answer \<times> tray" where
  "handle_menu_event (DInt item_id # DString event_id # _) t =
     (Reply [], if item_id = kQuitMenuItemId \<and> event_id = ''clicked'' then request_quit t else t)"
| "handle_menu_event _ t = (No_reply, t)"

definition handle_menu_about_to_show :: answer where
  "handle_menu_about_to_show = Reply [DBool False]"

definition is_method_call :: "method_call \<Rightarrow> string \<Rightarrow> string \<Rightarrow> bool" where
  "is_method_call m interface member \<longleftrightarrow> mc_interface m = Some interface \<and> mc_member m = member"

text \<open>\<open>None\<close> stands for \<^verbatim>\<open>DBUS_HANDLER_RESULT_NOT_YET_HANDLED\<close>, on which the library answers with an error.\<close>

definition message_handler :: "method_call \<Rightarrow> tray \<Rightarrow> (answer \<times> tray) option" where
  "message_handler m t =
     (if is_method_call m ''org.freedesktop.DBus.Introspectable'' ''Introspect'' then Some (handle_introspect, t)
      else if is_method_call m ''org.freedesktop.DBus.Properties'' ''GetAll'' then Some (handle_get_all (tr_icon t), t)
      else if is_method_call m ''org.freedesktop.DBus.Properties'' ''Get'' then Some (handle_get (tr_icon t) (mc_args m), t)
      else if is_method_call m kInterface ''Activate'' \<or> is_method_call m kInterface ''SecondaryActivate''
      then Some (Reply [], restore_window t)
      else if is_method_call m kInterface ''ContextMenu'' then Some (Reply [], t)
      else if is_method_call m kInterface ''Scroll'' then Some (Reply [], t)
      else None)"

definition menu_message_handler :: "method_call \<Rightarrow> tray \<Rightarrow> (answer \<times> tray) option" where
  "menu_message_handler m t =
     (if is_method_call m kMenuInterface ''GetLayout'' then Some (handle_menu_get_layout (mc_args m), t)
      else if is_method_call m kMenuInterface ''Event'' then Some (handle_menu_event (mc_args m) t)
      else if is_method_call m kMenuInterface ''AboutToShow'' then Some (handle_menu_about_to_show, t)
      else None)"

section \<open>The bus\<close>

text \<open>\<open>bus\<close>: a session bus can be reached; \<open>icon\<close> is what \<open>load_ico\<close> made of the icon file.\<close>

definition install_tray :: "bool \<Rightarrow> decoded_icon option \<Rightarrow> tray \<Rightarrow> tray" where
  "install_tray bus icon t = t\<lparr>tr_window := True, tr_icon := icon, tr_connected := bus\<rparr>"

definition uninstall_tray :: "tray \<Rightarrow> tray" where
  "uninstall_tray t = (if \<not> tr_connected t then t else t\<lparr>tr_connected := False, tr_window := False\<rparr>)"

definition dispatch :: "string \<times> method_call \<Rightarrow> tray \<Rightarrow> answer \<times> tray" where
  "dispatch = (\<lambda>(path, m) t.
     case (if path = kObjectPath then message_handler m t
           else if path = kMenuObjectPath then menu_message_handler m t else None) of
       Some r \<Rightarrow> r
     | None \<Rightarrow> (Error_reply ''org.freedesktop.DBus.Error.UnknownMethod'', t))"

fun dispatch_all :: "(string \<times> method_call) list \<Rightarrow> tray \<Rightarrow> answer list \<times> tray" where
  "dispatch_all [] t = ([], t)"
| "dispatch_all (m # ms) t = (let (a, t1) = dispatch m t; (rest, t2) = dispatch_all ms t1 in (a # rest, t2))"

definition pump_tray :: "(string \<times> method_call) list \<Rightarrow> tray \<Rightarrow> answer list \<times> tray" where
  "pump_tray arrived t = (if \<not> tr_connected t then ([], t) else dispatch_all arrived t)"

section \<open>Types of the answers\<close>

text \<open>What a panel reads in the description: the lines that declare properties, with name and type.\<close>

fun text_after :: "string \<Rightarrow> string \<Rightarrow> string option" where
  "text_after pat [] = None"
| "text_after pat (c # cs) =
     (if take (length pat) (c # cs) = pat then Some (drop (length pat) (c # cs)) else text_after pat cs)"

definition attribute :: "string \<Rightarrow> string \<Rightarrow> string option" where
  "attribute key line = map_option (takeWhile (\<lambda>c. c \<noteq> CHR 0x22)) (text_after (key @ [CHR ''='', CHR 0x22]) line)"

definition declared_property :: "string \<Rightarrow> (string \<times> string) option" where
  "declared_property line =
     (if text_after ''<property '' line = None then None
      else case (attribute ''name'' line, attribute ''type'' line) of (Some n, Some t) \<Rightarrow> Some (n, t) | _ \<Rightarrow> None)"

definition declared_properties :: "(string \<times> string) list" where
  "declared_properties = List.map_filter declared_property kIntrospectionLines"

lemma declared_properties_eq:
  "declared_properties =
    [(''Category'', ''s''), (''Id'', ''s''), (''Title'', ''s''), (''Status'', ''s''), (''IconName'', ''s''),
     (''IconPixmap'', ''a(iiay)''), (''Menu'', ''o''), (''ItemIsMenu'', ''b''), (''ToolTip'', ''(sa(iiay)ss)'')]"
  by code_simp

lemma pixmap_typed:
  "signature (append_icon_pixmap_array icon) = ''a(iiay)''" "well_typed (append_icon_pixmap_array icon)"
  by (auto simp: append_icon_pixmap_array_def split: option.split)

lemma variants_typed:
  "well_typed (append_variant_string s)" "well_typed (append_variant_bool b)" "well_typed (append_variant_object_path s)"
  "well_typed (append_variant_icon_pixmap icon)" "well_typed (append_variant_tooltip icon)"
  "signature (append_variant_string s) = ''v''" "signature (append_variant_bool b) = ''v''"
  by (simp_all add: append_variant_string_def append_variant_bool_def append_variant_object_path_def
      append_variant_icon_pixmap_def append_variant_tooltip_def pixmap_typed)

lemma property_typed:
  "append_property_variant icon name = Some v \<Longrightarrow> well_typed v \<and> signature v = ''v''"
  by (auto simp: append_property_variant_def variants_typed append_variant_string_def append_variant_bool_def
      append_variant_object_path_def append_variant_icon_pixmap_def append_variant_tooltip_def pixmap_typed split: if_splits)

lemma menu_properties_typed: "well_typed (append_menu_properties i names) \<and> signature (append_menu_properties i names) = ''a{sv}''"
  by (auto simp: append_menu_properties_def variants_typed Let_def)

lemma menu_item_typed:
  "(\<forall>v \<in> set children. signature v = ''v'' \<and> well_typed v) \<Longrightarrow>
    well_typed (menu_item i names children) \<and> signature (menu_item i names children) = ''(ia{sv}av)''"
  using menu_properties_typed [of i names] by (simp add: menu_item_def)

lemma menu_layout_typed: "well_typed (append_menu_layout i names c) \<and> signature (append_menu_layout i names c) = ''(ia{sv}av)''"
  unfolding append_menu_layout_def using menu_item_typed [of "[]" kQuitMenuItemId names] by (intro menu_item_typed) auto

text \<open>The signature that the interfaces give the answer of each method.\<close>

definition answer_signature :: "method_call \<Rightarrow> string" where
  "answer_signature m =
     (if mc_member m = ''Introspect'' then ''s''
      else if mc_member m = ''GetAll'' then ''a{sv}''
      else if mc_member m = ''Get'' then ''v''
      else if mc_member m = ''GetLayout'' then ''u(ia{sv}av)''
      else if mc_member m = ''AboutToShow'' then ''b''
      else [])"

lemma property_named: "name \<in> set kPropertyNames \<Longrightarrow> append_property_variant icon name \<noteq> None"
  by (auto simp: kPropertyNames_def append_property_variant_def)

lemma get_all_typed:
  "handle_get_all icon = Reply vs \<Longrightarrow> list_all well_typed vs \<and> concat (map signature vs) = ''a{sv}''"
proof -
  assume "handle_get_all icon = Reply vs"
  then have vs: "vs = [DArray ''{sv}'' (map (\<lambda>name. DEntry (DString name) (the (append_property_variant icon name))) kPropertyNames)]"
    by (simp add: handle_get_all_def)
  have "well_typed (the (append_property_variant icon name)) \<and> signature (the (append_property_variant icon name)) = ''v''"
    if "name \<in> set kPropertyNames" for name
    using property_named [OF that, of icon] property_typed by fastforce
  then show ?thesis unfolding vs by auto
qed

lemma object_typed:
  "message_handler m t = Some (Reply vs, t') \<Longrightarrow> list_all well_typed vs \<and> concat (map signature vs) = answer_signature m"
  using get_all_typed [of "tr_icon t" vs] property_typed
  by (auto simp: message_handler_def answer_signature_def is_method_call_def handle_introspect_def kInterface_def
      elim!: handle_get.elims split: if_splits option.splits)

lemma menu_typed:
  "menu_message_handler m t = Some (Reply vs, t') \<Longrightarrow> list_all well_typed vs \<and> concat (map signature vs) = answer_signature m"
  using menu_layout_typed
  by (auto simp: menu_message_handler_def answer_signature_def is_method_call_def handle_menu_get_layout_def
      handle_menu_about_to_show_def kMenuInterface_def elim!: handle_menu_event.elims split: if_splits option.splits)


section \<open>Clicks\<close>

definition quit_click :: "string \<times> method_call \<Rightarrow> bool" where
  "quit_click = (\<lambda>(path, m). path = kMenuObjectPath \<and> is_method_call m kMenuInterface ''Event'' \<and>
     take 2 (mc_args m) = [DInt kQuitMenuItemId, DString ''clicked''])"

definition activation :: "string \<times> method_call \<Rightarrow> bool" where
  "activation = (\<lambda>(path, m). path = kObjectPath \<and>
     (is_method_call m kInterface ''Activate'' \<or> is_method_call m kInterface ''SecondaryActivate''))"

lemma event_effect:
  "snd (handle_menu_event args t) = (if take 2 args = [DInt kQuitMenuItemId, DString ''clicked''] then request_quit t else t)"
  by (induction args t rule: handle_menu_event.induct) (auto simp: take_Cons')

lemma dispatch_effect:
  "snd (dispatch (path, m) t) =
    (if quit_click (path, m) then request_quit t else if activation (path, m) then restore_window t else t)"
  by (auto simp: dispatch_def message_handler_def menu_message_handler_def quit_click_def activation_def event_effect
      is_method_call_def tray_constants split: option.split if_splits)

lemma dispatch_all_effect:
  "snd (dispatch_all ms t) =
    t\<lparr>tr_quit := tr_quit t \<or> list_ex quit_click ms,
      tr_restored := tr_restored t + (if tr_window t then length (filter activation ms) else 0)\<rparr> \<and>
   length (fst (dispatch_all ms t)) = length ms"
proof (induction ms arbitrary: t)
  case (Cons m ms)
  obtain path c where m: "m = (path, c)" by fastforce
  have excl: "quit_click (path, c) \<Longrightarrow> \<not> activation (path, c)" by (simp add: quit_click_def activation_def tray_constants)
  obtain a t1 where d: "dispatch (path, c) t = (a, t1)" by fastforce
  then have t1: "t1 = (if quit_click (path, c) then request_quit t else if activation (path, c) then restore_window t else t)"
    using dispatch_effect [of path c t] by simp
  obtain as t2 where r: "dispatch_all ms t1 = (as, t2)" by fastforce
  from Cons.IH [of t1] r d m t1 excl show ?case
    by (auto simp: request_quit_def restore_window_def split: if_splits)
qed simp

text \<open>
  The program quits through the tray exactly when the panel reports a click on the Quit item of the
  menu, and the window comes back once for each activation of the icon; every other call, whatever it
  asks and holds, changes nothing. Each call of a frame is taken once, in order.
\<close>

theorem tray_clicks:
  assumes "tr_connected t" "tr_window t" "pump_tray ms t = (as, t')"
  shows "tr_quit t' = (tr_quit t \<or> list_ex quit_click ms) \<and>
    tr_restored t' = tr_restored t + length (filter activation ms) \<and> tr_icon t' = tr_icon t \<and> length as = length ms"
  using assms dispatch_all_effect [of ms t] by (auto simp: pump_tray_def)

text \<open>A request for a property whose arguments are not two strings is taken but never answered: the caller waits until it gives up.\<close>

theorem malformed_get_unanswered:
  "dispatch (kObjectPath, \<lparr>mc_interface = Some ''org.freedesktop.DBus.Properties'', mc_member = ''Get'', mc_args = [DInt i]\<rparr>) t = (No_reply, t)"
  by (simp add: dispatch_def message_handler_def is_method_call_def tray_constants)

section \<open>Concrete calls\<close>

definition demo_tray :: tray where
  "demo_tray = install_tray True (Some \<lparr>ic_width = 1, ic_height = 1, ic_argb = [255, 1, 2, 3]\<rparr>)
     \<lparr>tr_connected = False, tr_window = False, tr_icon = None, tr_restored = 0, tr_quit = False\<rparr>"

definition demo_layout_call :: method_call where
  "demo_layout_call = \<lparr>mc_interface = Some kMenuInterface, mc_member = ''GetLayout'',
     mc_args = [DInt 0, DInt (-1), DArray ''s'' [DString ''label'']]\<rparr>"


theorem tray_clicks_witness:
  "tr_quit (snd (pump_tray
     [(kObjectPath, \<lparr>mc_interface = Some kInterface, mc_member = ''Activate'', mc_args = [DInt 0, DInt 0]\<rparr>),
      (kMenuObjectPath, \<lparr>mc_interface = Some kMenuInterface, mc_member = ''Event'', mc_args = [DInt 1, DString ''clicked'']\<rparr>)]
     demo_tray))"
proof -
  let ?ms = "[(kObjectPath, \<lparr>mc_interface = Some kInterface, mc_member = ''Activate'', mc_args = [DInt 0, DInt 0]\<rparr>),
    (kMenuObjectPath, \<lparr>mc_interface = Some kMenuInterface, mc_member = ''Event'', mc_args = [DInt 1, DString ''clicked'']\<rparr>)]"
  obtain as t' where "pump_tray ?ms demo_tray = (as, t')" by fastforce
  with tray_clicks [OF _ _ this] show ?thesis
    by (simp add: demo_tray_def install_tray_def quit_click_def is_method_call_def tray_constants)
qed

end
