(* ===== verification/MainLoop.thy ===== *)
theory MainLoop
  imports App InputPump AudioMaster ClipboardSync Telemetry TrayLinux ArrangementScreen
begin

text \<open>
  The program as a whole, \<^verbatim>\<open>src/app/main.cpp\<close>: one loop calls the pumps in a fixed order and draws the
  screen, while the network threads and the audio devices go on at any moment in between. The state has a
  field that says which call of the iteration comes next; the messages of the Windows tray,
  \<^verbatim>\<open>src/app/tray.cpp\<close>, and raw mouse input arrive where the loop polls events. The clipboard of the
  system is a parameter.
\<close>

section \<open>State\<close>

datatype phase = Top | Polling | Pumped_input | Pumped_audio | Pumped_auto | Pumped_tray | Pumped_clipboard | Drawn | Ended

record 'os program =
  pg_phase :: phase
  pg_app :: app
  pg_monitors :: "monitor_info list"
  pg_arrangement :: arrangement
  pg_drag :: drag
  pg_input :: input_state
  pg_slave :: slave_audio
  pg_master :: master_audio
  pg_clipboard :: "clip_sync \<times> 'os"
  pg_tray :: tray
  pg_visible :: bool
  pg_frame_visible :: bool
  pg_telemetry :: "pump_state \<times> telemetry"
  pg_raw_events :: u64
  pg_raw_processed :: u64
  pg_out :: "pump_out list"

abbreviation server_status :: "app \<Rightarrow> connection_info option" where
  "server_status a \<equiv> map_option link_server_status (ap_server a)"

abbreviation client_status :: "app \<Rightarrow> connection_info option" where
  "client_status a \<equiv> map_option link_status (ap_client a)"

abbreviation at_phase :: "phase \<Rightarrow> 'os program \<Rightarrow> 'os program" where
  "at_phase ph p \<equiv> p\<lparr>pg_phase := ph\<rparr>"

section \<open>The pumps on the whole state\<close>

text \<open>What \<open>pump_input\<close> asks the system for; \<open>disconnect_current\<close> is called by the escape hotkey.\<close>

record input_reading =
  rd_cursor :: "(int \<times> int) option"
  rd_modifiers :: byte
  rd_hooks :: bool
  rd_junk :: direction

definition input_env_of :: "input_reading \<Rightarrow> 'os program \<Rightarrow> input_env" where
  "input_env_of r p =
     \<lparr>env_role = ap_role (pg_app p), env_server = server_status (pg_app p), env_monitors = pg_monitors p,
      env_arrangement = pg_arrangement p, env_cursor = rd_cursor r, env_modifiers = rd_modifiers r,
      env_hooks = rd_hooks r, env_junk = rd_junk r\<rparr>"

definition do_input :: "input_reading \<Rightarrow> 'os program \<Rightarrow> 'os program" where
  "do_input r p =
     (let s = pump_input (input_env_of r p) (pg_input p)
      in p\<lparr>pg_input := s\<lparr>is_disconnect := False\<rparr>,
           pg_app := (if is_disconnect s then disconnect_slave (pg_app p) else pg_app p)\<rparr>)"

text \<open>What \<open>pump_audio\<close> finds: the time, whether a device opens, the underrun counter and the datagrams. The
  settings are fields of the one \<^verbatim>\<open>AppState\<close>, so both models see the same ones.\<close>

record audio_reading =
  au_now :: int
  au_opens :: bool
  au_underruns :: u64
  au_waiting :: "bytes list"

definition slave_view :: "app \<Rightarrow> slave_audio \<Rightarrow> slave_audio" where
  "slave_view a st = st\<lparr>sl_send_enabled := ap_audio_send a, sl_desired := ap_audio_format a\<rparr>"

definition master_view :: "app \<Rightarrow> master_audio \<Rightarrow> master_audio" where
  "master_view a st =
     st\<lparr>ma_desired_enabled := ap_master_send a, ma_desired := ap_master_format a, ma_overridden := ap_overridden a\<rparr>"

definition do_audio :: "crypto \<Rightarrow> audio_reading \<Rightarrow> 'os program \<Rightarrow> 'os program" where
  "do_audio c r p =
     (let a = pg_app p
      in if ap_role a = Master
         then let (out, n, st) = pump_master c (server_status a) (au_now r) (au_opens r) (au_underruns r) (au_waiting r)
                    (master_view a (pg_master p))
              in p\<lparr>pg_master := st, pg_out := pg_out p @ out,
                   pg_app := a\<lparr>ap_master_send := ma_desired_enabled st, ap_master_format := ma_desired st,
                               ap_overridden := ma_overridden st\<rparr>\<rparr>
         else let (out, st) = pump_slave c (client_status a) (au_now r) (au_opens r) (slave_view a (pg_slave p))
              in p\<lparr>pg_slave := st, pg_out := pg_out p @ out,
                   pg_app := a\<lparr>ap_audio_send := sl_send_enabled st, ap_audio_format := sl_desired st\<rparr>\<rparr>)"

definition do_auto :: "'os program \<Rightarrow> 'os program" where
  "do_auto p = p\<lparr>pg_app := auto_frame (pg_app p)\<rparr>"

definition do_tray :: "(string \<times> method_call) list \<Rightarrow> 'os program \<Rightarrow> 'os program" where
  "do_tray calls p =
     (let (answers, t) = pump_tray calls (pg_tray p)
      in p\<lparr>pg_tray := t, pg_visible := (pg_visible p \<or> tr_restored (pg_tray p) < tr_restored t)\<rparr>)"

definition do_clipboard :: "'os clipboard_api \<Rightarrow> clipboard_message option \<Rightarrow> int \<Rightarrow> 'os program \<Rightarrow> 'os program" where
  "do_clipboard api pending now p =
     (let a = pg_app p;
          f = \<lparr>cf_status = (if ap_role a = Master then server_status a else client_status a), cf_pending = pending, cf_now = now\<rparr>;
          (ms, st) = pump_clipboard api f (pg_clipboard p)
      in p\<lparr>pg_clipboard := st, pg_out := pg_out p @ map (\<lambda>(ty, data). PSend ty data) ms\<rparr>)"

definition do_telemetry :: "rat \<Rightarrow> tick_env \<Rightarrow> (nat \<Rightarrow> string \<times> string) \<Rightarrow> 'os program \<Rightarrow> 'os program" where
  "do_telemetry frame_time_ms e stamps p =
     (let a = pg_app p;
          playback = map_option (\<lambda>b. (jb_depth b, jb_max b, \<lparr>gc_generation = ma_generation (pg_master p), gc_value = jb_cap_episodes b\<rparr>))
            (ma_playback (pg_master p));
          e1 = e\<lparr>te_counters := (te_counters e)\<lparr>ct_raw_input_events := pg_raw_events p,
                ct_raw_input_processed := pg_raw_processed p\<rparr>\<rparr>;
          (written, t) = pump_telemetry (ap_role a)
            (map_option ci_state (if ap_role a = Master then server_status a else client_status a))
            playback frame_time_ms (pg_frame_visible p) e1 stamps (pg_telemetry p)
      in p\<lparr>pg_telemetry := t\<rparr>)"

section \<open>Windows messages\<close>

text \<open>A raw input packet, when \<^verbatim>\<open>GetRawInputData\<close> yields one; \<open>ri_relative\<close> is the absence of
  \<^verbatim>\<open>MOUSE_MOVE_ABSOLUTE\<close>.\<close>

record raw_packet =
  ri_mouse :: bool
  ri_relative :: bool
  ri_dx :: int
  ri_dy :: int

datatype tray_click = Left_up | Left_double | Right_up | Other_click

datatype window_message = Wm_input "raw_packet option" | Wm_tray tray_click | Wm_command u16 | Wm_other

definition kQuitMenuCommand :: u16 where "kQuitMenuCommand = 1"

definition is_suppressed :: "hook \<Rightarrow> bool" where
  "is_suppressed h \<longleftrightarrow> hk_installed h \<and> hk_suppress h"

definition raw_input :: "raw_packet option \<Rightarrow> 'os program \<Rightarrow> 'os program" where
  "raw_input packet p =
     (let p1 = p\<lparr>pg_raw_events := pg_raw_events p + 1\<rparr>; h = is_hook (pg_input p1)
      in if \<not> is_suppressed h then p1
         else let p2 = p1\<lparr>pg_raw_processed := pg_raw_processed p1 + 1\<rparr>
              in case packet of
                   None \<Rightarrow> p2
                 | Some r \<Rightarrow>
                     if ri_mouse r \<and> ri_relative r
                     then p2\<lparr>pg_input := (pg_input p2)\<lparr>is_hook := feed_raw_delta (ri_dx r) (ri_dy r) h\<rparr>\<rparr>
                     else p2)"

text \<open>The context menu only asks the system to send a command later.\<close>

definition tray_handle_message :: "window_message \<Rightarrow> 'os program \<Rightarrow> 'os program" where
  "tray_handle_message m p =
     (case m of
        Wm_tray click \<Rightarrow> (if click = Left_up \<or> click = Left_double then p\<lparr>pg_visible := True\<rparr> else p)
      | Wm_command w \<Rightarrow> (if w = kQuitMenuCommand then p\<lparr>pg_tray := request_quit (pg_tray p)\<rparr> else p)
      | _ \<Rightarrow> p)"

definition raw_input_wndproc :: "window_message \<Rightarrow> 'os program \<Rightarrow> 'os program" where
  "raw_input_wndproc m p = tray_handle_message m (case m of Wm_input packet \<Rightarrow> raw_input packet p | _ \<Rightarrow> p)"

text \<open>Closing the window hides it.\<close>

definition window_close_callback :: "'os program \<Rightarrow> 'os program" where
  "window_close_callback p = p\<lparr>pg_visible := False\<rparr>"

section \<open>Drawing\<close>

text \<open>The user clicks at most one button in a frame, and only one that the screen at hand offers.\<close>

datatype ui_click = No_click | Exit | Click app_event

definition network_news :: "app_event \<Rightarrow> bool" where
  "network_news ev \<longleftrightarrow>
     (case ev of Heard _ \<Rightarrow> True | Server_at _ \<Rightarrow> True | Client_at _ \<Rightarrow> True | Trusted _ _ \<Rightarrow> True | _ \<Rightarrow> False)"

definition button :: "app_event \<Rightarrow> bool" where
  "button ev \<longleftrightarrow> \<not> network_news ev \<and>
     (case ev of Requested _ _ \<Rightarrow> False | Mirrored _ _ \<Rightarrow> False | Override_ends \<Rightarrow> False | Escape_hotkey \<Rightarrow> False
      | Frame \<Rightarrow> False | _ \<Rightarrow> True)"

inductive clicked :: "ui_click \<Rightarrow> 'os program \<Rightarrow> 'os program \<Rightarrow> bool" where
  nothing: "clicked No_click p p"
| exit: "clicked Exit p (p\<lparr>pg_tray := request_quit (pg_tray p)\<rparr>)"
| click: "button ev \<Longrightarrow> app_step (pg_app p) ev a \<Longrightarrow> clicked (Click ev) p (p\<lparr>pg_app := a\<rparr>)"

definition draw_screen :: "block_input \<Rightarrow> 'os program \<Rightarrow> 'os program" where
  "draw_screen i p =
     (if ap_screen (pg_app p) = Arrangement
      then (let (sa, g) = draw_arrangement (pg_monitors p) (server_status (pg_app p)) i (pg_arrangement p, pg_drag p)
            in p\<lparr>pg_arrangement := sa, pg_drag := g\<rparr>)
      else p)"

section \<open>The end\<close>

text \<open>The objects are destroyed in this order; \<open>AppState\<close> itself, with hook and audio devices, when \<open>main\<close> returns.\<close>

definition reset_connections :: "app \<Rightarrow> app" where
  "reset_connections a = a\<lparr>ap_announcer := None, ap_listener := None, ap_server := None, ap_client := None\<rparr>"

definition shutdown :: "'os program \<Rightarrow> 'os program" where
  "shutdown p =
     p\<lparr>pg_app := reset_connections (pg_app p), pg_tray := uninstall_tray (pg_tray p),
       pg_input := (pg_input p)\<lparr>is_hook := hook_uninstall (is_hook (pg_input p))\<rparr>,
       pg_slave := (pg_slave p)\<lparr>sl_capture := None\<rparr>, pg_master := (pg_master p)\<lparr>ma_playback := None\<rparr>\<rparr>"

section \<open>The loop\<close>

datatype 'os main_event =
  Begin_iteration
| Os os_event
| Message window_message
| Close
| Input input_reading
| Audio audio_reading
| Auto
| Tray "(string \<times> method_call) list"
| Clipboard "clipboard_message option" int
| Draw ui_click block_input
| Report rat tick_env "nat \<Rightarrow> string \<times> string"
| Finish
| Network app_event
| Captured bytes
| Played
| Other_program "'os \<Rightarrow> 'os"

inductive main_step :: "crypto \<Rightarrow> 'os clipboard_api \<Rightarrow> 'os program \<Rightarrow> 'os main_event \<Rightarrow> 'os program \<Rightarrow> bool"
  for c :: crypto and api :: "'os clipboard_api" where
  begin_iteration: "pg_phase p = Top \<Longrightarrow> \<not> tr_quit (pg_tray p) \<Longrightarrow>
    main_step c api p Begin_iteration (p\<lparr>pg_phase := Polling, pg_frame_visible := pg_visible p\<rparr>)"
| os: "pg_phase p = Polling \<Longrightarrow>
    main_step c api p (Os e) (p\<lparr>pg_input := (pg_input p)\<lparr>is_hook := snd (os_step e (is_hook (pg_input p)))\<rparr>\<rparr>)"
| message: "pg_phase p = Polling \<Longrightarrow> main_step c api p (Message m) (raw_input_wndproc m p)"
| close: "pg_phase p = Polling \<Longrightarrow> main_step c api p Close (window_close_callback p)"
| input: "pg_phase p = Polling \<Longrightarrow> main_step c api p (Input r) (at_phase Pumped_input (do_input r p))"
| audio: "pg_phase p = Pumped_input \<Longrightarrow> main_step c api p (Audio r2) (at_phase Pumped_audio (do_audio c r2 p))"
| auto_connect: "pg_phase p = Pumped_audio \<Longrightarrow> main_step c api p Auto (at_phase Pumped_auto (do_auto p))"
| tray: "pg_phase p = Pumped_auto \<Longrightarrow> main_step c api p (Tray calls) (at_phase Pumped_tray (do_tray calls p))"
| clipboard: "pg_phase p = Pumped_tray \<Longrightarrow>
    main_step c api p (Clipboard pending now) (at_phase Pumped_clipboard (do_clipboard api pending now p))"
| draw: "pg_phase p = Pumped_clipboard \<Longrightarrow> pg_frame_visible p \<Longrightarrow> clicked k (draw_screen i p) p' \<Longrightarrow>
    main_step c api p (Draw k i) (at_phase Drawn p')"
| report: "pg_phase p = (if pg_frame_visible p then Drawn else Pumped_clipboard) \<Longrightarrow>
    main_step c api p (Report ms te stamps) (at_phase Top (do_telemetry ms te stamps p))"
| finish: "pg_phase p = Top \<Longrightarrow> tr_quit (pg_tray p) \<Longrightarrow> main_step c api p Finish (at_phase Ended (shutdown p))"
| network: "pg_phase p \<noteq> Ended \<Longrightarrow> network_news ev \<Longrightarrow> app_step (pg_app p) ev a \<Longrightarrow>
    main_step c api p (Network ev) (p\<lparr>pg_app := a\<rparr>)"
| captured: "pg_phase p \<noteq> Ended \<Longrightarrow>
    main_step c api p (Captured data) (p\<lparr>pg_slave := snd (capture_callback c data (pg_slave p))\<rparr>)"
| played: "pg_phase p \<noteq> Ended \<Longrightarrow> main_step c api p Played (p\<lparr>pg_master := snd (playback_pop (pg_master p))\<rparr>)"
| other_program: "pg_phase p \<noteq> Ended \<Longrightarrow>
    main_step c api p (Other_program f) (p\<lparr>pg_clipboard := (fst (pg_clipboard p), f (snd (pg_clipboard p)))\<rparr>)"

inductive_cases main_stepE: "main_step c api p ev p'"
inductive_cases clickedE: "clicked k p p'"

inductive main_run :: "crypto \<Rightarrow> 'os clipboard_api \<Rightarrow> 'os program \<Rightarrow> 'os main_event list \<Rightarrow> 'os program \<Rightarrow> bool"
  for c :: crypto and api :: "'os clipboard_api" where
  main_Nil: "main_run c api p [] p"
| main_snoc: "main_run c api p evs p' \<Longrightarrow> main_step c api p' ev p'' \<Longrightarrow> main_run c api p (evs @ [ev]) p''"

text \<open>What \<open>main\<close> has built when the loop begins.\<close>

definition program_start ::
    "app \<Rightarrow> monitor_info list \<Rightarrow> arrangement \<Rightarrow> tray \<Rightarrow> 'os \<Rightarrow> telemetry \<Rightarrow> 'os program" where
  "program_start a monitors sa t os tm =
     \<lparr>pg_phase = Top, pg_app = a, pg_monitors = monitors, pg_arrangement = sa, pg_drag = drag_init,
      pg_input = input_init, pg_slave = slave_audio_init, pg_master = master_audio_init, pg_clipboard = (clip_init, os),
      pg_tray = t, pg_visible = True, pg_frame_visible = True, pg_telemetry = (pump_init, tm), pg_raw_events = 0,
      pg_raw_processed = 0, pg_out = []\<rparr>"

section \<open>The application in the loop\<close>

lemma raw_input_fields [simp]:
  "pg_app (raw_input r p) = pg_app p" "pg_phase (raw_input r p) = pg_phase p" "pg_slave (raw_input r p) = pg_slave p"
  "pg_master (raw_input r p) = pg_master p" "pg_tray (raw_input r p) = pg_tray p" "pg_visible (raw_input r p) = pg_visible p"
  by (simp_all add: raw_input_def Let_def split: option.split)

lemma wndproc_fields [simp]:
  "pg_app (raw_input_wndproc m p) = pg_app p" "pg_phase (raw_input_wndproc m p) = pg_phase p"
  "pg_slave (raw_input_wndproc m p) = pg_slave p" "pg_master (raw_input_wndproc m p) = pg_master p"
  by (simp_all add: raw_input_wndproc_def tray_handle_message_def split: window_message.split)

lemma draw_screen_fields [simp]:
  "pg_app (draw_screen i p) = pg_app p" "pg_phase (draw_screen i p) = pg_phase p" "pg_slave (draw_screen i p) = pg_slave p"
  "pg_master (draw_screen i p) = pg_master p" "pg_tray (draw_screen i p) = pg_tray p" "pg_input (draw_screen i p) = pg_input p"
  by (simp_all add: draw_screen_def split: prod.split)

lemma do_fields [simp]:
  "pg_app (do_tray calls p) = pg_app p" "pg_app (do_clipboard api pending now p) = pg_app p" "pg_app (do_telemetry ms te st p) = pg_app p"
  "pg_input (do_tray calls p) = pg_input p" "pg_input (do_clipboard api pending now p) = pg_input p" "pg_input (do_telemetry ms te st p) = pg_input p"
  "pg_slave (do_tray calls p) = pg_slave p" "pg_slave (do_clipboard api pending now p) = pg_slave p" "pg_slave (do_telemetry ms te st p) = pg_slave p"
  "pg_master (do_tray calls p) = pg_master p" "pg_master (do_clipboard api pending now p) = pg_master p" "pg_master (do_telemetry ms te st p) = pg_master p"
  "pg_tray (do_clipboard api pending now p) = pg_tray p" "pg_tray (do_telemetry ms te st p) = pg_tray p"
  by (simp_all add: do_tray_def do_clipboard_def do_telemetry_def Let_def split: prod.split)

lemma app_run_one: "app_step a ev a' \<Longrightarrow> app_run a [ev] a'"
  using run_snoc [OF run_Nil] by simp

text \<open>The audio pump changes the settings only as the other machine reports or requests them.\<close>

lemma slave_settings_kept [simp]:
  "sl_send_enabled (snd (stop_if_active st)) = sl_send_enabled st" "sl_desired (snd (stop_if_active st)) = sl_desired st"
  "sl_send_enabled (snd (start_capture c info now opens st)) = sl_send_enabled st"
  "sl_desired (snd (start_capture c info now opens st)) = sl_desired st"
  "sl_send_enabled (snd (report_status st)) = sl_send_enabled st" "sl_desired (snd (report_status st)) = sl_desired st"
  by (simp_all add: slave_defs Let_def split: option.split prod.split)

lemma master_settings_kept [simp]:
  "ma_desired_enabled (snd (stop_master_if_active st)) = ma_desired_enabled st"
  "ma_desired (snd (stop_master_if_active st)) = ma_desired st" "ma_overridden (snd (stop_master_if_active st)) = ma_overridden st"
  "ma_desired_enabled (snd (ensure_playback c info opens u st)) = ma_desired_enabled st"
  "ma_desired (snd (ensure_playback c info opens u st)) = ma_desired st"
  "ma_overridden (snd (ensure_playback c info opens u st)) = ma_overridden st"
  "ma_desired_enabled (snd (receive_audio c now ds st)) = ma_desired_enabled st"
  "ma_desired (snd (receive_audio c now ds st)) = ma_desired st" "ma_overridden (snd (receive_audio c now ds st)) = ma_overridden st"
  "ma_overridden (snd (sync_control info st)) = ma_overridden st"
  "ma_overridden st \<Longrightarrow> ma_desired_enabled (snd (sync_control info st)) = ma_desired_enabled st"
  "ma_overridden st \<Longrightarrow> ma_desired (snd (sync_control info st)) = ma_desired st"
  by (simp_all add: stop_master_if_active_def stop_master_audio_def ensure_playback_def start_playback_def receive_audio_def
      sync_control_def sample_windows_def Let_def split: option.split prod.split)

definition clicks_of :: "'os main_event \<Rightarrow> app_event list" where
  "clicks_of ev = (case ev of Draw (Click b) _ \<Rightarrow> [b] | _ \<Rightarrow> [])"

lemma app_run_append: "app_run b evs' d \<Longrightarrow> app_run a evs b \<Longrightarrow> app_run a (evs @ evs') d"
proof (induction rule: app_run.induct)
  case (run_snoc b evs' d ev d')
  then show ?case using app_run.run_snoc [of a "evs @ evs'" d ev d'] by simp
qed simp

lemma disconnect_needs_server:
  "is_disconnect (pump_input env s) \<Longrightarrow> \<not> is_disconnect s \<Longrightarrow> env_role env = Master \<and> env_server env \<noteq> None"
  by (auto simp: pump_input_def deactivate_hook_def split: option.splits if_splits)

lemma do_input_app:
  assumes "\<not> is_disconnect (pg_input p)"
  shows "\<exists>evs. app_run (pg_app p) evs (pg_app (do_input r p)) \<and> filter button evs = []"
proof (cases "is_disconnect (pump_input (input_env_of r p) (pg_input p))")
  case True
  from disconnect_needs_server [OF this assms] obtain s where "ap_role (pg_app p) = Master" "ap_server (pg_app p) = Some s"
    by (auto simp: input_env_of_def)
  then have "app_step (pg_app p) Escape_hotkey (pg_app (do_input r p))"
    using True by (simp add: do_input_def Let_def app_step.escape)
  from app_run_one [OF this] show ?thesis by (intro exI [of _ "[Escape_hotkey]"]) (simp add: button_def)
next
  case False
  then show ?thesis by (intro exI [of _ "[]"]) (simp add: do_input_def Let_def run_Nil)
qed

lemma do_audio_app: "\<exists>evs. app_run (pg_app p) evs (pg_app (do_audio c r p)) \<and> filter button evs = []"
proof (cases "ap_role (pg_app p)")
  case Slave
  let ?a = "pg_app p" and ?st = "slave_view (pg_app p) (pg_slave p)"
  let ?r = "snd (pump_slave c (client_status ?a) (au_now r) (au_opens r) ?st)"
  have a: "pg_app (do_audio c r p) = ?a\<lparr>ap_audio_send := sl_send_enabled ?r, ap_audio_format := sl_desired ?r\<rparr>"
    using Slave by (simp add: do_audio_def Let_def split_def)
  show ?thesis
  proof (cases "ap_client ?a")
    case None
    then have "pg_app (do_audio c r p) = ?a"
      by (simp add: a pump_slave_def slave_view_def Let_def split_def)
    then show ?thesis by (intro exI [of _ "[]"]) (simp add: run_Nil)
  next
    case (Some l)
    with Slave have "app_step ?a (Requested (sl_send_enabled ?r) (sl_desired ?r)) (pg_app (do_audio c r p))"
      unfolding a by (intro app_step.requested) simp_all
    from app_run_one [OF this] show ?thesis
      by (intro exI [of _ "[Requested (sl_send_enabled ?r) (sl_desired ?r)]"]) (simp add: button_def)
  qed
next
  case Master
  let ?a = "pg_app p" and ?st = "master_view (pg_app p) (pg_master p)"
  let ?r = "snd (snd (pump_master c (server_status ?a) (au_now r) (au_opens r) (au_underruns r) (au_waiting r) ?st))"
  have a: "pg_app (do_audio c r p) =
      ?a\<lparr>ap_master_send := ma_desired_enabled ?r, ap_master_format := ma_desired ?r, ap_overridden := ma_overridden ?r\<rparr>"
    using Master by (simp add: do_audio_def Let_def split_def)
  show ?thesis
  proof (cases "\<exists>info. server_status ?a = Some info \<and> ci_state info = Connected")
    case False
    then have "pg_app (do_audio c r p) = ?a\<lparr>ap_overridden := False\<rparr>"
      unfolding a by (auto simp: pump_master_def master_view_def Let_def split_def split: option.split)
    then have "app_step ?a Override_ends (pg_app (do_audio c r p))" using Master by (simp add: app_step.override_ends)
    from app_run_one [OF this] show ?thesis by (intro exI [of _ "[Override_ends]"]) (simp add: button_def)
  next
    case True
    then obtain info where i: "server_status ?a = Some info" "ci_state info = Connected" by blast
    have ov: "ma_overridden ?r = ap_overridden ?a"
      by (simp add: i pump_master_def Let_def split_def) (simp add: master_view_def)
    show ?thesis
    proof (cases "ap_overridden ?a")
      case True
      then have "ma_overridden ?st" by (simp add: master_view_def)
      then have "ma_desired_enabled ?r = ap_master_send ?a" "ma_desired ?r = ap_master_format ?a"
        by (simp_all add: i pump_master_def Let_def split_def) (simp_all add: master_view_def)
      then have "pg_app (do_audio c r p) = ?a" unfolding a ov by simp
      then show ?thesis by (intro exI [of _ "[]"]) (simp add: run_Nil)
    next
      case False
      have "pg_app (do_audio c r p) = ?a\<lparr>ap_master_send := ma_desired_enabled ?r, ap_master_format := ma_desired ?r\<rparr>"
        unfolding a ov by (rule app.equality) simp_all
      moreover have "ap_server ?a \<noteq> None" using i(1) by auto
      ultimately have "app_step ?a (Mirrored (ma_desired_enabled ?r) (ma_desired ?r)) (pg_app (do_audio c r p))"
        using app_step.mirrored [OF Master _ False] by simp
      from app_run_one [OF this] show ?thesis
        by (intro exI [of _ "[Mirrored (ma_desired_enabled ?r) (ma_desired ?r)]"]) (simp add: button_def)
    qed
  qed
qed

lemma step_app:
  assumes "main_step c api p ev p'" "\<not> is_disconnect (pg_input p)" "pg_phase p' \<noteq> Ended"
  shows "\<exists>evs. app_run (pg_app p) evs (pg_app p') \<and> filter button evs = clicks_of ev"
  using assms
proof (cases rule: main_step.cases)
  case (input r)
  then show ?thesis using do_input_app [OF assms(2), of r] by (simp add: clicks_of_def)
next
  case (audio r2)
  then show ?thesis using do_audio_app [of p c r2] by (simp add: clicks_of_def)
next
  case auto_connect
  have "app_run (pg_app p) [Frame] (pg_app p')"
    using auto_connect by (intro app_run_one) (simp add: do_auto_def app_step.auto_frame)
  then show ?thesis using auto_connect by (intro exI [of _ "[Frame]"]) (simp add: clicks_of_def button_def)
next
  case (draw k i q)
  from draw(5) show ?thesis
  proof (cases rule: clicked.cases)
    case (click b a)
    then have "app_run (pg_app p) [b] (pg_app p')" using draw(2) by (intro app_run_one) simp
    with click draw show ?thesis by (intro exI [of _ "[b]"]) (simp add: clicks_of_def)
  qed (use draw in \<open>auto simp: clicks_of_def intro!: exI [of _ "[]"] run_Nil\<close>)
next
  case (network e a)
  then have "app_run (pg_app p) [e] (pg_app p')" by (intro app_run_one) simp
  with network show ?thesis by (intro exI [of _ "[e]"]) (simp add: clicks_of_def button_def)
qed (auto simp: clicks_of_def window_close_callback_def intro!: exI [of _ "[]"] run_Nil)

section \<open>Hooks and devices follow the role\<close>

text \<open>The phases are ordered as an iteration goes through them. A button drawn in the frame may change the role, so
  what the pumps have established holds up to drawing.\<close>

fun phase_number :: "phase \<Rightarrow> nat" where
  "phase_number Top = 0" | "phase_number Polling = 1" | "phase_number Pumped_input = 2" | "phase_number Pumped_audio = 3"
| "phase_number Pumped_auto = 4" | "phase_number Pumped_tray = 5" | "phase_number Pumped_clipboard = 6"
| "phase_number Drawn = 7" | "phase_number Ended = 8"

lemma phase_number_inj: "phase_number x = phase_number y \<Longrightarrow> x = y"
  by (cases x; cases y) simp_all

instantiation phase :: linorder
begin

definition less_eq_phase :: "phase \<Rightarrow> phase \<Rightarrow> bool" where
  "less_eq_phase x y \<longleftrightarrow> phase_number x \<le> phase_number y"

definition less_phase :: "phase \<Rightarrow> phase \<Rightarrow> bool" where
  "less_phase x y \<longleftrightarrow> phase_number x < phase_number y"

instance
  by standard (auto simp: less_eq_phase_def less_phase_def intro: phase_number_inj)

end

definition after_input :: "phase \<Rightarrow> bool" where
  "after_input ph \<longleftrightarrow> Pumped_input \<le> ph \<and> ph < Drawn"

definition after_audio :: "phase \<Rightarrow> bool" where
  "after_audio ph \<longleftrightarrow> Pumped_audio \<le> ph \<and> ph < Drawn"

lemmas phase_order = less_eq_phase_def less_phase_def

definition parts_ok :: "'os program \<Rightarrow> bool" where
  "parts_ok p \<longleftrightarrow> app_ok (pg_app p) \<and> input_ok (pg_input p) \<and> \<not> is_disconnect (pg_input p) \<and>
     slave_ok (pg_slave p) \<and> master_ok (pg_master p)"

definition roles_ok :: "'os program \<Rightarrow> bool" where
  "roles_ok p \<longleftrightarrow>
     (is_active (pg_input p) \<longrightarrow> ap_role (pg_app p) = Master) \<and> (sl_active (pg_slave p) \<longrightarrow> ap_role (pg_app p) = Slave) \<and>
     (ma_active (pg_master p) \<longrightarrow> ap_role (pg_app p) = Master)"

text \<open>Once a pump has run, nothing it controls is left without a connection object.\<close>

definition pumped_ok :: "'os program \<Rightarrow> bool" where
  "pumped_ok p \<longleftrightarrow>
     (after_input (pg_phase p) \<and> ap_server (pg_app p) = None \<longrightarrow> \<not> is_active (pg_input p)) \<and>
     (after_audio (pg_phase p) \<longrightarrow> (ap_server (pg_app p) = None \<longrightarrow> \<not> ma_active (pg_master p)) \<and>
        (ap_client (pg_app p) = None \<longrightarrow> \<not> sl_active (pg_slave p)))"

lemmas loop_defs = parts_ok_def roles_ok_def pumped_ok_def after_input_def after_audio_def phase_order

lemma feed_raw_delta_flags [simp]:
  "hk_installed (feed_raw_delta dx dy h) = hk_installed h" "hk_suppress (feed_raw_delta dx dy h) = hk_suppress h"
  by (simp_all add: feed_raw_delta_def)

lemma wndproc_input [simp]:
  "input_ok (pg_input (raw_input_wndproc m p)) = input_ok (pg_input p)"
  "is_active (pg_input (raw_input_wndproc m p)) = is_active (pg_input p)"
  "is_disconnect (pg_input (raw_input_wndproc m p)) = is_disconnect (pg_input p)"
  by (auto simp: raw_input_wndproc_def tray_handle_message_def raw_input_def input_ok_def Let_def
      split: window_message.split option.split)

lemma views_ok [simp]:
  "slave_ok (slave_view a st) = slave_ok st" "master_ok (master_view a mt) = master_ok mt"
  "sl_active (slave_view a st) = sl_active st" "ma_active (master_view a mt) = ma_active mt"
  by (simp_all add: slave_view_def master_view_def slave_ok_def master_ok_def)

lemma role_kept_by_pumps [simp]:
  "ap_role (pg_app (do_input r p)) = ap_role (pg_app p)" "ap_role (pg_app (do_audio c ar p)) = ap_role (pg_app p)"
  "ap_role (auto_frame a) = ap_role a"
  "ap_server (pg_app (do_input r p)) = None \<longleftrightarrow> ap_server (pg_app p) = None"
  "ap_server (pg_app (do_audio c ar p)) = ap_server (pg_app p)" "ap_client (pg_app (do_audio c ar p)) = ap_client (pg_app p)"
  "ap_server (auto_frame a) = ap_server a" "ap_client (pg_app (do_input r p)) = ap_client (pg_app p)"
  by (simp_all add: do_input_def do_audio_def auto_frame_def disconnect_slave_def connect_to_def Let_def
      split: option.split prod.split)

lemma auto_frame_client: "ap_client (auto_frame a) = None \<Longrightarrow> ap_client a = None"
  by (auto simp: auto_frame_def Let_def connect_to_def split: prod.splits option.splits)

lemma news_keeps:
  "app_step a ev a' \<Longrightarrow> network_news ev \<Longrightarrow>
    ap_role a' = ap_role a \<and> (ap_server a' = None \<longleftrightarrow> ap_server a = None) \<and> (ap_client a' = None \<longleftrightarrow> ap_client a = None)"
  by (induction rule: app_step.induct) (simp_all add: network_news_def)

text \<open>A button changes the role only where nothing runs.\<close>

lemma button_role:
  assumes "app_step a ev a'" "button ev" "app_ok a"
  shows "ap_role a' = ap_role a \<or> app_idle a"
  using assms
  by (induction rule: app_step.induct)
    (simp_all add: button_def network_news_def app_ok_def set_timeout_def set_auto_connect_def save_settings_def connect_to_def
      decide_pairing_def disconnect_slave_def disconnect_master_def leave_discovery_def forget_device_def choose_audio_def
      Let_def split: option.split)

lemma inactive_without_server:
  "ap_role (pg_app p) = Master \<Longrightarrow> ap_server (pg_app p) = None \<Longrightarrow> \<not> is_active (pg_input (do_input r p))"
  by (simp add: do_input_def Let_def pump_input_def input_env_of_def deactivate_hook_def)

lemma do_input_ok: "input_ok (pg_input p) \<Longrightarrow> input_ok (pg_input (do_input r p)) \<and> \<not> is_disconnect (pg_input (do_input r p))"
  using input_ok_pump [of "pg_input p" "input_env_of r p"] by (simp add: do_input_def Let_def input_ok_def)

lemma slave_input_untouched:
  "ap_role (pg_app p) \<noteq> Master \<Longrightarrow> is_active (pg_input (do_input r p)) = is_active (pg_input p)"
  by (simp add: do_input_def Let_def pump_input_def input_env_of_def)

lemma do_input_devices [simp]:
  "pg_slave (do_input r p) = pg_slave p" "pg_master (do_input r p) = pg_master p" "pg_tray (do_input r p) = pg_tray p"
  by (simp_all add: do_input_def Let_def)

lemma do_audio_devices:
  assumes "slave_ok (pg_slave p)" "master_ok (pg_master p)"
  shows "slave_ok (pg_slave (do_audio c r p)) \<and> master_ok (pg_master (do_audio c r p)) \<and> pg_input (do_audio c r p) = pg_input p \<and>
    (if ap_role (pg_app p) = Master
     then pg_slave (do_audio c r p) = pg_slave p \<and> (ap_server (pg_app p) = None \<longrightarrow> \<not> ma_active (pg_master (do_audio c r p)))
     else pg_master (do_audio c r p) = pg_master p \<and> (ap_client (pg_app p) = None \<longrightarrow> \<not> sl_active (pg_slave (do_audio c r p))))"
proof (cases "ap_role (pg_app p) = Master")
  case True
  obtain out n st where m: "pump_master c (server_status (pg_app p)) (au_now r) (au_opens r) (au_underruns r) (au_waiting r)
      (master_view (pg_app p) (pg_master p)) = (out, n, st)" by (metis prod_cases3)
  have "master_ok st"
    using pump_master_ok [of "master_view (pg_app p) (pg_master p)" c "server_status (pg_app p)" "au_now r" "au_opens r"
        "au_underruns r" "au_waiting r"] assms(2) m by simp
  moreover have "\<not> ma_active st" if "ap_server (pg_app p) = None"
    using m that
    by (auto simp: pump_master_def Let_def stop_master_if_active_def stop_master_audio_def split: if_splits)
  ultimately show ?thesis using True m assms(1) by (cases "ap_server (pg_app p)") (simp_all add: do_audio_def Let_def)
next
  case False
  obtain out st where s: "pump_slave c (client_status (pg_app p)) (au_now r) (au_opens r) (slave_view (pg_app p) (pg_slave p)) = (out, st)"
    by fastforce
  have "slave_ok st"
    using pump_slave_ok [of "slave_view (pg_app p) (pg_slave p)" c "client_status (pg_app p)" "au_now r" "au_opens r"] assms(1) s by simp
  moreover have "\<not> sl_active st" if "ap_client (pg_app p) = None"
    using s that by (auto simp: pump_slave_def Let_def stop_if_active_def stop_slave_audio_def split: if_splits)
  ultimately show ?thesis using False s assms(2) by (cases "ap_client (pg_app p)") (simp_all add: do_audio_def Let_def)
qed

lemma parts_ok_step:
  assumes "main_step c api p ev p'" "parts_ok p" "pg_phase p' \<noteq> Ended"
  shows "parts_ok p'"
proof -
  obtain evs where "app_run (pg_app p) evs (pg_app p')" using step_app [OF assms(1) _ assms(3)] assms(2) by (auto simp: parts_ok_def)
  then have app: "app_ok (pg_app p')" using app_ok_run assms(2) by (auto simp: parts_ok_def)
  from assms show ?thesis
  proof (cases rule: main_step.cases)
    case (os e)
    then show ?thesis using app assms(2) by (simp add: parts_ok_def input_ok_def)
  next
    case (input r)
    then show ?thesis using app assms(2) do_input_ok [of p r] by (simp add: parts_ok_def)
  next
    case (audio r2)
    then show ?thesis using app assms(2) do_audio_devices [of p c r2] by (simp add: parts_ok_def)
  next
    case (draw k i q)
    from draw(5) show ?thesis by (cases rule: clicked.cases) (use app assms(2) draw in \<open>auto simp: parts_ok_def\<close>)
  next
    case (captured data)
    then show ?thesis using app assms(2) by (auto simp: parts_ok_def capture_callback_def slave_ok_def send_to_def split: option.split)
  next
    case played
    then show ?thesis using app assms(2)
      by (auto simp: parts_ok_def playback_pop_def master_ok_def dest: jb_pop_inv jb_pop_fields split: option.split)
  qed (use app assms(2) in \<open>simp_all add: parts_ok_def window_close_callback_def do_auto_def\<close>)
qed

lemma capture_keeps_active [simp]: "sl_active (snd (capture_callback c data st)) = sl_active st"
  by (auto simp: capture_callback_def split: option.split prod.split)

lemma pop_keeps_active [simp]: "ma_active (snd (playback_pop st)) = ma_active st"
  by (auto simp: playback_pop_def split: option.split)

lemma roles_ok_step:
  assumes "main_step c api p ev p'" "parts_ok p" "roles_ok p" "pumped_ok p" "pg_phase p' \<noteq> Ended"
  shows "roles_ok p' \<and> pumped_ok p'"
  using assms(1,5)
proof (cases rule: main_step.cases)
  case (input r)
  have "\<not> is_active (pg_input (do_input r p))" if "ap_server (pg_app p) = None"
  proof (cases "ap_role (pg_app p) = Master")
    case True
    then show ?thesis using inactive_without_server that by blast
  next
    case False
    then show ?thesis using slave_input_untouched [OF False, of r] assms(3) by (simp add: roles_ok_def)
  qed
  moreover have "ap_role (pg_app p) = Master" if "is_active (pg_input (do_input r p))"
    using that slave_input_untouched [of p r] assms(3) by (auto simp: roles_ok_def)
  ultimately show ?thesis using input assms(3) by (auto simp: loop_defs)
next
  case (audio r2)
  have d: "pg_input (do_audio c r2 p) = pg_input p"
    "ap_role (pg_app p) = Master \<Longrightarrow> pg_slave (do_audio c r2 p) = pg_slave p \<and> (ap_server (pg_app p) = None \<longrightarrow> \<not> ma_active (pg_master (do_audio c r2 p)))"
    "ap_role (pg_app p) \<noteq> Master \<Longrightarrow> pg_master (do_audio c r2 p) = pg_master p \<and> (ap_client (pg_app p) = None \<longrightarrow> \<not> sl_active (pg_slave (do_audio c r2 p)))"
    using do_audio_devices [of p c r2] assms(2) by (auto simp: parts_ok_def)
  have r: "roles_ok p" by (rule assms(3))
  show ?thesis
  proof (cases "ap_role (pg_app p)")
    case Master
    then show ?thesis using audio r d(1) d(2) assms(4) by (auto simp: loop_defs)
  next
    case Slave
    then show ?thesis using audio r d(1) d(3) assms(4) by (auto simp: loop_defs)
  qed
next
  case auto_connect
  then show ?thesis using assms(3,4) auto_frame_client [of "pg_app p"] by (auto simp: loop_defs do_auto_def)
next
  case (draw k i q)
  from draw(5) show ?thesis
  proof (cases rule: clicked.cases)
    case (click b a)
    from click(4) have step: "app_step (pg_app p) b a" by simp
    from button_role [OF step click(3)] assms(2) have "ap_role a = ap_role (pg_app p) \<or> app_idle (pg_app p)" by (simp add: parts_ok_def)
    then show ?thesis using click draw assms(3,4) by (auto simp: loop_defs app_idle_def)
  qed (use draw assms(3) in \<open>auto simp: loop_defs\<close>)
next
  case (network e a)
  from news_keeps [OF network(5,4)] network assms(3,4) show ?thesis by (auto simp: loop_defs)
qed (use assms(3,4) in \<open>auto simp: loop_defs window_close_callback_def split: if_splits\<close>)

lemma not_ended_before:
  "main_step c api p ev p' \<Longrightarrow> pg_phase p \<noteq> Ended"
  by (induction rule: main_step.induct) auto

lemma loop_ok_run:
  assumes "main_run c api p evs p'" "parts_ok p" "roles_ok p" "pumped_ok p" "pg_phase p' \<noteq> Ended"
  shows "parts_ok p' \<and> roles_ok p' \<and> pumped_ok p'"
  using assms
proof (induction rule: main_run.induct)
  case (main_snoc p evs q ev q')
  have "pg_phase q \<noteq> Ended" by (rule not_ended_before [OF main_snoc.hyps(2)])
  with main_snoc.IH main_snoc.prems have "parts_ok q \<and> roles_ok q \<and> pumped_ok q" by simp
  then show ?case using parts_ok_step [OF main_snoc.hyps(2)] roles_ok_step [OF main_snoc.hyps(2)] main_snoc.prems(4) by simp
qed simp

lemma loop_ok_start:
  "parts_ok (program_start (app_start device host known role_file settings_file port) monitors sa t os tm) \<and>
   roles_ok (program_start (app_start device host known role_file settings_file port) monitors sa t os tm) \<and>
   pumped_ok (program_start (app_start device host known role_file settings_file port) monitors sa t os tm)"
proof -
  have "master_ok master_audio_init" by (simp add: master_ok_def master_audio_init_def)
  moreover have "\<not> is_active input_init" "\<not> is_disconnect input_init" by (simp_all add: input_init_def)
  moreover have "\<not> sl_active slave_audio_init" "\<not> ma_active master_audio_init"
    by (simp_all add: slave_audio_init_def master_audio_init_def)
  ultimately show ?thesis
    using app_ok_start [of device host known role_file settings_file port] input_ok_init slave_ok_init
    by (simp add: loop_defs program_start_def)
qed

text \<open>
  C6. What the program holds of the machine follows from what the user sees: at every moment of every run
  of the loop, whatever is clicked, heard or reported in between, input hooks and playback exist only
  on a Master and a capture device only on a Slave; and from the call of the pump on, in each
  iteration, there is no hook, no suppression and no playback without a server, and no capture
  without a client, so leaving a role gives everything back before another one can be chosen.
\<close>

theorem devices_follow_role:
  assumes "main_run c api (program_start (app_start device host known role_file settings_file port) monitors sa t os tm) evs p"
    and "pg_phase p \<noteq> Ended"
  shows "(hk_installed (is_hook (pg_input p)) \<or> hk_suppress (is_hook (pg_input p)) \<or> ma_playback (pg_master p) \<noteq> None \<longrightarrow>
      ap_role (pg_app p) = Master) \<and>
    (sl_capture (pg_slave p) \<noteq> None \<longrightarrow> ap_role (pg_app p) = Slave) \<and>
    (after_input (pg_phase p) \<and> ap_server (pg_app p) = None \<longrightarrow>
      \<not> hk_installed (is_hook (pg_input p)) \<and> \<not> hk_suppress (is_hook (pg_input p)) \<and> is_owned (pg_input p)) \<and>
    (after_audio (pg_phase p) \<longrightarrow> (ap_server (pg_app p) = None \<longrightarrow> ma_playback (pg_master p) = None) \<and>
      (ap_client (pg_app p) = None \<longrightarrow> sl_capture (pg_slave p) = None))"
proof -
  have ok: "parts_ok p" "roles_ok p" "pumped_ok p"
    using loop_ok_run [OF assms(1) _ _ _ assms(2)] loop_ok_start [of device host known role_file settings_file port monitors sa t os tm]
    by simp_all
  have hooks: "hk_installed (is_hook (pg_input p)) \<Longrightarrow> is_active (pg_input p)" "hk_suppress (is_hook (pg_input p)) \<Longrightarrow> is_active (pg_input p)"
    "\<not> is_active (pg_input p) \<Longrightarrow> is_owned (pg_input p)"
    using ok(1) by (auto simp: parts_ok_def input_ok_def)
  have devices: "ma_playback (pg_master p) \<noteq> None \<Longrightarrow> ma_active (pg_master p)" "sl_capture (pg_slave p) \<noteq> None \<longleftrightarrow> sl_active (pg_slave p)"
    using ok(1) by (auto simp: parts_ok_def master_ok_def slave_ok_def)
  from ok(2,3) hooks devices show ?thesis unfolding roles_ok_def pumped_ok_def by blast
qed


section \<open>How the program ends\<close>

definition quits :: "bool \<Rightarrow> 'os main_event \<Rightarrow> bool" where
  "quits on_bus ev \<longleftrightarrow>
     (case ev of Draw k _ \<Rightarrow> k = Exit | Message m \<Rightarrow> m = Wm_command kQuitMenuCommand
      | Tray calls \<Rightarrow> on_bus \<and> list_ex quit_click calls | _ \<Rightarrow> False)"

lemma step_quit:
  assumes "main_step c api p ev p'" "pg_phase p' \<noteq> Ended"
  shows "tr_quit (pg_tray p') = (tr_quit (pg_tray p) \<or> quits (tr_connected (pg_tray p)) ev) \<and>
    tr_connected (pg_tray p') = tr_connected (pg_tray p)"
  using assms
proof (cases rule: main_step.cases)
  case (message m)
  then show ?thesis
    by (auto simp: raw_input_wndproc_def tray_handle_message_def quits_def request_quit_def split: window_message.split)
next
  case (draw k i q)
  from draw(5) show ?thesis by (cases rule: clicked.cases) (use draw in \<open>auto simp: quits_def request_quit_def\<close>)
next
  case (tray calls)
  have "snd (pump_tray calls (pg_tray p)) = (if tr_connected (pg_tray p) then snd (dispatch_all calls (pg_tray p)) else pg_tray p)"
    by (simp add: pump_tray_def)
  then show ?thesis using tray dispatch_all_effect [of calls "pg_tray p"]
    by (simp add: do_tray_def quits_def split_def split: if_splits)
next
  case (audio r2)
  then show ?thesis by (simp add: quits_def do_audio_def Let_def split: prod.split)
qed (auto simp: quits_def window_close_callback_def do_auto_def)


section \<open>Concrete runs\<close>

definition demo_program :: "unit program" where
  "demo_program = program_start demo_app [] demo_arrangement demo_tray () demo_telemetry"

definition demo_reading :: input_reading where
  "demo_reading = \<lparr>rd_cursor = None, rd_modifiers = 0, rd_hooks = True, rd_junk = Left\<rparr>"

definition demo_audio :: audio_reading where
  "demo_audio = \<lparr>au_now = 0, au_opens = True, au_underruns = 0, au_waiting = []\<rparr>"

definition demo_audioed :: "crypto \<Rightarrow> unit program" where
  "demo_audioed c =
     at_phase Pumped_audio (do_audio c demo_audio (at_phase Pumped_input (do_input demo_reading
       (demo_program\<lparr>pg_phase := Polling, pg_frame_visible := True\<rparr>))))"

lemma demo_program_fields [simp]:
  "pg_phase demo_program = Top" "pg_visible demo_program = True" "pg_app demo_program = demo_app" "\<not> tr_quit demo_tray"
  "pg_tray demo_program = demo_tray"
  by (simp_all add: demo_program_def program_start_def demo_tray_def install_tray_def)

lemma demo_begun:
  "main_run c api demo_program [Begin_iteration] (demo_program\<lparr>pg_phase := Polling, pg_frame_visible := True\<rparr>)"
  using main_snoc [OF main_Nil [of c api demo_program] begin_iteration [of demo_program c api]] by simp

lemma demo_run: "main_run c api demo_program [Begin_iteration, Input demo_reading, Audio demo_audio] (demo_audioed c)"
proof -
  have "main_run c api demo_program ([Begin_iteration] @ [Input demo_reading])
      (at_phase Pumped_input (do_input demo_reading (demo_program\<lparr>pg_phase := Polling, pg_frame_visible := True\<rparr>)))"
    by (rule main_snoc [OF demo_begun]) (rule main_step.input, simp)
  then have "main_run c api demo_program (([Begin_iteration] @ [Input demo_reading]) @ [Audio demo_audio]) (demo_audioed c)"
    unfolding demo_audioed_def by (rule main_snoc) (rule main_step.audio, simp)
  then show ?thesis by simp
qed

theorem devices_follow_role_witness:
  "\<forall>c (api :: unit clipboard_api). \<exists>p. main_run c api demo_program [Begin_iteration, Input demo_reading, Audio demo_audio] p \<and>
     \<not> hk_suppress (is_hook (pg_input p)) \<and> sl_capture (pg_slave p) = None"
proof (intro allI exI conjI)
  fix c and api :: "unit clipboard_api"
  show run: "main_run c api demo_program [Begin_iteration, Input demo_reading, Audio demo_audio] (demo_audioed c)" by (rule demo_run)
  have p: "pg_phase (demo_audioed c) = Pumped_audio" "ap_role (pg_app (demo_audioed c)) = Slave" "ap_client (pg_app (demo_audioed c)) = None"
    by (simp_all add: demo_audioed_def demo_app_fields)
  from devices_follow_role [OF run [unfolded demo_program_def demo_app_def]] p
  show "\<not> hk_suppress (is_hook (pg_input (demo_audioed c)))" "sl_capture (pg_slave (demo_audioed c)) = None"
    by (auto simp: after_audio_def phase_order)
qed



end
