(* ===== verification/Screens.thy ===== *)
theory Screens
  imports MainLoop
begin

text \<open>
  What the window shows, \<^verbatim>\<open>src/app/ui.cpp\<close>: each screen as the list of its widgets in the order they are drawn,
  with the texts, and with the event of the application that using the widget causes. Layout, colours
  and the canvas of the arrangement screen are left out. \<open>None\<close> is a null pointer followed while drawing.
\<close>

section \<open>Widgets\<close>

text \<open>The flag of a button says whether it is enabled.\<close>

datatype widget =
  Label string
| Push string bool app_event
| Check string bool app_event
| Radio string bool app_event
| Number string int app_event
| Exit_button

fun widget_event :: "widget \<Rightarrow> app_event option" where
  "widget_event (Push _ enabled ev) = (if enabled then Some ev else None)"
| "widget_event (Check _ _ ev) = Some ev"
| "widget_event (Radio _ _ ev) = Some ev"
| "widget_event (Number _ _ ev) = Some ev"
| "widget_event _ = None"

datatype tab = Connection_tab | Audio_tab

text \<open>What drawing depends on besides the state: the open tab, the number in the timeout field, the port a new
  server would get, the clock in milliseconds, memory in MiB and the underrun counter.\<close>

record draw_env =
  de_tab :: tab
  de_typed :: int
  de_port :: u16
  de_now :: int
  de_memory :: rat
  de_underruns :: u64

section \<open>Texts\<close>

definition text_of :: "bytes \<Rightarrow> string" where
  "text_of bs = map (\<lambda>b. char_of (unat b)) bs"

definition padded :: "nat \<Rightarrow> string \<Rightarrow> string" where
  "padded n s = replicate (n - length s) (CHR ''0'') @ s"

definition role_label :: "role \<Rightarrow> string" where
  "role_label r = (if r = Master then ''Master'' else ''Slave'')"

text \<open>\<^verbatim>\<open>%02X\<close> prints capital letters.\<close>

definition upper_hex :: "char \<Rightarrow> char" where
  "upper_hex c = (let n = of_char c :: nat in if 97 \<le> n \<and> n \<le> 102 then char_of (n - 32) else c)"

definition vk_name :: "u32 \<Rightarrow> string" where
  "vk_name k =
     (if k = 0x1B then ''Esc''
      else if k \<in> {0x10, 0xA0, 0xA1} then ''Shift''
      else if k \<in> {0x11, 0xA2, 0xA3} then ''Ctrl''
      else if k \<in> {0x12, 0xA4, 0xA5} then ''Alt''
      else if k \<in> {0x5B, 0x5C} then ''Win''
      else ''VK 0x'' @ map upper_hex (padded 2 (show_hex k)))"

fun joined :: "string list \<Rightarrow> string" where
  "joined [] = []"
| "joined [s] = s"
| "joined (s # ss) = s @ '' + '' @ joined ss"

definition draw_monitor_table :: "monitor_info list \<Rightarrow> widget list" where
  "draw_monitor_table monitors =
     (if monitors = [] then [Label ''(none reported)'']
      else map Label [''Name'', ''X'', ''Y'', ''Width'', ''Height'', ''Primary''] @
        concat (map (\<lambda>m. map Label [text_of (mon_name m), show_int (mon_x m), show_int (mon_y m), show_int (mon_width m),
          show_int (mon_height m), if mon_primary m then ''yes'' else ''''])  monitors))"

definition draw_connection_quality :: "draw_env \<Rightarrow> connection_info \<Rightarrow> 'os program \<Rightarrow> widget list" where
  "draw_connection_quality e info p =
     map Label ([''Connection quality:'',
       if ci_rtt info < 0 then ''Round-trip time: measuring...'' else ''Round-trip time: '' @ show_int (ci_rtt info) @ '' ms''] @
     (if ap_role (pg_app p) = Master
      then
        (let m = pg_master p; loss = loss_reading (ma_loss m);
             underruns = (if ma_playback m \<noteq> None \<and> de_underruns e \<ge> ma_underruns_baseline m
                          then de_underruns e - ma_underruns_baseline m else 0);
             capacity = (case ma_playback m of None \<Rightarrow> 0 | Some b \<Rightarrow> jb_max b)
         in [if \<not> rd_ready loss then ''Audio playout misses (last 60 s): measuring...''
             else if 0 < rd_attempts loss
             then ''Audio playout misses (last 60 s): '' @ show_word (rd_misses loss) @ '' / '' @ show_word (rd_attempts loss) @
                  '' ('' @ show_fixed 1 (100 * of_nat (unat (rd_misses loss)) / of_nat (unat (rd_attempts loss))) @ ''%)''
             else ''Audio playout misses (last 60 s): '' @ show_word (rd_misses loss),
             ''(Playback-side estimate: may reflect network loss, late arrival, or a receive stall -- not exact packet loss.)'',
             ''Audio underruns (since playback started): '' @ show_word underruns,
             if dw_ready (ma_depth m)
             then ''Jitter buffer peak (last 10 s): '' @ show_nat 10 (depth_maximum (ma_depth m)) @ '' / '' @ show_nat 10 capacity @ '' packets''
             else ''Jitter buffer peak (last 10 s): measuring...''])
      else [''Audio playout misses: not applicable (playback happens on the Master)'',
            ''Audio underruns: not applicable (playback happens on the Master)'',
            ''Jitter buffer: not applicable (playback happens on the Master)'']) @
     [''Reconnections this session: '' @ show_word (pt_reconnect_count (fst (pg_telemetry p)))])"

section \<open>The tabs of the discovery screen\<close>

definition seconds_since :: "int \<Rightarrow> int \<Rightarrow> int" where
  "seconds_since now t = (if now < t then - ((t - now) div 1000) else (now - t) div 1000)"

definition draw_peer :: "draw_env \<Rightarrow> bool \<Rightarrow> peer_info \<Rightarrow> widget list" where
  "draw_peer e is_slave peer =
     map Label [text_of (hostname peer), role_label (peer_role peer), text_of (ip_address peer),
       show_int (seconds_since (de_now e) (last_seen peer)) @ ''s ago''] @
     (if is_slave then [Push ''Connect'' (tcp_port peer \<noteq> 0) (Connect_to peer)] else [])"

definition draw_server :: "draw_env \<Rightarrow> peer_info list \<Rightarrow> connection_info \<Rightarrow> 'os program \<Rightarrow> widget list" where
  "draw_server e peers info p =
     (case ci_state info of
        Pairing \<Rightarrow> [Label (''Unknown device wants to pair. Fingerprint: '' @ ci_fingerprint info),
                    Push ''Accept'' True (Decide Approved), Push ''Reject'' True (Decide Rejected)]
      | Connected \<Rightarrow>
          [Label (''Connected: '' @ text_of (resolve_peer_name peers (ci_peer info) (ci_peer_ip info))),
           Push ''Disconnect'' True Disconnect_slave,
           Label (''Input control: '' @ (if is_owned (pg_input p) then ''Master'' else ''Slave'')),
           Label ''(Ctrl+Alt+Shift+Esc forces control back to Master)'',
           Label (''Keys held: '' @ (let held = joined (map (\<lambda>k. vk_name (held_vk k)) (is_held (pg_input p)))
                                    in if held = [] then ''(none)'' else held)),
           Label (''Audio buffer: '' @ show_nat 10 (case ma_playback (pg_master p) of None \<Rightarrow> 0 | Some b \<Rightarrow> jb_depth b) @
                  '' packets   |   Memory: '' @ show_fixed 0 (de_memory e) @ '' MiB'')] @
          draw_connection_quality e info p @ Label ''Slave's displays:'' # draw_monitor_table (ci_monitors info)
      | _ \<Rightarrow> [Label ''Waiting for a Slave to connect...''])"

definition draw_client :: "draw_env \<Rightarrow> peer_info list \<Rightarrow> connection_info \<Rightarrow> 'os program \<Rightarrow> widget list" where
  "draw_client e peers info p =
     (case ci_state info of
        Connecting \<Rightarrow> [Label (''Connecting to '' @ text_of (ci_peer_ip info) @ ''...'')]
      | Pairing \<Rightarrow> [Label (''Fingerprint: '' @ ci_fingerprint info), Label ''Waiting for the Master to approve...'']
      | Connected \<Rightarrow>
          [Label (''Connected: '' @ text_of (resolve_peer_name peers (ci_peer info) (ci_peer_ip info))),
           Push ''Disconnect'' True Disconnect_master] @ draw_connection_quality e info p
      | _ \<Rightarrow> [Label ''Connection failed''])"

text \<open>The listener is read for the table of peers; without one there is a null pointer.\<close>

definition draw_connection_tab :: "draw_env \<Rightarrow> 'os program \<Rightarrow> widget list option" where
  "draw_connection_tab e p =
     (let a = pg_app p; is_slave = (ap_role a = Slave); wanted = (if ap_role a = Master then Slave else Master)
      in case ap_listener a of
           None \<Rightarrow> None
         | Some t \<Rightarrow> Some (
             [Number ''Connection timeout (s)'' (ap_timeout a) (Set_timeout (de_typed e)),
              Label (if is_slave then ''(Give up auto-reconnecting after this many seconds of continuous disconnection.)''
                     else ''(Force-disconnect a silent Slave after this many seconds with no traffic.)'')] @
             (if is_slave
              then [Check ''Auto-connect to trusted Masters'' (ap_auto a) (Set_auto (\<not> ap_auto a)),
                    Label ''(Automatically connects to any discovered Master already in the trusted list below.)''] else []) @
             [Label (''Discovered '' @ role_label wanted @ ''(s):'')] @
             map Label ([''Hostname'', ''Role'', ''IP'', ''Last seen''] @ (if is_slave then [''Connect''] else [])) @
             concat (map (draw_peer e is_slave) (filter (\<lambda>q. peer_role q = wanted) (peer_snapshot t))) @
             (if ap_role a = Master
              then (case ap_server a of
                      None \<Rightarrow> []
                    | Some s \<Rightarrow> Label (''Listening on port '' @ show_word (case ap_announcer a of None \<Rightarrow> 0 | Some n \<Rightarrow> ann_port n)) #
                        draw_server e (peer_snapshot t) (link_server_status s) p)
              else (case ap_client a of
                      None \<Rightarrow> []
                    | Some l \<Rightarrow> draw_client e (peer_snapshot t) (link_status l) p))))"

definition format_controls :: "bool \<Rightarrow> audio_format \<Rightarrow> widget list" where
  "format_controls sends f =
     [Check ''Send audio'' sends (Choose_audio (Send (\<not> sends))), Label ''Sample rate:'',
      Radio ''48kHz'' (sample_rate f = 48000) (Choose_audio Rate48), Radio ''24kHz'' (sample_rate f = 24000) (Choose_audio Rate24),
      Label ''Bit depth:'', Radio ''16-bit'' (bit_depth f = 16) (Choose_audio Depth16), Radio ''8-bit'' (bit_depth f = 8) (Choose_audio Depth8)]"

definition audio_format_text :: "u32 \<Rightarrow> byte \<Rightarrow> string" where
  "audio_format_text rate depth_bits = show_word rate @ '' Hz, '' @ show_word depth_bits @ ''-bit''"

definition draw_audio_tab :: "'os program \<Rightarrow> widget list" where
  "draw_audio_tab p =
     (let a = pg_app p
      in if ap_role a = Slave
         then format_controls (ap_audio_send a) (ap_audio_format a) @
           map Label [if sl_active (pg_slave p)
              then ''Currently sending: '' @ audio_format_text (sample_rate (sl_active_format (pg_slave p))) (bit_depth (sl_active_format (pg_slave p)))
              else ''Not currently sending (not connected, or disabled above).'',
              ''(These settings can also be changed from Master's side.)'']
         else Label (if ap_overridden a then ''Requesting from Slave:'' else ''Slave's current settings:'') #
           format_controls (ap_master_send a) (ap_master_format a) @
           [Label (case server_status a of
              Some info \<Rightarrow>
                if ci_state info = Connected
                then (if ci_audio_send_enabled info then ''Slave is sending: '' @ audio_format_text (ci_audio_rate info) (ci_audio_depth info)
                      else ''Slave is not sending audio.'')
                else ''No audio (Slave not connected).''
            | None \<Rightarrow> ''No audio (Slave not connected).'')])"

section \<open>The screens\<close>

definition draw_role_select :: "draw_env \<Rightarrow> 'os program \<Rightarrow> widget list option" where
  "draw_role_select e p = Some
     [Exit_button, Label (''This machine: '' @ text_of (ap_host (pg_app p))), Label ''Choose how this device should act on the LAN:'',
      Push ''I am the Master'' True (Choose_role Master (de_port e)), Push ''I am a Slave'' True (Choose_role Slave (de_port e)),
      Push ''Manage known devices'' True Manage_devices]"

definition draw_discovery :: "draw_env \<Rightarrow> 'os program \<Rightarrow> widget list option" where
  "draw_discovery e p =
     (let a = pg_app p
      in map_option (\<lambda>tab_widgets.
           [Exit_button, Label (''Role: '' @ role_label (ap_role a) @ ''  |  Host: '' @ text_of (ap_host a))] @ tab_widgets @
           Label ''This machine's displays:'' # draw_monitor_table (pg_monitors p) @
           [Push ''Manage known devices'' True Manage_devices] @
           (if ap_role a = Master then [Push ''Arrange screens'' True Arrange_screens] else []) @
           [Push ''Back'' True Leave_discovery])
         (if de_tab e = Connection_tab then draw_connection_tab e p else Some (draw_audio_tab p)))"

definition draw_known_peer :: "u64 \<times> bytes \<Rightarrow> widget list" where
  "draw_known_peer = (\<lambda>(i, key).
     [Label (padded 16 (show_hex i)), Label (concat (map (\<lambda>b. padded 2 (show_hex b)) (take 4 key)) @ ''...''),
      Push ''Forget'' True (Forget i)])"

definition draw_manage_devices :: "'os program \<Rightarrow> widget list option" where
  "draw_manage_devices p = Some (
     [Exit_button, Label ''Known devices:''] @ map Label [''Device ID'', ''Key'', ''Forget''] @
     concat (map draw_known_peer (known_list (ap_known (pg_app p)))) @ [Push ''Back'' True Back])"

definition draw_arrangement_widgets :: "'os program \<Rightarrow> widget list option" where
  "draw_arrangement_widgets p = Some (
     [Exit_button, Label ''Screen arrangement:'', Label ''Drag the Slave block to a side of the Master block, then release to snap.''] @
     (if pg_monitors p = [] then [Label ''This machine reported no displays.'']
      else if \<not> has_peer (server_status (pg_app p)) then [Label ''Master'', Label ''Connect a Slave to arrange its screens.'']
      else [Label ''Master'', Label ''Slave'']) @
     [Push ''Back'' True Back])"

definition draw_widgets :: "draw_env \<Rightarrow> 'os program \<Rightarrow> widget list option" where
  "draw_widgets e p =
     (case ap_screen (pg_app p) of
        RoleSelect \<Rightarrow> draw_role_select e p
      | Discovery \<Rightarrow> draw_discovery e p
      | ManageDevices \<Rightarrow> draw_manage_devices p
      | Arrangement \<Rightarrow> draw_arrangement_widgets p)"

section \<open>The widgets are the steps\<close>

text \<open>One control can cause several events: a number, a port or the new value of a check box are not part of it.\<close>

fun control :: "app_event \<Rightarrow> app_event" where
  "control (Choose_role r port) = Choose_role r 0"
| "control (Set_timeout v) = Set_timeout 0"
| "control (Set_auto b) = Set_auto False"
| "control (Choose_audio (Send b)) = Choose_audio (Send False)"
| "control ev = ev"

definition events_of :: "widget list \<Rightarrow> app_event set" where
  "events_of ws = {ev. \<exists>w \<in> set ws. widget_event w = Some ev}"

lemma events_of_simps [simp]:
  "events_of [] = {}" "events_of (w # ws) = set_option (widget_event w) \<union> events_of ws"
  "events_of (ws @ vs) = events_of ws \<union> events_of vs" "events_of (concat wss) = (\<Union>ws \<in> set wss. events_of ws)"
  "events_of (map Label ss) = {}"
  by (auto simp: events_of_def)

lemma no_events [simp]: "events_of (draw_monitor_table ms) = {}" "events_of (draw_connection_quality e info p) = {}"
  by (auto simp: draw_monitor_table_def draw_connection_quality_def)

lemma server_events:
  "events_of (draw_server e peers info p) =
    (case ci_state info of Pairing \<Rightarrow> {Decide Approved, Decide Rejected} | Connected \<Rightarrow> {Disconnect_slave} | _ \<Rightarrow> {})"
  by (auto simp: draw_server_def split: connection_state.split)

lemma client_events: "events_of (draw_client e peers info p) = (if ci_state info = Connected then {Disconnect_master} else {})"
  by (auto simp: draw_client_def split: connection_state.split)

lemma peer_events: "events_of (draw_peer e is_slave q) = (if is_slave \<and> tcp_port q \<noteq> 0 then {Connect_to q} else {})"
  by (simp add: draw_peer_def)

lemma format_events: "events_of (format_controls sends f) = Choose_audio ` {Send (\<not> sends), Rate48, Rate24, Depth16, Depth8}"
  by (auto simp: format_controls_def)

lemma audio_events:
  "events_of (draw_audio_tab p) =
    Choose_audio ` {Send (\<not> (if ap_role (pg_app p) = Slave then ap_audio_send (pg_app p) else ap_master_send (pg_app p))),
      Rate48, Rate24, Depth16, Depth8}"
  by (simp add: draw_audio_tab_def Let_def format_events)

definition connection_tab_events :: "draw_env \<Rightarrow> app \<Rightarrow> app_event set" where
  "connection_tab_events e a =
    {Set_timeout (de_typed e)} \<union>
      (if ap_role a = Slave
       then {Set_auto (\<not> ap_auto a)} \<union>
         Connect_to ` {q. \<exists>t. ap_listener a = Some t \<and> q \<in> set (peer_snapshot t) \<and> peer_role q = Master \<and> tcp_port q \<noteq> 0} \<union>
         (case client_status a of Some info \<Rightarrow> (if ci_state info = Connected then {Disconnect_master} else {}) | None \<Rightarrow> {})
       else (case server_status a of
           Some info \<Rightarrow> (case ci_state info of Pairing \<Rightarrow> {Decide Approved, Decide Rejected} | Connected \<Rightarrow> {Disconnect_slave} | _ \<Rightarrow> {})
         | None \<Rightarrow> {}))"

lemma connection_events:
  "ap_listener (pg_app p) \<noteq> None \<Longrightarrow> \<exists>ws. draw_connection_tab e p = Some ws \<and> events_of ws = connection_tab_events e (pg_app p)"
  by (cases "ap_role (pg_app p)")
    (auto simp: draw_connection_tab_def connection_tab_events_def Let_def peer_events server_events client_events
      split: option.splits if_splits)

lemma known_events: "events_of (draw_known_peer x) = {Forget (fst x)}"
  by (cases x) (simp add: draw_known_peer_def)

text \<open>Soundness, screen by screen: what a widget causes is a step.\<close>

lemma discovery_events_step:
  assumes "app_ok a" "ap_screen a = Discovery" "a = pg_app p" "draw_discovery e p = Some ws" "ev \<in> events_of ws"
  shows "button ev \<and> (\<exists>a'. app_step a ev a')"
proof -
  obtain t where t: "ap_listener a = Some t" using assms(1,2) by (auto simp: app_defs)
  have no_client: "ap_client a \<noteq> None \<Longrightarrow> ap_role a = Slave" using assms(1,2) by (auto simp: app_defs)
  obtain cs where cs: "draw_connection_tab e p = Some cs" "events_of cs = connection_tab_events e a"
    using connection_events [of p e] t assms(3) by auto
  have "ev \<in> events_of cs \<or> ev \<in> events_of (draw_audio_tab p) \<or> ev = Manage_devices \<or> ev = Leave_discovery \<or>
      ev = Arrange_screens \<and> ap_role a = Master"
    using assms(3-5) cs(1) by (auto simp: draw_discovery_def Let_def split: if_splits)
  moreover have "button ev" if "ev \<in> events_of cs"
    using that unfolding cs(2) by (auto simp: connection_tab_events_def button_def network_news_def split: if_splits option.splits connection_state.splits)
  moreover have "\<exists>a'. app_step a ev a'" if "ev \<in> events_of cs"
    using that t assms(2) unfolding cs(2)
    by (cases "ap_role a") (auto simp: connection_tab_events_def intro: app_step.intros split: if_splits option.splits connection_state.splits)
  moreover have "button ev \<and> (\<exists>a'. app_step a ev a')" if "ev \<in> events_of (draw_audio_tab p)"
    using that assms(2) by (auto simp: audio_events button_def network_news_def intro: app_step.intros)
  ultimately show ?thesis using assms(2) by (auto simp: button_def network_news_def intro: app_step.intros)
qed

text \<open>Completeness on the discovery screen: every step of a button has its widget, on one of the two tabs.\<close>

lemma discovery_step_events:
  assumes "app_ok a" "ap_screen a = Discovery" "a = pg_app p" "app_step a ev a'" "button ev"
  shows "\<exists>tab ws ev'. draw_discovery (e\<lparr>de_tab := tab\<rparr>) p = Some ws \<and> ev' \<in> events_of ws \<and> control ev' = control ev"
proof -
  obtain t where t: "ap_listener a = Some t" using assms(1,2) by (auto simp: app_defs)
  let ?c = "e\<lparr>de_tab := Connection_tab\<rparr>" and ?d = "e\<lparr>de_tab := Audio_tab\<rparr>"
  obtain cs where cs: "draw_connection_tab ?c p = Some cs" "events_of cs = connection_tab_events ?c a"
    using connection_events [of p ?c] t assms(3) by auto
  have "\<exists>ws. draw_discovery ?c p = Some ws \<and> events_of cs \<union> {Manage_devices, Leave_discovery} \<union>
      (if ap_role a = Master then {Arrange_screens} else {}) \<subseteq> events_of ws"
    using cs(1) assms(3) by (cases "ap_role a") (auto simp: draw_discovery_def Let_def)
  then obtain ws where ws: "draw_discovery ?c p = Some ws" "events_of cs \<union> {Manage_devices, Leave_discovery} \<union>
      (if ap_role a = Master then {Arrange_screens} else {}) \<subseteq> events_of ws" by blast
  note there = ws(2) [unfolded cs(2) connection_tab_events_def]
  obtain vs where vs: "draw_discovery ?d p = Some vs" "events_of (draw_audio_tab p) \<subseteq> events_of vs"
    by (auto simp: draw_discovery_def Let_def)
  have here: "(\<exists>ev' \<in> events_of ws. control ev' = control ev) \<or> (\<exists>ev' \<in> events_of vs. control ev' = control ev)"
    if "ev \<in> events_of ws"
    using that by blast
  have "(\<exists>ev' \<in> events_of ws. control ev' = control ev) \<or> (\<exists>ev' \<in> events_of vs. control ev' = control ev)"
    using assms(4)
  proof (cases rule: app_step.cases)
    case (audio ch)
    then have "\<exists>ev' \<in> events_of (draw_audio_tab p). control ev' = control ev"
      by (cases ch) (auto simp: audio_events)
    with vs(2) show ?thesis by blast
  next
    case (set_timeout v)
    then have "Set_timeout (de_typed ?c) \<in> events_of ws" "control (Set_timeout (de_typed ?c)) = control ev" using there by auto
    then show ?thesis by blast
  next
    case (set_auto b)
    then have "Set_auto (\<not> ap_auto a) \<in> events_of ws" "control (Set_auto (\<not> ap_auto a)) = control ev" using there by auto
    then show ?thesis by blast
  qed (rule here, use assms(2,5) there t in \<open>force simp: button_def network_news_def\<close>)+
  then show ?thesis using ws(1) vs(1) by blast
qed

text \<open>What is on the screen is exactly what the application can take.\<close>

definition offers_steps :: "draw_env \<Rightarrow> 'os program \<Rightarrow> bool" where
  "offers_steps e p \<longleftrightarrow>
    (\<exists>ws. draw_widgets e p = Some ws \<and> (\<forall>ev \<in> events_of ws. button ev \<and> (\<exists>a. app_step (pg_app p) ev a))) \<and>
    (\<forall>ev a. button ev \<and> app_step (pg_app p) ev a \<longrightarrow>
      (\<exists>tab ws ev'. draw_widgets (e\<lparr>de_tab := tab\<rparr>) p = Some ws \<and> ev' \<in> events_of ws \<and> control ev' = control ev))"

lemma exact_screen:
  assumes "draw_widgets e p = Some ws" "events_of ws = S" "\<And>ev. ev \<in> S \<Longrightarrow> button ev \<and> (\<exists>a. app_step (pg_app p) ev a)"
    and "\<And>ev a. button ev \<Longrightarrow> app_step (pg_app p) ev a \<Longrightarrow> \<exists>ev' \<in> S. control ev' = control ev"
  shows "offers_steps e p"
  unfolding offers_steps_def
proof (intro conjI allI impI)
  show "\<exists>ws. draw_widgets e p = Some ws \<and> (\<forall>ev \<in> events_of ws. button ev \<and> (\<exists>a. app_step (pg_app p) ev a))"
    using assms(1-3) by auto
next
  fix ev a
  assume "button ev \<and> app_step (pg_app p) ev a"
  then obtain ev' where "ev' \<in> events_of ws" "control ev' = control ev" using assms(2,4) by blast
  then show "\<exists>tab ws ev'. draw_widgets (e\<lparr>de_tab := tab\<rparr>) p = Some ws \<and> ev' \<in> events_of ws \<and> control ev' = control ev"
    using assms(1) by (intro exI [of _ "de_tab e"] exI [of _ ws] exI [of _ ev']) simp
qed

lemma discovery_exact:
  assumes ok: "app_ok (pg_app p)" and screen: "ap_screen (pg_app p) = Discovery"
  shows "offers_steps e p"
proof -
  obtain t where l: "ap_listener (pg_app p) = Some t" using ok screen by (auto simp: app_defs)
  obtain cs where "draw_connection_tab e p = Some cs" using connection_events [of p e] l by auto
  then have "\<exists>ws. draw_widgets e p = Some ws"
    using screen by (cases "de_tab e") (auto simp: draw_widgets_def draw_discovery_def Let_def)
  then obtain ws where ws: "draw_widgets e p = Some ws" by blast
  have d: "draw_widgets e' p = draw_discovery e' p" for e' using screen by (simp add: draw_widgets_def)
  show ?thesis
    using ws discovery_events_step [OF ok screen refl] discovery_step_events [OF ok screen refl, of _ _ e]
    unfolding offers_steps_def d by blast
qed

lemma role_select_exact:
  assumes screen: "ap_screen (pg_app p) = RoleSelect"
  shows "offers_steps e p"
proof -
  have "\<exists>ws. draw_widgets e p = Some ws \<and> events_of ws = {Choose_role Master (de_port e), Choose_role Slave (de_port e), Manage_devices}"
    using screen by (auto simp: draw_widgets_def draw_role_select_def)
  then obtain ws where ws: "draw_widgets e p = Some ws"
    "events_of ws = {Choose_role Master (de_port e), Choose_role Slave (de_port e), Manage_devices}" by blast
  have "\<exists>ev' \<in> {Choose_role Master (de_port e), Choose_role Slave (de_port e), Manage_devices}. control ev' = control ev"
    if "button ev" "app_step (pg_app p) ev a" for ev a
    using that(2,1) screen
  proof (cases rule: app_step.cases)
    case (choose_role r q)
    then show ?thesis by (cases r) simp_all
  qed (auto simp: button_def network_news_def)
  moreover have "button ev \<and> (\<exists>a. app_step (pg_app p) ev a)"
    if "ev \<in> {Choose_role Master (de_port e), Choose_role Slave (de_port e), Manage_devices}" for ev
    using that screen by (auto simp: button_def network_news_def intro: app_step.intros)
  ultimately show ?thesis by (intro exact_screen [OF ws]) blast+
qed

lemma manage_devices_exact:
  assumes screen: "ap_screen (pg_app p) = ManageDevices"
  shows "offers_steps e p"
proof -
  let ?evs = "Forget ` fst ` set (kp_peers (ap_known (pg_app p))) \<union> {Back}"
  have "\<exists>ws. draw_widgets e p = Some ws \<and> events_of ws = ?evs"
    using screen by (auto simp: draw_widgets_def draw_manage_devices_def known_events known_list_def)
  then obtain ws where ws: "draw_widgets e p = Some ws" "events_of ws = ?evs" by blast
  have "ev \<in> ?evs" if "button ev" "app_step (pg_app p) ev a" for ev a
    using that(2,1) screen
  proof (cases rule: app_step.cases)
    case (forget i)
    then show ?thesis by (auto simp: is_known_def dest: map_of_SomeD) (force dest: map_of_SomeD)
  qed (auto simp: button_def network_news_def)
  moreover have "button ev \<and> (\<exists>a. app_step (pg_app p) ev a)" if evs: "ev \<in> ?evs" for ev
  proof (cases "ev = Back")
    case True
    then show ?thesis using screen by (auto simp: button_def network_news_def intro: app_step.go_back)
  next
    case False
    then obtain i where i: "ev = Forget i" "i \<in> fst ` set (kp_peers (ap_known (pg_app p)))" using evs by auto
    then have "is_known i (ap_known (pg_app p))" by (simp add: is_known_def map_of_eq_None_iff)
    then have "app_step (pg_app p) ev (forget_device i (pg_app p))" unfolding i(1) by (rule app_step.forget [OF screen])
    then show ?thesis by (auto simp: i(1) button_def network_news_def)
  qed
  ultimately show ?thesis by (intro exact_screen [OF ws]) blast+
qed

lemma arrangement_exact:
  assumes screen: "ap_screen (pg_app p) = Arrangement"
  shows "offers_steps e p"
proof -
  have "\<exists>ws. draw_widgets e p = Some ws \<and> events_of ws = {Back}"
    using screen by (simp add: draw_widgets_def draw_arrangement_widgets_def)
  then obtain ws where ws: "draw_widgets e p = Some ws" "events_of ws = {Back}" by blast
  have "ev = Back" if "button ev" "app_step (pg_app p) ev a" for ev a
    using that(2,1) screen by (cases rule: app_step.cases) (auto simp: button_def network_news_def)
  moreover have "button Back \<and> (\<exists>a. app_step (pg_app p) Back a)"
    using screen by (auto simp: button_def network_news_def intro: app_step.go_back)
  ultimately show ?thesis by (intro exact_screen [OF ws]) blast+
qed



end
