(* ===== verification/VirtualDevices.thy ===== *)
theory VirtualDevices
  imports Inject Topology
begin

text \<open>
  The virtual keyboard and mouse of \<^verbatim>\<open>src/input/inject.cpp\<close> as the kernel sees them: what each device
  declares when it is created on first use, and the range of the pointer's axes, which
  \<^verbatim>\<open>configure_pointer_bounds\<close> sets and \<^verbatim>\<open>main.cpp\<close> takes from the displays. libevdev and the kernel are
  represented by the declarations alone: the kernel drops an event of a type or code that was not declared.
\<close>

section \<open>Devices\<close>

record virtual_device =
  vd_name :: string
  vd_properties :: "nat list"
  vd_codes :: "(nat \<times> nat) list"
  vd_ranges :: "(nat \<times> int \<times> int) list"

definition KEY_MAX :: nat where "KEY_MAX = 0x2FF"
definition INPUT_PROP_POINTER :: nat where "INPUT_PROP_POINTER = 0"

definition enable_codes :: "nat \<Rightarrow> nat list \<Rightarrow> virtual_device \<Rightarrow> virtual_device" where
  "enable_codes ty codes d = d\<lparr>vd_codes := vd_codes d @ map (Pair ty) codes\<rparr>"

definition enable_range :: "nat \<Rightarrow> int \<Rightarrow> int \<Rightarrow> virtual_device \<Rightarrow> virtual_device" where
  "enable_range code lo hi d = d\<lparr>vd_codes := vd_codes d @ [(EV_ABS, code)], vd_ranges := vd_ranges d @ [(code, lo, hi)]\<rparr>"

text \<open>Creating a device succeeds when the system allows it.\<close>

definition create_device :: "bool \<Rightarrow> string \<Rightarrow> (virtual_device \<Rightarrow> virtual_device) \<Rightarrow> virtual_device option" where
  "create_device available name configure =
     (if available then Some (configure \<lparr>vd_name = name, vd_properties = [], vd_codes = [], vd_ranges = []\<rparr>) else None)"

definition configure_keyboard :: "virtual_device \<Rightarrow> virtual_device" where
  "configure_keyboard = enable_codes EV_KEY [0..<Suc KEY_MAX]"

definition configure_mouse :: "cluster_bounds \<Rightarrow> virtual_device \<Rightarrow> virtual_device" where
  "configure_mouse b d =
     enable_range 1 (min_y b) (max_y b) (enable_range 0 (min_x b) (max_x b)
       (enable_codes EV_REL [8] (enable_codes EV_KEY [0x110, 0x111, 0x112, 0x113, 0x114]
         (d\<lparr>vd_properties := vd_properties d @ [INPUT_PROP_POINTER]\<rparr>))))"

section \<open>The injector with its devices\<close>

record injector =
  ij_core :: inject
  ij_bounds :: cluster_bounds
  ij_keyboard :: "virtual_device option"
  ij_mouse :: "virtual_device option"

definition injector_init :: injector where
  "injector_init =
     \<lparr>ij_core = inject_init\<lparr>in_available := False\<rparr>,
      ij_bounds = \<lparr>min_x = 0, max_x = 65535, min_y = 0, max_y = 65535\<rparr>, ij_keyboard = None, ij_mouse = None\<rparr>"

definition open_keyboard :: "injector \<Rightarrow> injector" where
  "open_keyboard st =
     (if ij_keyboard st \<noteq> None then st
      else st\<lparr>ij_keyboard := create_device (in_available (ij_core st)) ''NoCapKVM Virtual Keyboard'' configure_keyboard\<rparr>)"

definition open_mouse :: "injector \<Rightarrow> injector" where
  "open_mouse st =
     (if ij_mouse st \<noteq> None then st
      else st\<lparr>ij_mouse := create_device (in_available (ij_core st)) ''NoCapKVM Virtual Mouse'' (configure_mouse (ij_bounds st))\<rparr>)"

definition configure_pointer_bounds :: "int \<Rightarrow> int \<Rightarrow> int \<Rightarrow> int \<Rightarrow> injector \<Rightarrow> injector" where
  "configure_pointer_bounds lo_x hi_x lo_y hi_y st =
     st\<lparr>ij_bounds := \<lparr>min_x = lo_x, max_x = hi_x, min_y = lo_y, max_y = hi_y\<rparr>\<rparr>"

text \<open>What \<open>main\<close> does once, before any connection.\<close>

definition configure_displays :: "monitor_info list \<Rightarrow> injector \<Rightarrow> injector" where
  "configure_displays monitors st =
     (if monitors = [] then st
      else let b = compute_bounds monitors in configure_pointer_bounds (min_x b) (max_x b) (min_y b) (max_y b) st)"

datatype injector_use =
  Move int int
| Press byte bool
| Scroll int
| Type_key u32 u32 bool bool
| Modifiers byte
| Bounds int int int int
| Available bool

fun use_injector :: "injector_use \<Rightarrow> injector \<Rightarrow> injector" where
  "use_injector (Move x y) st = (let st1 = open_mouse st in st1\<lparr>ij_core := inject_mouse_absolute x y (ij_core st1)\<rparr>)"
| "use_injector (Press b d) st = (let st1 = open_mouse st in st1\<lparr>ij_core := inject_mouse_button b d (ij_core st1)\<rparr>)"
| "use_injector (Scroll d) st = (let st1 = open_mouse st in st1\<lparr>ij_core := inject_mouse_wheel d (ij_core st1)\<rparr>)"
| "use_injector (Type_key v s d e) st = (let st1 = open_keyboard st in st1\<lparr>ij_core := inject_key v s d e (ij_core st1)\<rparr>)"
| "use_injector (Modifiers m) st = (let st1 = open_keyboard st in st1\<lparr>ij_core := set_modifiers m (ij_core st1)\<rparr>)"
| "use_injector (Bounds lx hx ly hy) st = configure_pointer_bounds lx hx ly hy st"
| "use_injector (Available b) st = st\<lparr>ij_core := (ij_core st)\<lparr>in_available := b\<rparr>\<rparr>"

section \<open>Every event is declared\<close>

fun declared :: "virtual_device option \<Rightarrow> uinput_event \<Rightarrow> bool" where
  "declared None e \<longleftrightarrow> False"
| "declared (Some d) (Ev ty code v) \<longleftrightarrow> (ty, code) = (EV_SYN, 0) \<or> (ty, code) \<in> set (vd_codes d)"

definition the_keyboard :: "virtual_device \<Rightarrow> bool" where
  "the_keyboard d \<longleftrightarrow> d = configure_keyboard \<lparr>vd_name = ''NoCapKVM Virtual Keyboard'', vd_properties = [], vd_codes = [], vd_ranges = []\<rparr>"

definition a_mouse :: "cluster_bounds \<Rightarrow> virtual_device \<Rightarrow> bool" where
  "a_mouse b d \<longleftrightarrow> d = configure_mouse b \<lparr>vd_name = ''NoCapKVM Virtual Mouse'', vd_properties = [], vd_codes = [], vd_ranges = []\<rparr>"

definition devices_ok :: "injector \<Rightarrow> bool" where
  "devices_ok st \<longleftrightarrow> (ij_keyboard st \<noteq> None \<longleftrightarrow> in_keyboard (ij_core st)) \<and> (ij_mouse st \<noteq> None \<longleftrightarrow> in_mouse (ij_core st)) \<and>
     (\<forall>d. ij_keyboard st = Some d \<longrightarrow> the_keyboard d) \<and> (\<forall>d. ij_mouse st = Some d \<longrightarrow> (\<exists>b. a_mouse b d)) \<and>
     list_all (declared (ij_keyboard st)) (in_keys (ij_core st)) \<and> list_all (declared (ij_mouse st)) (in_pointer (ij_core st))"

lemma key_declared: "the_keyboard d \<Longrightarrow> code \<le> KEY_MAX \<Longrightarrow> declared (Some d) (Ev EV_KEY code v)"
  by (auto simp: the_keyboard_def configure_keyboard_def enable_codes_def)

lemma sync_declared [simp]: "list_all (declared (Some d)) sync_report"
  by (simp add: sync_report_def)

lemma mouse_declared:
  assumes "a_mouse b d"
  shows "declared (Some d) (Ev EV_ABS 0 v)" "declared (Some d) (Ev EV_ABS 1 v)" "declared (Some d) (Ev EV_REL 8 v)"
    "button_code n = Some code \<Longrightarrow> declared (Some d) (Ev EV_KEY code v)"
proof -
  have codes: "vd_codes d = map (Pair EV_KEY) [0x110, 0x111, 0x112, 0x113, 0x114] @ [(EV_REL, 8), (EV_ABS, 0), (EV_ABS, 1)]"
    using assms by (simp add: a_mouse_def configure_mouse_def enable_codes_def enable_range_def)
  show "declared (Some d) (Ev EV_ABS 0 v)" "declared (Some d) (Ev EV_ABS 1 v)" "declared (Some d) (Ev EV_REL 8 v)"
    by (simp_all add: codes)
  assume b: "button_code n = Some code"
  then have n: "n \<le> 4" and code: "code = [0x110, 0x111, 0x112, 0x113, 0x114] ! unat n"
    by (auto simp: button_code_def split: if_splits)
  have "unat n \<le> 4" using n by (simp add: word_le_nat_alt)
  then have "unat n \<in> {0, 1, 2, 3, 4}" by auto
  then show "declared (Some d) (Ev EV_KEY code v)" unfolding code by (auto simp: codes)
qed

lemma key_code_small: "key_code sc ext = Some code \<Longrightarrow> code \<le> KEY_MAX"
proof -
  assume k: "key_code sc ext = Some code"
  show ?thesis
  proof (cases ext)
    case True
    then have "code \<in> set [96, 97, 98, 100, 102, 103, 104, 105, 106, 107, 108, 109, 110, 111, 125, 126, 127]"
      using k by (auto simp: key_code_def translate_extended_scancode_def split: if_splits)
    then show ?thesis by (auto simp: KEY_MAX_def)
  next
    case False
    then have "code = unat sc" "sc \<le> 88" using k by (auto simp: key_code_def split: if_splits)
    then show ?thesis by (simp add: word_le_nat_alt KEY_MAX_def)
  qed
qed

text \<open>Writing to an open device keeps the invariant when what is written is declared.\<close>

lemma devices_ok_open:
  assumes "devices_ok st"
  shows "devices_ok (open_keyboard st\<lparr>ij_core := ensure_keyboard_dev (ij_core st)\<rparr>)"
    "devices_ok (open_mouse st\<lparr>ij_core := ensure_mouse_dev (ij_core st)\<rparr>)"
  using assms
  by (auto simp: devices_ok_def open_keyboard_def open_mouse_def create_device_def ensure_keyboard_dev_def
      ensure_mouse_dev_def the_keyboard_def a_mouse_def list_all_iff split: if_splits)

lemma devices_ok_emit:
  "devices_ok st \<Longrightarrow> (\<And>d. the_keyboard d \<Longrightarrow> list_all (declared (Some d)) evs) \<Longrightarrow>
    devices_ok (st\<lparr>ij_core := emit_key evs (ij_core st)\<rparr>)"
  "devices_ok st \<Longrightarrow> (\<And>b d. a_mouse b d \<Longrightarrow> list_all (declared (Some d)) evs) \<Longrightarrow>
    devices_ok (st\<lparr>ij_core := emit_pointer evs (ij_core st)\<rparr>)"
  by (auto simp: devices_ok_def emit_key_def emit_pointer_def)

lemma devices_ok_shadow: "devices_ok st \<Longrightarrow> devices_ok (st\<lparr>ij_core := (ij_core st)\<lparr>in_modifiers := m\<rparr>\<rparr>)"
  by (simp add: devices_ok_def)

lemma devices_ok_modifiers_loop:
  "devices_ok (st\<lparr>ij_core := s\<rparr>) \<Longrightarrow> \<forall>(code, b) \<in> set ms. code \<le> KEY_MAX \<Longrightarrow>
    devices_ok (st\<lparr>ij_core := snd (set_modifiers_loop m ms (ch, s))\<rparr>)"
proof (induction ms arbitrary: ch s)
  case (Cons x ms)
  obtain code b where x: "x = (code, b)" by fastforce
  let ?s = "emit_key [Ev EV_KEY code (if bit m b then 1 else 0)] s"
  have "devices_ok (st\<lparr>ij_core := ?s\<rparr>)"
    using devices_ok_emit(1) [OF Cons.prems(1)] key_declared [of _ code] Cons.prems(2) by (simp add: x)
  from devices_ok_shadow [OF this, of "set_bit_to b (bit m b) (in_modifiers s)"]
  have "devices_ok (st\<lparr>ij_core := ?s\<lparr>in_modifiers := set_bit_to b (bit m b) (in_modifiers s)\<rparr>\<rparr>)" by simp
  from Cons.IH [OF this, of True] Cons.IH [OF Cons.prems(1), of ch] Cons.prems(2) show ?case
    by (cases "bit m b = bit (in_modifiers s) b") (simp_all add: x Let_def del: if_split)
qed simp

lemma devices_ok_use:
  assumes "devices_ok st"
  shows "devices_ok (use_injector u st)"
proof -
  let ?k = "(open_keyboard st)\<lparr>ij_core := ensure_keyboard_dev (ij_core st)\<rparr>"
  let ?m = "(open_mouse st)\<lparr>ij_core := ensure_mouse_dev (ij_core st)\<rparr>"
  have core [simp]: "ij_core (open_keyboard st) = ij_core st" "ij_core (open_mouse st) = ij_core st"
    by (simp_all add: open_keyboard_def open_mouse_def)
  note k = devices_ok_open(1) [OF assms] and m = devices_ok_open(2) [OF assms]
  show ?thesis
  proof (cases u)
    case (Move x y)
    from devices_ok_emit(2) [OF m, of "[Ev EV_ABS 0 x, Ev EV_ABS 1 y] @ sync_report"] mouse_declared show ?thesis
      by (simp add: Move inject_mouse_absolute_def)
  next
    case (Press b d)
    show ?thesis
    proof (cases "button_code b")
      case None
      with m show ?thesis by (simp add: Press inject_mouse_button_def Let_def)
    next
      case (Some code)
      from devices_ok_emit(2) [OF m, of "[Ev EV_KEY code (if d then 1 else 0)] @ sync_report"] mouse_declared(4) [OF _ Some]
      show ?thesis by (simp add: Press Some inject_mouse_button_def Let_def)
    qed
  next
    case (Scroll d)
    from devices_ok_emit(2) [OF m, of "[Ev EV_REL 8 (if d < 0 then - ((- d) div 120) else d div 120)] @ sync_report"]
      mouse_declared(3) show ?thesis by (simp add: Scroll inject_mouse_wheel_def)
  next
    case (Type_key v sc d e)
    show ?thesis
    proof (cases "key_code sc e")
      case None
      with k show ?thesis by (simp add: Type_key inject_key_def Let_def)
    next
      case (Some code)
      have "devices_ok (?k\<lparr>ij_core := emit_key ([Ev EV_KEY code (if d then 1 else 0)] @ sync_report) (ij_core ?k)\<rparr>)"
        using devices_ok_emit(1) [OF k] key_declared [OF _ key_code_small [OF Some]] by simp
      note written = this devices_ok_shadow [OF this]
      show ?thesis
      proof (cases "modifier_bit code")
        case None
        with written(1) show ?thesis by (simp add: Type_key Some inject_key_def Let_def del: append_Cons append_Nil)
      next
        case (Some b)
        with written(2) [of "set_bit_to b d (in_modifiers (ij_core st))"] \<open>key_code sc e = Some code\<close> show ?thesis
          by (simp add: Type_key inject_key_def Let_def del: append_Cons append_Nil)
      qed
    qed
  next
    case (Modifiers mk)
    let ?l = "set_modifiers_loop mk kModifiers (False, ensure_keyboard_dev (ij_core st))"
    have "devices_ok (?k\<lparr>ij_core := snd ?l\<rparr>)"
      using devices_ok_modifiers_loop [of "ensure_keyboard_dev (ij_core st)" ?k kModifiers mk False] k
      by (simp add: kModifiers_def KEY_MAX_def)
    from this devices_ok_emit(1) [OF this, of sync_report] show ?thesis
      by (simp add: Modifiers set_modifiers_def Let_def split_def)
  qed (use assms in \<open>simp_all add: devices_ok_def configure_pointer_bounds_def\<close>)
qed

lemma devices_ok_run: "devices_ok st \<Longrightarrow> devices_ok (fold use_injector us st)"
  by (induction us arbitrary: st) (simp_all add: devices_ok_use)

lemma devices_ok_init: "devices_ok injector_init"
  by (simp add: devices_ok_def injector_init_def inject_init_def)

text \<open>
  C36. The kernel drops nothing that is injected: whatever is moved, clicked, scrolled or typed in whatever
  order, whether or not the system lets the devices be created at first, every event written is of a
  type and code that its device declared, and the device has both axes of the pointer, with the bounds of
  some configuration as their ranges.
\<close>

theorem injected_events_declared:
  "let st = fold use_injector us injector_init
   in list_all (declared (ij_keyboard st)) (in_keys (ij_core st)) \<and>
     list_all (declared (ij_mouse st)) (in_pointer (ij_core st)) \<and>
     (case ij_mouse st of None \<Rightarrow> in_pointer (ij_core st) = []
      | Some d \<Rightarrow> \<exists>b :: cluster_bounds. vd_ranges d = [(0, min_x b, max_x b), (1, min_y b, max_y b)])"
proof -
  let ?st = "fold use_injector us injector_init"
  have ok: "devices_ok ?st" by (rule devices_ok_run [OF devices_ok_init])
  have written: "list_all (declared (ij_keyboard ?st)) (in_keys (ij_core ?st))" "list_all (declared (ij_mouse ?st)) (in_pointer (ij_core ?st))"
    using ok unfolding devices_ok_def by blast+
  have "case ij_mouse ?st of None \<Rightarrow> in_pointer (ij_core ?st) = []
      | Some d \<Rightarrow> \<exists>b :: cluster_bounds. vd_ranges d = [(0, min_x b, max_x b), (1, min_y b, max_y b)]"
  proof (cases "ij_mouse ?st")
    case None
    with written(2) show ?thesis by (cases "in_pointer (ij_core ?st)") simp_all
  next
    case (Some d)
    then obtain b where "a_mouse b d" using ok unfolding devices_ok_def by blast
    then have "vd_ranges d = [(0, min_x b, max_x b), (1, min_y b, max_y b)]"
      by (simp add: a_mouse_def configure_mouse_def enable_codes_def enable_range_def)
    then have "\<exists>b :: cluster_bounds. vd_ranges d = [(0, min_x b, max_x b), (1, min_y b, max_y b)]" by blast
    with Some show ?thesis by (simp del: One_nat_def)
  qed
  with written show ?thesis by (simp add: Let_def)
qed

section \<open>The range of the pointer\<close>

lemma mouse_stays: "ij_mouse st = Some d \<Longrightarrow> ij_mouse (fold use_injector us st) = Some d"
proof (induction us arbitrary: st)
  case (Cons u us)
  then have "ij_mouse (use_injector u st) = Some d"
    by (cases u) (simp_all add: open_mouse_def open_keyboard_def configure_pointer_bounds_def)
  with Cons.IH show ?case by simp
qed simp

text \<open>
  The pointer's range is that of the displays the program started with: when the displays are configured
  before the first use, as \<open>main\<close> does, the virtual mouse has exactly the bounding box of the displays as its range,
  and it keeps this range for good, whatever is configured or done later; a display that is added
  while the program runs lies outside it.
\<close>

theorem pointer_range_of_start:
  assumes "monitors \<noteq> []" "b = compute_bounds monitors"
    and "ij_mouse (fold use_injector (Available True # Move x y # us) (configure_displays monitors injector_init)) = Some d"
  shows "vd_ranges d = [(0, min_x b, max_x b), (1, min_y b, max_y b)]"
proof -
  let ?st = "fold use_injector [Available True, Move x y] (configure_displays monitors injector_init)"
  have "\<exists>m. ij_mouse ?st = Some m \<and> vd_ranges m = [(0, min_x b, max_x b), (1, min_y b, max_y b)]"
    using assms(1,2)
    by (simp add: configure_displays_def configure_pointer_bounds_def injector_init_def inject_init_def open_mouse_def
        create_device_def configure_mouse_def enable_range_def enable_codes_def Let_def)
  then show ?thesis using mouse_stays [of ?st _ us] assms(3) by auto
qed

theorem pointer_range_of_start_witness:
  "map_option vd_ranges (ij_mouse (fold use_injector [Available True, Move 5 5, Bounds 0 3840 0 1080]
     (configure_displays [hd_monitor] injector_init))) = Some [(0, 0, 1920), (1, 0, 1080)]"
proof -
  obtain d where d: "ij_mouse (fold use_injector [Available True, Move 5 5, Bounds 0 3840 0 1080]
      (configure_displays [hd_monitor] injector_init)) = Some d"
    by (simp add: open_mouse_def create_device_def configure_displays_def configure_pointer_bounds_def injector_init_def Let_def)
  from pointer_range_of_start [OF _ refl d] show ?thesis
    unfolding d by (simp add: hd_monitor_def compute_bounds_def empty_bounds_def extend_bounds_def int32_max_def int32_min_def)
qed

end
